(* ===== verification/Prelude.thy ===== *)
theory Prelude
  imports Complex_Main "HOL-Library.Word" "HOL-Library.Multiset" "HOL-Library.Signed_Division"
begin

unbundle bit_operations_syntax

text \<open>
  The vocabulary the components share: the model's types, Go's run-time panics, Go strings as
  byte sequences, the stream reader \<^verbatim>\<open>io.ReadFull\<close> and the interface of fixed-width byte
  codecs (package \<^verbatim>\<open>encoding/binary\<close>) as the locale \<open>codec\<close>, interpreted on the big- and
  little-endian encodings of the machine words the wire formats use.
\<close>

section \<open>Types and collections\<close>

named_theorems wf_intros \<open>an operation preserves the well-formedness invariant of its component\<close>
named_theorems op_defs \<open>the definitions of the operations of a component\<close>

type_synonym byte = "8 word"
type_synonym bytes = "8 word list"
type_synonym u16 = "16 word"
type_synonym u32 = "32 word"
type_synonym u64 = "64 word"
type_synonym cid = string
type_synonym peer_id = string
type_synonym duration = int

text \<open>The run-time panics of Go that the modelled code can raise.\<close>

datatype go_panic = DivideByZero | IndexOutOfRange | NilDereference | MakeSlice

text \<open>
  Ranging over a Go map: the language leaves the order open, so \<open>iter\<close> is the order in which
  this run happens to meet the keys; it covers them all and has no repetition.
\<close>

definition map_range :: "'k list \<Rightarrow> ('k \<Rightarrow> 'v option) \<Rightarrow> 'k list" where
  "map_range iter m = filter (\<lambda>k. m k \<noteq> None) iter"

definition enumerates :: "'k list \<Rightarrow> ('k \<Rightarrow> 'v option) \<Rightarrow> bool" where
  "enumerates iter m \<longleftrightarrow> distinct iter \<and> dom m \<subseteq> set iter"

lemma set_map_range: "enumerates iter m \<Longrightarrow> set (map_range iter m) = dom m"
  by (auto simp: map_range_def enumerates_def dom_def)

lemma distinct_map_range: "enumerates iter m \<Longrightarrow> distinct (map_range iter m)"
  by (simp add: map_range_def enumerates_def)

section \<open>Go strings and byte slices\<close>

definition bytes_of_string :: "string \<Rightarrow> bytes" where
  "bytes_of_string s = map (\<lambda>c. of_nat (of_char c)) s"

definition string_of_bytes :: "bytes \<Rightarrow> string" where
  "string_of_bytes b = map (\<lambda>w. char_of (unat w)) b"

section \<open>Fixed-width integers on the wire\<close>

text \<open>
  \<open>le_enc n v\<close> is the little-endian encoding of \<open>v\<close> in \<open>n\<close> bytes: byte \<open>i\<close> holds
  \<open>v >> 8i\<close> truncated to eight bits, as \<^verbatim>\<open>binary.LittleEndian.PutUint32\<close> writes it; the
  big-endian form is its reverse.
\<close>

fun le_enc :: "nat \<Rightarrow> nat \<Rightarrow> bytes" where
  "le_enc 0 v = []"
| "le_enc (Suc n) v = of_nat v # le_enc n (v div 256)"

fun le_dec :: "bytes \<Rightarrow> nat" where
  "le_dec [] = 0"
| "le_dec (b # bs) = unat b + 256 * le_dec bs"

definition word_le_enc :: "'a::len word \<Rightarrow> bytes" where
  "word_le_enc w = le_enc (LENGTH('a) div 8) (unat w)"

definition word_le_dec :: "bytes \<Rightarrow> 'a::len word" where
  "word_le_dec bs = of_nat (le_dec bs)"

definition word_be_enc :: "'a::len word \<Rightarrow> bytes" where
  "word_be_enc w = rev (word_le_enc w)"

definition word_be_dec :: "bytes \<Rightarrow> 'a::len word" where
  "word_be_dec bs = word_le_dec (rev bs)"

text \<open>
  \<^verbatim>\<open>io.ReadFull\<close> and \<^verbatim>\<open>binary.Read\<close> on a stream whose remaining bytes are given: the bytes
  read and what is left, or \<open>None\<close> when the stream ends first (\<^verbatim>\<open>io.EOF\<close> or
  \<^verbatim>\<open>io.ErrUnexpectedEOF\<close>).
\<close>

definition ReadFull :: "nat \<Rightarrow> bytes \<Rightarrow> (bytes \<times> bytes) option" where
  "ReadFull n s = (if length s < n then None else Some (take n s, drop n s))"

subsection \<open>Lemmas\<close>

lemma unat_bound: "unat (w :: 'a::len word) < 2 ^ LENGTH('a)"
  by simp

lemma unat_byte_bound: "unat (b :: byte) < 256"
  using unat_bound [of b] by simp

lemma unat_of_nat_small: "v < 2 ^ LENGTH('a) \<Longrightarrow> unat (of_nat v :: 'a::len word) = v"
  by (simp add: unat_of_nat)

lemma string_of_bytes_of_string [simp]: "string_of_bytes (bytes_of_string s) = s"
proof -
  have "char_of (unat (of_nat (of_char c) :: byte)) = c" for c
  proof -
    have "of_char c < (256::nat)" by simp
    then have "unat (of_nat (of_char c) :: byte) = of_char c"
      by (intro unat_of_nat_small) simp
    then show ?thesis by simp
  qed
  then show ?thesis
    by (simp add: string_of_bytes_def bytes_of_string_def comp_def)
qed

lemma length_bytes_of_string [simp]: "length (bytes_of_string s) = length s"
  by (simp add: bytes_of_string_def)

lemma length_string_of_bytes [simp]: "length (string_of_bytes s) = length s"
  by (simp add: string_of_bytes_def)

lemma length_le_enc [simp]: "length (le_enc n v) = n"
  by (induction n arbitrary: v) auto

lemma le_dec_le_enc [simp]: "le_dec (le_enc n v) = v mod 256 ^ n"
proof (induction n arbitrary: v)
  case (Suc n)
  have "unat (of_nat v :: byte) = v mod 256"
    by (simp add: unat_of_nat)
  with Suc show ?case by (simp add: mod_mult2_eq)
qed simp

lemma le_dec_bound: "le_dec bs < 256 ^ length bs"
proof (induction bs)
  case (Cons b bs)
  with unat_byte_bound [of b] show ?case by simp
qed simp

lemma le_enc_le_dec [simp]: "length bs = n \<Longrightarrow> le_enc n (le_dec bs) = bs"
proof (induction bs arbitrary: n)
  case (Cons b bs)
  have u: "unat b < 256" by (rule unat_byte_bound)
  have "(256 :: byte) = 0" by code_simp
  then have "(256 :: byte) * of_nat (le_dec bs) = 0" by (metis mult_zero_left)
  then have "(of_nat (unat b + 256 * le_dec bs) :: byte) = b" by simp
  moreover have "(unat b + 256 * le_dec bs) div 256 = le_dec bs"
    using u by simp
  ultimately show ?case using Cons by (cases n) auto
qed simp

lemma power_256_eq: "(256::nat) ^ n = 2 ^ (8 * n)"
  by (simp add: power_mult)

section \<open>The codec interface\<close>

text \<open>
  What a wire format relies on: a value is written in a fixed number of bytes, reading the
  bytes gives the value back, and every byte string of that length is the encoding of some value.
\<close>

locale codec =
  fixes width :: nat
    and enc :: "'a \<Rightarrow> bytes"
    and dec :: "bytes \<Rightarrow> 'a"
  assumes length_enc: "length (enc x) = width"
    and dec_enc: "dec (enc x) = x"
    and enc_dec: "length bs = width \<Longrightarrow> enc (dec bs) = bs"
begin

lemma enc_append_inject: "enc x @ r = enc y @ s \<longleftrightarrow> x = y \<and> r = s"
  by (metis append_eq_append_conv dec_enc length_enc)

lemma read_enc: "ReadFull width (enc x @ r) = Some (enc x, r)"
  by (simp add: ReadFull_def length_enc)

lemma read_short: "ReadFull width s = None \<longleftrightarrow> length s < width"
  by (simp add: ReadFull_def)

lemma read_inverse: "ReadFull width s = Some (b, r) \<Longrightarrow> s = enc (dec b) @ r"
  by (auto simp: ReadFull_def enc_dec split: if_splits)

lemmas codec_laws = length_enc dec_enc read_enc

end

lemma codec_word_le:
  assumes "LENGTH('a::len) = 8 * n"
  shows "codec n (word_le_enc :: 'a word \<Rightarrow> bytes) word_le_dec"
proof
  fix x :: "'a word"
  have "unat x < 256 ^ n" using unat_bound [of x] assms by (simp add: power_256_eq)
  then show "word_le_dec (word_le_enc x) = x"
    using assms by (simp add: word_le_enc_def word_le_dec_def)
next
  fix bs :: bytes assume l: "length bs = n"
  have "le_dec bs < 2 ^ LENGTH('a)"
    using le_dec_bound [of bs] l assms by (simp add: power_256_eq)
  then have "unat (of_nat (le_dec bs) :: 'a word) = le_dec bs"
    by (rule unat_of_nat_small)
  then show "word_le_enc (word_le_dec bs :: 'a word) = bs"
    using l assms by (simp add: word_le_enc_def word_le_dec_def)
qed (use assms in \<open>simp add: word_le_enc_def\<close>)

lemma codec_rev:
  assumes "codec n e d"
  shows "codec n (\<lambda>w. rev (e w)) (\<lambda>bs. d (rev bs))"
  using assms by (simp add: codec_def)

lemma codec_word_be:
  assumes "LENGTH('a::len) = 8 * n"
  shows "codec n (word_be_enc :: 'a word \<Rightarrow> bytes) word_be_dec"
  using codec_rev [OF codec_word_le [OF assms]]
  by (simp add: word_be_enc_def [abs_def] word_be_dec_def [abs_def])

interpretation be16: codec 2 "word_be_enc :: u16 \<Rightarrow> bytes" word_be_dec
  by (rule codec_word_be) simp

interpretation be32: codec 4 "word_be_enc :: u32 \<Rightarrow> bytes" word_be_dec
  by (rule codec_word_be) simp

interpretation be64: codec 8 "word_be_enc :: u64 \<Rightarrow> bytes" word_be_dec
  by (rule codec_word_be) simp

interpretation le32: codec 4 "word_le_enc :: u32 \<Rightarrow> bytes" word_le_dec
  by (rule codec_word_le) simp

interpretation le64: codec 8 "word_le_enc :: u64 \<Rightarrow> bytes" word_le_dec
  by (rule codec_word_le) simp

lemmas wire_laws [simp] = be16.codec_laws be32.codec_laws be64.codec_laws le32.codec_laws le64.codec_laws

lemma sdiv_eq_div: "0 \<le> (a::int) \<Longrightarrow> 0 < b \<Longrightarrow> a sdiv b = a div b"
  by (cases "a = 0") (simp_all add: signed_divide_int_def)

lemma ReadFull_append [simp]: "length b = n \<Longrightarrow> ReadFull n (b @ r) = Some (b, r)"
  by (simp add: ReadFull_def)

lemma ReadFull_Some_iff: "ReadFull n s = Some (b, r) \<longleftrightarrow> length b = n \<and> s = b @ r"
  by (auto simp: ReadFull_def split: if_splits)

lemma ReadFull_all [simp]: "length s = n \<Longrightarrow> ReadFull n s = Some (s, [])"
  by (simp add: ReadFull_def)

lemma ReadFull_short [simp]: "length s < n \<Longrightarrow> ReadFull n s = None"
  by (simp add: ReadFull_def)

end
