(* ===== verification/Go_Hash.thy ===== *)
theory Go_Hash
  imports Prelude
begin

unbundle bit_operations_syntax

text \<open>
  The hash and text encodings of Go's standard library that the source calls:
  \<^verbatim>\<open>crypto/sha256\<close> (FIPS 180-4), \<^verbatim>\<open>hash/fnv\<close> (64-bit FNV-1a), hexadecimal text
  (\<^verbatim>\<open>fmt.Sprintf("%x")\<close> and \<^verbatim>\<open>encoding/hex\<close>). All of them compute.
\<close>

section \<open>Hexadecimal text\<close>

definition hex_digit :: "nat \<Rightarrow> char" where
  "hex_digit n = char_of (if n < 10 then n + 48 else n + 87)"

definition hex_value :: "char \<Rightarrow> nat option" where
  "hex_value c =
     (let n = of_char c :: nat in
      if 48 \<le> n \<and> n \<le> 57 then Some (n - 48)
      else if 97 \<le> n \<and> n \<le> 102 then Some (n - 87)
      else if 65 \<le> n \<and> n \<le> 70 then Some (n - 55)
      else None)"

fun hex_encode :: "bytes \<Rightarrow> string" where
  "hex_encode [] = []"
| "hex_encode (b # bs) = hex_digit (unat b div 16) # hex_digit (unat b mod 16) # hex_encode bs"

fun hex_decode :: "string \<Rightarrow> bytes option" where
  "hex_decode [] = Some []"
| "hex_decode [c] = None"
| "hex_decode (c # d # s) =
     (case (hex_value c, hex_value d, hex_decode s) of
        (Some h, Some l, Some bs) \<Rightarrow> Some (of_nat (16 * h + l) # bs)
      | _ \<Rightarrow> None)"

section \<open>FNV-1a, 64 bits\<close>

definition fnv64a :: "bytes \<Rightarrow> u64" where
  "fnv64a bs = fold (\<lambda>b h. (h XOR ucast b) * 1099511628211) bs 14695981039346656037"

section \<open>SHA-256\<close>

text \<open>The round constants and, below, the initial hash values, in decimal.\<close>

definition sha256_k :: "u32 list" where
  "sha256_k =
    [1116352408, 1899447441, 3049323471, 3921009573, 961987163, 1508970993, 2453635748, 2870763221,
     3624381080, 310598401, 607225278, 1426881987, 1925078388, 2162078206, 2614888103, 3248222580,
     3835390401, 4022224774, 264347078, 604807628, 770255983, 1249150122, 1555081692, 1996064986,
     2554220882, 2821834349, 2952996808, 3210313671, 3336571891, 3584528711, 113926993, 338241895,
     666307205, 773529912, 1294757372, 1396182291, 1695183700, 1986661051, 2177026350, 2456956037,
     2730485921, 2820302411, 3259730800, 3345764771, 3516065817, 3600352804, 4094571909, 275423344,
     430227734, 506948616, 659060556, 883997877, 958139571, 1322822218, 1537002063, 1747873779,
     1955562222, 2024104815, 2227730452, 2361852424, 2428436474, 2756734187, 3204031479, 3329325298]"

datatype sha256_state = SHA256 (wa: u32) (wb: u32) (wc: u32) (wd: u32) (we: u32) (wf: u32) (wg: u32) (wh: u32)

definition sha256_init :: sha256_state where
  "sha256_init = SHA256 1779033703 3144134277 1013904242 2773480762 1359893119 2600822924 528734635 1541459225"

definition sha256_pad :: "bytes \<Rightarrow> bytes" where
  "sha256_pad m = m @ [0x80] @ replicate ((119 - length m mod 64) mod 64) 0
     @ word_be_enc (of_nat (8 * length m) :: u64)"

fun be_words :: "bytes \<Rightarrow> u32 list" where
  "be_words (a # b # c # d # bs) = word_be_dec [a, b, c, d] # be_words bs"
| "be_words _ = []"

text \<open>The message schedule, most recent word first.\<close>

fun sha256_extend :: "nat \<Rightarrow> u32 list \<Rightarrow> u32 list" where
  "sha256_extend 0 ws = ws"
| "sha256_extend (Suc n) ws =
     (let x = ws ! 14; y = ws ! 1;
          s0 = word_rotr 7 x XOR word_rotr 18 x XOR drop_bit 3 x;
          s1 = word_rotr 17 y XOR word_rotr 19 y XOR drop_bit 10 y
      in sha256_extend n ((ws ! 15 + s0 + ws ! 6 + s1) # ws))"

definition sha256_round :: "sha256_state \<Rightarrow> u32 \<times> u32 \<Rightarrow> sha256_state" where
  "sha256_round s kw =
     (case s of SHA256 a b c d e f g h \<Rightarrow>
      (let s1 = word_rotr 6 e XOR word_rotr 11 e XOR word_rotr 25 e;
           ch = (e AND f) XOR (NOT e AND g);
           t1 = h + s1 + ch + fst kw + snd kw;
           s0 = word_rotr 2 a XOR word_rotr 13 a XOR word_rotr 22 a;
           maj = (a AND b) XOR (a AND c) XOR (b AND c);
           t2 = s0 + maj
       in SHA256 (t1 + t2) a b c (d + t1) e f g))"

definition sha256_block :: "sha256_state \<Rightarrow> bytes \<Rightarrow> sha256_state" where
  "sha256_block s blk =
     (let ws = rev (sha256_extend 48 (rev (be_words blk)));
          t = foldl sha256_round s (zip sha256_k ws)
      in case (s, t) of (SHA256 a b c d e f g h, SHA256 a' b' c' d' e' f' g' h') \<Rightarrow>
           SHA256 (a + a') (b + b') (c + c') (d + d') (e + e') (f + f') (g + g') (h + h'))"

fun sha256_blocks :: "nat \<Rightarrow> sha256_state \<Rightarrow> bytes \<Rightarrow> sha256_state" where
  "sha256_blocks 0 s m = s"
| "sha256_blocks (Suc n) s m = sha256_blocks n (sha256_block s (take 64 m)) (drop 64 m)"

definition sha256_words :: "sha256_state \<Rightarrow> u32 list" where
  "sha256_words s = [wa s, wb s, wc s, wd s, we s, wf s, wg s, wh s]"

definition sha256 :: "bytes \<Rightarrow> bytes" where
  "sha256 m = (let p = sha256_pad m
     in concat (map word_be_enc (sha256_words (sha256_blocks (length p div 64) sha256_init p))))"

section \<open>Lemmas\<close>

lemma length_sha256 [simp]: "length (sha256 m) = 32"
  by (simp add: sha256_def sha256_words_def Let_def)

lemma length_hex_encode [simp]: "length (hex_encode bs) = 2 * length bs"
  by (induction bs) auto

lemma hex_value_digit: "n < 16 \<Longrightarrow> hex_value (hex_digit n) = Some n"
  by (simp add: hex_value_def hex_digit_def)

lemma hex_digit_no_slash: "n < 16 \<Longrightarrow> hex_digit n \<noteq> CHR ''/''"
proof
  assume "n < 16" and "hex_digit n = CHR ''/''"
  then have "(of_char (hex_digit n) :: nat) = of_char (CHR ''/'')" by simp
  with \<open>n < 16\<close> show False by (simp add: hex_digit_def split: if_splits)
qed

lemma hex_decode_encode [simp]: "hex_decode (hex_encode bs) = Some bs"
proof (induction bs)
  case (Cons b bs)
  have "unat b div 16 < 16" using unat_byte_bound [of b] by simp
  then have "hex_value (hex_digit (unat b div 16)) = Some (unat b div 16)"
    by (rule hex_value_digit)
  moreover have "hex_value (hex_digit (unat b mod 16)) = Some (unat b mod 16)"
    by (rule hex_value_digit) simp
  moreover have "(of_nat (16 * (unat b div 16) + unat b mod 16) :: byte) = b"
    by (simp only: mult_div_mod_eq) simp
  ultimately show ?case using Cons by simp
qed simp

lemma hex_encode_inject [simp]: "hex_encode a = hex_encode b \<longleftrightarrow> a = b"
  by (metis hex_decode_encode option.inject)

lemma hex_encode_no_slash: "CHR ''/'' \<notin> set (hex_encode bs)"
proof (induction bs)
  case (Cons b bs)
  have "unat b div 16 < 16" using unat_byte_bound [of b] by simp
  then have "hex_digit (unat b div 16) \<noteq> CHR ''/''" by (rule hex_digit_no_slash)
  moreover have "hex_digit (unat b mod 16) \<noteq> CHR ''/''" by (rule hex_digit_no_slash) simp
  ultimately show ?case using Cons by (auto simp: eq_commute)
qed simp

end
