(* ===== verification/Chunker.thy ===== *)
theory Chunker
  imports Go_Hash
begin

text \<open>
  Content-addressed blocks (\<^verbatim>\<open>internal/content/chunker.go\<close>): content identifiers, splitting a
  reader into blocks, the adaptive chunk size and manifests. Identifiers are computed with the
  SHA-256 of theory \<open>Go_Hash\<close>; a reader is the bytes it delivers and how it ends.
\<close>

section \<open>Blocks and identifiers\<close>

record Block =
  CID :: cid
  Data :: bytes

definition ComputeCID :: "bytes \<Rightarrow> cid" where
  "ComputeCID data = hex_encode (sha256 data)"

definition content_addressed :: "Block \<Rightarrow> bool" where
  "content_addressed b \<longleftrightarrow> CID b = ComputeCID (Data b)"

section \<open>Splitting a reader\<close>

datatype io_error = EOF | ErrUnexpectedEOF | ReadError string

record reader =
  rd_data :: bytes
  rd_fail :: "string option"

definition reader_ReadFull :: "nat \<Rightarrow> reader \<Rightarrow> bytes \<times> io_error option \<times> reader" where
  "reader_ReadFull n r =
     (if n \<le> length (rd_data r) then (take n (rd_data r), None, r\<lparr>rd_data := drop n (rd_data r)\<rparr>)
      else (rd_data r,
            Some (case rd_fail r of
                    Some e \<Rightarrow> ReadError e
                  | None \<Rightarrow> (if rd_data r = [] then EOF else ErrUnexpectedEOF)),
            r\<lparr>rd_data := []\<rparr>))"

datatype chunk_error = ChunkSizeNotPositive int | ReadChunk string

text \<open>The read loop with a buffer of \<open>k + 1\<close> bytes; \<open>blocks\<close> is what has been appended so far.\<close>

function chunk_loop :: "nat \<Rightarrow> reader \<Rightarrow> Block list \<Rightarrow> chunk_error + Block list" where
  "chunk_loop k r blocks =
     (let (buf, err, r') = reader_ReadFull (Suc k) r;
          blocks' = (if 0 < length buf then blocks @ [\<lparr>CID = ComputeCID buf, Data = buf\<rparr>] else blocks)
      in case err of
           None \<Rightarrow> chunk_loop k r' blocks'
         | Some EOF \<Rightarrow> Inr blocks'
         | Some ErrUnexpectedEOF \<Rightarrow> Inr blocks'
         | Some (ReadError e) \<Rightarrow> Inl (ReadChunk e))"
  by pat_completeness auto
termination
  by (relation "measure (\<lambda>(k, r, bs). length (rd_data r))")
     (auto simp: reader_ReadFull_def split: if_splits)

declare chunk_loop.simps [simp del]

definition Chunk :: "reader \<Rightarrow> int \<Rightarrow> chunk_error + Block list" where
  "Chunk r chunkSize =
     (if chunkSize \<le> 0 then Inl (ChunkSizeNotPositive chunkSize)
      else chunk_loop (nat chunkSize - 1) r [])"

section \<open>Adaptive chunk size\<close>

definition AdaptiveChunkSize :: "int \<Rightarrow> real \<Rightarrow> int \<Rightarrow> int \<Rightarrow> int" where
  "AdaptiveChunkSize fileSize pathRTTms minChunk0 maxChunk0 =
     (let minChunk = (if minChunk0 \<le> 0 then 64 * 1024 else minChunk0);
          maxChunk = (if maxChunk0 \<le> 0 then 1024 * 1024 else maxChunk0)
      in if fileSize \<le> minChunk then fileSize
         else let targetChunks = (if pathRTTms > 50 then 4 else if pathRTTms < 5 then 16 else 8);
                  chunkSize = fileSize sdiv targetChunks;
                  chunkSize' = (if chunkSize < minChunk then minChunk else chunkSize)
              in if chunkSize' > maxChunk then maxChunk else chunkSize')"

section \<open>Manifests\<close>

record Manifest =
  RootCID :: cid
  Name :: string
  TotalSize :: int
  ChunkCIDs :: "cid list"
  PublisherID :: string
  Signature :: string

definition BuildManifest :: "string \<Rightarrow> int \<Rightarrow> Block list \<Rightarrow> Manifest" where
  "BuildManifest name totalSize blocks =
     (let cids = map CID blocks;
          rootCID = hex_encode (sha256 (concat (map bytes_of_string cids)))
      in \<lparr>RootCID = rootCID, Name = name, TotalSize = totalSize, ChunkCIDs = cids,
          PublisherID = [], Signature = []\<rparr>)"

section \<open>The abstract specification of chunking\<close>

fun split_bytes :: "nat \<Rightarrow> bytes \<Rightarrow> bytes list" where
  "split_bytes k [] = []"
| "split_bytes k (b # bs) = take (Suc k) (b # bs) # split_bytes k (drop (Suc k) (b # bs))"

definition block_of :: "bytes \<Rightarrow> Block" where
  "block_of d = \<lparr>CID = ComputeCID d, Data = d\<rparr>"

section \<open>Lemmas\<close>

lemma length_ComputeCID [simp]: "length (ComputeCID d) = 64"
  by (simp add: ComputeCID_def)

lemma ComputeCID_no_slash: "CHR ''/'' \<notin> set (ComputeCID d)"
  by (simp add: ComputeCID_def hex_encode_no_slash)

lemma block_of_simps [simp]: "CID (block_of d) = ComputeCID d" "Data (block_of d) = d"
  by (simp_all add: block_of_def)

lemma content_addressed_block_of [simp]: "content_addressed (block_of d)"
  by (simp add: content_addressed_def)

lemma split_bytes_unfold:
  "split_bytes k d = (if d = [] then [] else take (Suc k) d # split_bytes k (drop (Suc k) d))"
  by (cases d) auto

lemma concat_split_bytes [simp]: "concat (split_bytes k d) = d"
proof (induction k d rule: split_bytes.induct)
  case (2 k b bs)
  then show ?case by (simp add: append_take_drop_id [of k bs])
qed simp

lemma split_bytes_nonempty: "c \<in> set (split_bytes k d) \<Longrightarrow> c \<noteq> []"
  by (induction k d rule: split_bytes.induct) auto

lemma split_bytes_full:
  "i < length (split_bytes k d) \<Longrightarrow> Suc i < length (split_bytes k d) \<Longrightarrow>
   length (split_bytes k d ! i) = Suc k"
proof (induction k d arbitrary: i rule: split_bytes.induct)
  case (2 k b bs)
  show ?case
  proof (cases i)
    case 0
    with 2(3) have "drop k bs \<noteq> []" by (metis drop_Suc_Cons length_Cons length_greater_0_conv
        less_numeral_extra(3) list.size(3) not_less_eq split_bytes.simps(1,2))
    then show ?thesis using 0 by simp
  next
    case (Suc j)
    with 2 show ?thesis by simp
  qed
qed simp

lemma length_split_bytes: "length (split_bytes k d) = (length d + k) div Suc k"
proof (induction k d rule: split_bytes.induct)
  case (2 k b bs)
  show ?case
  proof (cases "k \<le> length bs")
    case True
    have "length (b # bs) + k = length bs + Suc k" by simp
    then have "(length (b # bs) + k) div Suc k = length bs div Suc k + 1"
      by (simp only: div_add_self2)
    with 2 True show ?thesis by simp
  next
    case False
    then have "(length (b # bs) + k) div Suc k = 1"
      by (intro div_nat_eqI) auto
    with 2 False show ?thesis by simp
  qed
qed simp

text \<open>The read loop computes the specification, and fails exactly when the reader does.\<close>

lemma chunk_loop_eof:
  "rd_fail r = None \<Longrightarrow>
   chunk_loop k r acc = Inr (acc @ map block_of (split_bytes k (rd_data r)))"
proof (induction k r acc rule: chunk_loop.induct)
  case (1 k r acc)
  let ?d = "rd_data r"
  show ?case
  proof (cases "Suc k \<le> length ?d")
    case True
    then have ne: "?d \<noteq> []" by auto
    let ?r = "r\<lparr>rd_data := drop (Suc k) ?d\<rparr>"
    have "chunk_loop k r acc = chunk_loop k ?r (acc @ [block_of (take (Suc k) ?d)])"
      using True ne by (subst chunk_loop.simps) (simp add: reader_ReadFull_def block_of_def)
    also have "\<dots> = Inr ((acc @ [block_of (take (Suc k) ?d)])
        @ map block_of (split_bytes k (drop (Suc k) ?d)))"
      using "1.IH" True ne "1.prems" by (simp add: reader_ReadFull_def block_of_def)
    finally show ?thesis using ne by (simp add: split_bytes_unfold [of k ?d])
  next
    case False
    with "1.prems" show ?thesis
      by (subst chunk_loop.simps, subst split_bytes_unfold)
         (auto simp: reader_ReadFull_def block_of_def)
  qed
qed

lemma chunk_loop_fail:
  "rd_fail r = Some e \<Longrightarrow> chunk_loop k r acc = Inl (ReadChunk e)"
proof (induction k r acc rule: chunk_loop.induct)
  case (1 k r acc)
  then show ?case
    by (subst chunk_loop.simps) (auto simp: reader_ReadFull_def Let_def)
qed

lemma Chunk_eof:
  "0 < n \<Longrightarrow> rd_fail r = None \<Longrightarrow>
   Chunk r n = Inr (map block_of (split_bytes (nat n - 1) (rd_data r)))"
  by (simp add: Chunk_def chunk_loop_eof)

lemma split_bytes_sizes:
  assumes "c \<in> set (split_bytes k d)"
  shows "length c \<le> Suc k"
  using assms by (induction k d rule: split_bytes.induct) auto

section \<open>Properties\<close>

text \<open>
  C17. Splitting a reader that ends normally succeeds for every positive chunk size, and the
  blocks are the content: their data concatenates to what the reader delivered, each block's
  identifier is the hash of its data, all blocks but the last have exactly the chunk size and the
  last is not empty, so that there are as many as the rounded-up quotient says.
\<close>

theorem Chunk_roundtrip:
  assumes "0 < chunkSize" and "rd_fail r = None"
  shows "\<exists>blocks. Chunk r chunkSize = Inr blocks \<and> concat (map Data blocks) = rd_data r
    \<and> (\<forall>b\<in>set blocks. content_addressed b \<and> Data b \<noteq> [] \<and> int (length (Data b)) \<le> chunkSize)
    \<and> (\<forall>i. Suc i < length blocks \<longrightarrow> int (length (Data (blocks ! i))) = chunkSize)
    \<and> int (length blocks) = (int (length (rd_data r)) + chunkSize - 1) div chunkSize"
proof -
  let ?k = "nat chunkSize - 1" let ?d = "rd_data r"
  let ?bs = "map block_of (split_bytes ?k ?d)"
  have k: "int (Suc ?k) = chunkSize" using assms(1) by simp
  have "int (length ?bs) = (int (length ?d) + chunkSize - 1) div chunkSize"
    using k by (simp only: length_map length_split_bytes zdiv_int) (simp add: algebra_simps)
  moreover have "\<forall>b\<in>set ?bs. content_addressed b \<and> Data b \<noteq> [] \<and> int (length (Data b)) \<le> chunkSize"
    using k split_bytes_sizes [of _ ?k ?d] split_bytes_nonempty [of _ ?k ?d] by fastforce
  moreover have "\<forall>i. Suc i < length ?bs \<longrightarrow> int (length (Data (?bs ! i))) = chunkSize"
    using k split_bytes_full [of _ ?k ?d] by simp
  ultimately show ?thesis
    using Chunk_eof [OF assms] by (intro exI [of _ ?bs]) (simp add: comp_def)
qed

theorem Chunk_roundtrip_witness:
  "\<exists>blocks. Chunk \<lparr>rd_data = [1, 2, 3, 4, 5], rd_fail = None\<rparr> 2 = Inr blocks
     \<and> concat (map Data blocks) = [1, 2, 3, 4, 5] \<and> length blocks = 3"
  using Chunk_roundtrip [of 2 "\<lparr>rd_data = [1, 2, 3, 4, 5], rd_fail = None\<rparr>"] by auto

text \<open>
  \<^verbatim>\<open>Chunk\<close> fails exactly when the chunk size is not positive or the reader fails, and then
  with the corresponding error; the blocks read before a failure are not returned.
\<close>

lemma Chunk_error_iff:
  "(chunkSize \<le> 0 \<longleftrightarrow> Chunk r chunkSize = Inl (ChunkSizeNotPositive chunkSize))
   \<and> (\<forall>e. 0 < chunkSize \<and> rd_fail r = Some e \<longleftrightarrow> Chunk r chunkSize = Inl (ReadChunk e))"
  by (cases "rd_fail r") (auto simp: Chunk_def chunk_loop_eof chunk_loop_fail)

text \<open>
  The adaptive chunk size of a file larger than the lower bound lies between the bounds,
  which default to 64 KiB and 1 MiB when they are not positive; a smaller file is one chunk.
\<close>

lemma AdaptiveChunkSize_bounds:
  assumes "mn = (if minChunk \<le> 0 then 65536 else minChunk)"
    and "mx = (if maxChunk \<le> 0 then 1048576 else maxChunk)"
  shows "if fileSize \<le> mn then AdaptiveChunkSize fileSize rtt minChunk maxChunk = fileSize
    else min mn mx \<le> AdaptiveChunkSize fileSize rtt minChunk maxChunk
       \<and> AdaptiveChunkSize fileSize rtt minChunk maxChunk \<le> mx
       \<and> 0 < AdaptiveChunkSize fileSize rtt minChunk maxChunk"
  using assms by (auto simp: AdaptiveChunkSize_def Let_def)

end
