(* ===== verification/Signing.thy ===== *)
theory Signing
  imports Chunker
begin

text \<open>
  Manifest signatures (\<^verbatim>\<open>internal/content/signing.go\<close>). The Ed25519 operations are arguments
  of the model: \<open>pub\<close> the public half of a private key, \<open>sign\<close> and \<open>verify\<close>. What is relied
  on is stated where it is used: a public key has 32 bytes, and a signature made with a key
  verifies under its public half.
\<close>

section \<open>Operations\<close>

fun string_join :: "string \<Rightarrow> string list \<Rightarrow> string" where
  "string_join sep [] = []"
| "string_join sep [s] = s"
| "string_join sep (s # t # ss) = s @ sep @ string_join sep (t # ss)"

definition manifestSigningPayload :: "Manifest \<Rightarrow> bytes" where
  "manifestSigningPayload m =
     (let parts = [RootCID m, Name m]; parts' = parts @ ChunkCIDs m
      in bytes_of_string (string_join ''|'' parts'))"

definition SignManifest ::
  "('priv \<Rightarrow> bytes) \<Rightarrow> ('priv \<Rightarrow> bytes \<Rightarrow> bytes) \<Rightarrow> Manifest \<Rightarrow> 'priv \<Rightarrow> Manifest" where
  "SignManifest pub sign m privKey =
     (let msg = manifestSigningPayload m; sig = sign privKey msg
      in m\<lparr>PublisherID := hex_encode (pub privKey), Signature := hex_encode sig\<rparr>)"

datatype verify_error =
    NotSigned | DecodePublisherID | InvalidKeySize nat | DecodeSignature | InvalidSignature

definition VerifyManifest ::
  "(bytes \<Rightarrow> bytes \<Rightarrow> bytes \<Rightarrow> bool) \<Rightarrow> Manifest \<Rightarrow> verify_error + unit" where
  "VerifyManifest verify m =
     (if Signature m = [] \<or> PublisherID m = [] then Inl NotSigned
      else case hex_decode (PublisherID m) of
        None \<Rightarrow> Inl DecodePublisherID
      | Some pubKeyBytes \<Rightarrow>
          (if length pubKeyBytes \<noteq> 32 then Inl (InvalidKeySize (length pubKeyBytes))
           else case hex_decode (Signature m) of
             None \<Rightarrow> Inl DecodeSignature
           | Some sig \<Rightarrow>
               (if \<not> verify pubKeyBytes (manifestSigningPayload m) sig then Inl InvalidSignature
                else Inr ())))"

section \<open>Lemmas\<close>

lemma bytes_of_string_inject [simp]: "bytes_of_string s = bytes_of_string t \<longleftrightarrow> s = t"
  by (metis string_of_bytes_of_string)

lemma hex_encode_eq_Nil [simp]: "hex_encode b = [] \<longleftrightarrow> b = []"
  by (cases b) auto

lemma payload_SignManifest [simp]:
  "manifestSigningPayload (SignManifest pub sign m k) = manifestSigningPayload m"
  by (simp add: manifestSigningPayload_def SignManifest_def Let_def)

lemma sep_split_unique:
  assumes "s @ c # r = t @ c # q" and "c \<notin> set s" and "c \<notin> set t"
  shows "s = t \<and> r = q"
  using assms by (auto simp: append_eq_append_conv2 append_eq_Cons_conv Cons_eq_append_conv)

lemma string_join_inject:
  assumes "string_join [c] ss = string_join [c] ts" and "ss \<noteq> []" and "ts \<noteq> []"
    and "\<forall>s\<in>set ss. c \<notin> set s" and "\<forall>t\<in>set ts. c \<notin> set t"
  shows "ss = ts"
  using assms
proof (induction ss arbitrary: ts rule: induct_list012)
  case (2 s)
  then show ?case by (cases ts rule: remdups_adj.cases) auto
next
  case (3 s s' ss)
  show ?case
  proof (cases ts rule: remdups_adj.cases)
    case (3 t t' us)
    with "3.prems" have "s = t \<and> string_join [c] (s' # ss) = string_join [c] (t' # us)"
      by (intro sep_split_unique) auto
    with "3.IH"(2) [of "t' # us"] "3.prems" 3 show ?thesis by simp
  qed (use "3.prems" in auto)
qed simp

lemma payload_inject:
  assumes "manifestSigningPayload m = manifestSigningPayload m'"
    and "\<forall>s\<in>{RootCID m, Name m} \<union> set (ChunkCIDs m). CHR ''|'' \<notin> set s"
    and "\<forall>s\<in>{RootCID m', Name m'} \<union> set (ChunkCIDs m'). CHR ''|'' \<notin> set s"
  shows "RootCID m = RootCID m' \<and> Name m = Name m' \<and> ChunkCIDs m = ChunkCIDs m'"
proof -
  have "RootCID m # Name m # ChunkCIDs m = RootCID m' # Name m' # ChunkCIDs m'"
    using assms by (intro string_join_inject [of "CHR ''|''"])
      (auto simp: manifestSigningPayload_def Let_def)
  then show ?thesis by simp
qed

section \<open>Properties\<close>

text \<open>
  A manifest signed with a key is accepted by \<^verbatim>\<open>VerifyManifest\<close>, given that the scheme's
  public keys have 32 bytes, its signatures are not empty and a signature made with a key verifies
  under its public half.
\<close>

lemma Sign_then_Verify:
  assumes "length (pub k) = 32" and "\<forall>msg. sign k msg \<noteq> []" and "\<forall>msg. verify (pub k) msg (sign k msg)"
  shows "VerifyManifest verify (SignManifest pub sign m k) = Inr ()"
proof -
  have "pub k \<noteq> []" using assms(1) by auto
  moreover have "PublisherID (SignManifest pub sign m k) = hex_encode (pub k)"
    "Signature (SignManifest pub sign m k) = hex_encode (sign k (manifestSigningPayload m))"
    by (simp_all add: SignManifest_def Let_def)
  ultimately show ?thesis using assms by (simp add: VerifyManifest_def)
qed



text \<open>
  C31. The payload does not determine the manifest: the total size is not covered by the signature,
  and a name that contains the separator has the payload of a manifest with a shorter name and one
  more chunk, so the signature of either is valid for the other.
\<close>

theorem payload_ambiguous:
  "VerifyManifest verify (m\<lparr>TotalSize := t\<rparr>) = VerifyManifest verify m
   \<and> VerifyManifest verify (m\<lparr>Name := n @ ''|'' @ c, ChunkCIDs := cs\<rparr>)
     = VerifyManifest verify (m\<lparr>Name := n, ChunkCIDs := c # cs\<rparr>)"
proof -
  have "manifestSigningPayload (m\<lparr>TotalSize := t\<rparr>) = manifestSigningPayload m"
    by (simp add: manifestSigningPayload_def)
  moreover have "manifestSigningPayload (m\<lparr>Name := n @ ''|'' @ c, ChunkCIDs := cs\<rparr>)
      = manifestSigningPayload (m\<lparr>Name := n, ChunkCIDs := c # cs\<rparr>)"
    by (cases cs) (simp_all add: manifestSigningPayload_def Let_def)
  ultimately show ?thesis by (simp add: VerifyManifest_def split: option.split)
qed

end
