(* ===== verification/Go_Path.thy ===== *)
theory Go_Path
  imports Signing
begin

text \<open>
  Lexical file paths as \<^verbatim>\<open>path/filepath\<close> processes them on Unix: \<open>Clean\<close> and \<open>Join\<close>, with the
  facts the block store needs about joining a directory and a single file name.
\<close>

section \<open>Clean and Join\<close>

fun split_slash :: "string \<Rightarrow> string list" where
  "split_slash [] = [[]]"
| "split_slash (c # cs) =
     (if c = CHR ''/'' then [] # split_slash cs
      else case split_slash cs of [] \<Rightarrow> [[c]] | s # ss \<Rightarrow> (c # s) # ss)"

text \<open>One path element on the stack of the elements kept so far, the last on top.\<close>

definition clean_elem :: "bool \<Rightarrow> string list \<Rightarrow> string \<Rightarrow> string list" where
  "clean_elem rooted acc e =
     (if e = [] \<or> e = ''.'' then acc
      else if e = ''..'' then
        (case acc of
           [] \<Rightarrow> (if rooted then [] else [e])
         | t # ts \<Rightarrow> (if t = ''..'' then e # acc else ts))
      else e # acc)"

definition clean_elems :: "string \<Rightarrow> string list" where
  "clean_elems p = rev (foldl (clean_elem (p \<noteq> [] \<and> hd p = CHR ''/'')) [] (split_slash p))"

definition path_Clean :: "string \<Rightarrow> string" where
  "path_Clean p =
     (let body = string_join ''/'' (clean_elems p)
      in if p \<noteq> [] \<and> hd p = CHR ''/'' then CHR ''/'' # body else if body = [] then ''.'' else body)"

definition path_Join :: "string list \<Rightarrow> string" where
  "path_Join es = (let ne = filter (\<lambda>e. e \<noteq> []) es
     in if ne = [] then [] else path_Clean (string_join ''/'' ne))"

section \<open>Lemmas\<close>

lemma split_slash_nonempty [simp]: "split_slash s \<noteq> []"
  by (induction s) (auto split: list.splits)

lemma split_slash_plain: "CHR ''/'' \<notin> set s \<Longrightarrow> split_slash s = [s]"
  by (induction s) auto

lemma split_slash_append: "split_slash (s @ CHR ''/'' # t) = split_slash s @ split_slash t"
  by (induction s) (auto split: list.splits)

text \<open>A file name: one path element that \<open>Clean\<close> keeps.\<close>

definition plain_name :: "string \<Rightarrow> bool" where
  "plain_name s \<longleftrightarrow> CHR ''/'' \<notin> set s \<and> s \<noteq> [] \<and> s \<noteq> ''.'' \<and> s \<noteq> ''..''"

text \<open>What precedes a file name joined to the directory \<open>d\<close>.\<close>

definition dir_prefix :: "string \<Rightarrow> string" where
  "dir_prefix d =
     (if d = [] then []
      else (if hd d = CHR ''/'' then ''/'' else []) @ concat (map (\<lambda>e. e @ ''/'') (clean_elems d)))"

lemma string_join_snoc:
  "string_join sep (es @ [x]) = concat (map (\<lambda>e. e @ sep) es) @ x"
  by (induction es rule: induct_list012) auto

lemma clean_elems_join:
  assumes "d \<noteq> []" and "plain_name x"
  shows "clean_elems (d @ CHR ''/'' # x) = clean_elems d @ [x]"
  using assms by (simp add: clean_elems_def split_slash_append split_slash_plain plain_name_def clean_elem_def)

lemma path_Join_plain:
  assumes "plain_name x"
  shows "path_Join [d, x] = dir_prefix d @ x"
proof (cases "d = []")
  case True
  have "clean_elems x = [x]" "hd x \<noteq> CHR ''/''"
    using assms
    by (simp_all add: clean_elems_def split_slash_plain plain_name_def clean_elem_def) (cases x; auto)
  then show ?thesis using True assms
    by (simp add: path_Join_def path_Clean_def dir_prefix_def plain_name_def Let_def)
next
  case False
  have "path_Join [d, x] = path_Clean (d @ CHR ''/'' # x)"
    using False assms by (simp add: path_Join_def plain_name_def)
  with False assms show ?thesis
    by (simp add: path_Clean_def clean_elems_join string_join_snoc dir_prefix_def Let_def plain_name_def)
qed

lemma plain_name_ext: "CHR ''/'' \<notin> set k \<Longrightarrow> CHR ''/'' \<notin> set ext \<Longrightarrow> 2 < length ext \<Longrightarrow> plain_name (k @ ext)"
  by (auto simp: plain_name_def dest!: arg_cong [of _ _ length])

section \<open>Cleaning is idempotent\<close>

text \<open>
  The stacks cleaning produces: plain names above a number of \<open>..\<close>, none of them in a rooted path.
\<close>

fun clean_stack :: "bool \<Rightarrow> string list \<Rightarrow> bool" where
  "clean_stack rooted [] = True"
| "clean_stack rooted (e # acc) =
     (plain_name e \<and> clean_stack rooted acc \<or> e = ''..'' \<and> \<not> rooted \<and> (\<forall>x\<in>set acc. x = ''..''))"

lemma clean_stack_dots: "\<forall>x\<in>set acc. x = ''..'' \<Longrightarrow> clean_stack False acc"
  by (induction acc) auto

lemma clean_stack_tl: "clean_stack rooted (e # acc) \<Longrightarrow> clean_stack rooted acc"
  by (auto intro: clean_stack_dots)

lemma clean_stack_elem:
  "clean_stack rooted acc \<Longrightarrow> CHR ''/'' \<notin> set e \<Longrightarrow> clean_stack rooted (clean_elem rooted acc e)"
  by (cases acc) (auto simp: clean_elem_def plain_name_def)

lemma split_slash_no_slash: "e \<in> set (split_slash s) \<Longrightarrow> CHR ''/'' \<notin> set e"
  by (induction s arbitrary: e) (fastforce split: list.splits if_splits)+

lemma clean_stack_fold:
  "clean_stack rooted acc \<Longrightarrow> \<forall>e\<in>set es. CHR ''/'' \<notin> set e \<Longrightarrow>
   clean_stack rooted (foldl (clean_elem rooted) acc es)"
  by (induction es arbitrary: acc) (auto intro: clean_stack_elem)

lemma clean_stack_elems: "clean_stack (p \<noteq> [] \<and> hd p = CHR ''/'') (rev (clean_elems p))"
  unfolding clean_elems_def rev_rev_ident
  by (rule clean_stack_fold) (auto dest: split_slash_no_slash)

lemma clean_stack_push:
  "clean_stack rooted (e # acc) \<Longrightarrow> clean_elem rooted acc e = e # acc"
  by (cases acc) (auto simp: clean_elem_def plain_name_def)

lemma clean_stack_refold: "clean_stack rooted acc \<Longrightarrow> foldl (clean_elem rooted) [] (rev acc) = acc"
proof (induction acc)
  case (Cons e acc)
  then show ?case using clean_stack_tl [OF Cons.prems] clean_stack_push [OF Cons.prems] by simp
qed simp

lemma clean_stack_slash: "clean_stack rooted acc \<Longrightarrow> e \<in> set acc \<Longrightarrow> CHR ''/'' \<notin> set e \<and> e \<noteq> []"
proof (induction acc)
  case (Cons f acc)
  have "CHR ''/'' \<notin> set ''..'' \<and> ''..'' \<noteq> ([] :: string)" by simp
  with Cons clean_stack_tl [OF Cons.prems(1)] show ?case
    by (metis clean_stack.simps(2) plain_name_def set_ConsD)
qed simp

lemma split_slash_join:
  "es \<noteq> [] \<Longrightarrow> \<forall>e\<in>set es. CHR ''/'' \<notin> set e \<Longrightarrow> split_slash (string_join ''/'' es) = es"
proof (induction es rule: induct_list012)
  case (3 e f es)
  then show ?case by (simp add: split_slash_append split_slash_plain)
qed (simp_all add: split_slash_plain)

lemma clean_elem_Nil [simp]: "clean_elem rooted acc [] = acc"
  by (simp add: clean_elem_def)

lemma clean_elems_Clean: "clean_elems (path_Clean p) = clean_elems p"
proof -
  let ?r = "p \<noteq> [] \<and> hd p = CHR ''/''" let ?es = "clean_elems p"
  let ?b = "string_join ''/'' ?es"
  have st: "clean_stack ?r (rev ?es)" by (rule clean_stack_elems)
  have re: "rev (foldl (clean_elem ?r) [] ?es) = ?es" using clean_stack_refold [OF st] by simp
  have nos: "\<forall>e\<in>set ?es. CHR ''/'' \<notin> set e \<and> e \<noteq> []" using clean_stack_slash [OF st] by auto
  have sp: "split_slash ?b = ?es" if "?es \<noteq> []" using split_slash_join [OF that] nos by blast
  have b: "?b = [] \<longleftrightarrow> ?es = []" "?es \<noteq> [] \<Longrightarrow> hd ?b \<noteq> CHR ''/''"
    using nos by (cases ?es rule: remdups_adj.cases; force simp: neq_Nil_conv)+
  show ?thesis
  proof (cases ?r)
    case True
    then show ?thesis using re sp b
      by (cases "?es = []") (auto simp: path_Clean_def Let_def clean_elems_def [of "CHR ''/'' # _"])
  next
    case False
    then have c: "path_Clean p = (if ?es = [] then ''.'' else ?b)" using b by (auto simp: path_Clean_def Let_def)
    show ?thesis
    proof (cases "?es = []")
      case True
      then show ?thesis by (simp add: c) (simp add: clean_elems_def clean_elem_def)
    next
      case ne: False
      with b have "(?b \<noteq> [] \<and> hd ?b = CHR ''/'') = ?r" using False by auto
      with ne sp re show ?thesis by (simp add: c clean_elems_def [of ?b])
    qed
  qed
qed

lemma hd_Clean: "path_Clean p \<noteq> [] \<and> (hd (path_Clean p) = CHR ''/'' \<longleftrightarrow> p \<noteq> [] \<and> hd p = CHR ''/'')"
proof -
  have nos: "\<forall>e\<in>set (clean_elems p). CHR ''/'' \<notin> set e \<and> e \<noteq> []"
    using clean_stack_slash [OF clean_stack_elems [of p]] by auto
  have "string_join ''/'' (clean_elems p) = [] \<or> hd (string_join ''/'' (clean_elems p)) \<noteq> CHR ''/''"
    using nos by (cases "clean_elems p" rule: remdups_adj.cases; force simp: neq_Nil_conv)
  then show ?thesis by (auto simp: path_Clean_def Let_def)
qed

lemma dir_prefix_Clean: "p \<noteq> [] \<Longrightarrow> dir_prefix (path_Clean p) = dir_prefix p"
  using hd_Clean [of p] by (simp add: dir_prefix_def clean_elems_Clean)

lemma dir_prefix_Join:
  assumes "plain_name x"
  shows "dir_prefix (path_Join [d, x]) = dir_prefix d @ x @ ''/''"
proof -
  have x: "x \<noteq> []" "clean_elems x = [x]" "hd x \<noteq> CHR ''/''"
    using assms by (simp_all add: clean_elems_def split_slash_plain plain_name_def clean_elem_def)
      (cases x; auto)
  show ?thesis
  proof (cases "d = []")
    case True
    with x show ?thesis by (simp add: path_Join_def dir_prefix_Clean) (simp add: dir_prefix_def)
  next
    case False
    with assms x show ?thesis
      by (simp add: path_Join_def dir_prefix_Clean) (simp add: dir_prefix_def clean_elems_join)
  qed
qed

text \<open>A file name reached through \<open>..\<close> from a subdirectory lands in the directory itself.\<close>

lemma path_Join_dotdot:
  assumes "plain_name x" and "plain_name y"
  shows "path_Join [path_Join [d, y], ''../'' @ x] = path_Join [d, x]"
proof -
  let ?j = "path_Join [d, y]"
  have j: "?j = path_Clean (if d = [] then y else d @ CHR ''/'' # y)" and y: "y \<noteq> []"
    using assms by (auto simp: path_Join_def plain_name_def)
  have hdy: "hd y \<noteq> CHR ''/''" using assms(2) by (cases y) (auto simp: plain_name_def)
  have cd: "clean_elems y = [y]"
    using assms by (simp add: clean_elems_def split_slash_plain plain_name_def clean_elem_def)
  have ej: "clean_elems ?j = (if d = [] then [] else clean_elems d) @ [y]"
    unfolding j clean_elems_Clean using assms by (auto simp: clean_elems_join cd)
  have hj: "?j \<noteq> []" "hd ?j = CHR ''/'' \<longleftrightarrow> d \<noteq> [] \<and> hd d = CHR ''/''"
    unfolding j using hd_Clean [of "if d = [] then y else d @ CHR ''/'' # y"] y hdy by auto
  have xs: "split_slash (''../'' @ x) = [''..'', x]"
    using assms(1) split_slash_append [of "''..''" x] by (simp add: split_slash_plain plain_name_def)
  let ?r = "?j \<noteq> [] \<and> hd ?j = CHR ''/''"
  have fold: "foldl (clean_elem ?r) [] (split_slash ?j) = y # rev (if d = [] then [] else clean_elems d)"
    using ej by (simp add: clean_elems_def [of ?j] rev_swap)
  have "clean_elems (?j @ CHR ''/'' # ''../'' @ x) = (if d = [] then [] else clean_elems d) @ [x]"
    unfolding clean_elems_def [of "?j @ _"] split_slash_append xs using hj(1) fold assms
    by (simp add: clean_elem_def plain_name_def)
  moreover have "path_Join [?j, ''../'' @ x] = path_Clean (?j @ CHR ''/'' # ''../'' @ x)"
    using hj(1) by (simp add: path_Join_def)
  ultimately show ?thesis
    using assms(1) hj by (simp add: path_Join_plain path_Clean_def string_join_snoc dir_prefix_def Let_def)
       (auto simp: plain_name_def)
qed

text \<open>Joining in one step or in two.\<close>

lemma path_Join_nested:
  assumes "plain_name x" and "plain_name y" and "plain_name z"
  shows "path_Join [path_Join [d, x, y], z] = path_Join [d, x, y, z]"
proof -
  let ?p = "if d = [] then x @ CHR ''/'' # y else d @ CHR ''/'' # x @ CHR ''/'' # y"
  have p: "path_Join [d, x, y] = path_Clean ?p" and ne: "?p \<noteq> []"
    using assms by (auto simp: path_Join_def plain_name_def)
  have "path_Join [d, x, y, z] = path_Clean (?p @ CHR ''/'' # z)"
    using assms by (auto simp: path_Join_def plain_name_def)
  also have "\<dots> = dir_prefix ?p @ z"
    using ne assms(3) path_Join_plain [OF assms(3), of ?p] by (simp add: path_Join_def plain_name_def split: if_splits)
  finally show ?thesis
    using dir_prefix_Clean [OF ne] path_Join_plain [OF assms(3)] by (simp only: p)
qed

end
