(* ===== verification/LRU_Cache.thy ===== *)
theory LRU_Cache
  imports Chunker
begin

text \<open>
  The block cache (\<^verbatim>\<open>internal/cache/lru.go\<close>) at the level of its linked list: the list holds
  element references (front first), \<open>elems\<close> is the \<open>cacheEntry\<close> behind each of them and
  \<open>items\<close> the index from keys to references. \<open>IsPinned\<close> is the answer of the pin checker at the
  time of the call; \<open>pinChecker\<close> says whether one is installed. The methods run under the
  cache's mutex, so each is one atomic step. A method that does not return is \<open>None\<close>.
\<close>

section \<open>State\<close>

record cacheEntry =
  ce_key :: cid
  ce_block :: Block
  ce_size :: int
  ce_fetchCount :: int

text \<open>
  The metrics hook's callbacks as the external counters they bump (\<^verbatim>\<open>node.go\<close> wires them to
  Prometheus counters); \<open>None\<close> is a nil callback.
\<close>

record MetricsHook =
  OnHit :: "int option"
  OnMiss :: "int option"

record LRUCache =
  maxBytes :: int
  items :: "cid \<Rightarrow> nat option"
  eviction :: "nat list"
  elems :: "nat \<Rightarrow> cacheEntry"
  fresh :: nat
  currentBytes :: int
  hits :: int
  misses :: int
  pinChecker :: bool
  metricsHook :: MetricsHook

record Stats =
  st_Hits :: int
  st_Misses :: int
  st_Entries :: int
  st_CurrentBytes :: int
  st_MaxBytes :: int

section \<open>Operations\<close>

definition NewLRUCache :: "int \<Rightarrow> LRUCache" where
  "NewLRUCache maxB =
     \<lparr>maxBytes = maxB, items = (\<lambda>_. None), eviction = [],
      elems = (\<lambda>_. \<lparr>ce_key = [], ce_block = \<lparr>CID = [], Data = []\<rparr>, ce_size = 0, ce_fetchCount = 0\<rparr>),
      fresh = 0, currentBytes = 0, hits = 0, misses = 0, pinChecker = False,
      metricsHook = \<lparr>OnHit = None, OnMiss = None\<rparr>\<rparr>"

definition SetPinChecker :: "LRUCache \<Rightarrow> bool \<Rightarrow> LRUCache" where
  "SetPinChecker c pc = c\<lparr>pinChecker := pc\<rparr>"

definition SetMetricsHook :: "LRUCache \<Rightarrow> MetricsHook \<Rightarrow> LRUCache" where
  "SetMetricsHook c hook = c\<lparr>metricsHook := hook\<rparr>"

definition MoveToFront :: "nat \<Rightarrow> nat list \<Rightarrow> nat list" where
  "MoveToFront e xs = e # remove1 e xs"

definition set_entry :: "LRUCache \<Rightarrow> nat \<Rightarrow> cacheEntry \<Rightarrow> LRUCache" where
  "set_entry c e entry = c\<lparr>elems := (elems c)(e := entry)\<rparr>"

definition LRUCache_Get :: "LRUCache \<Rightarrow> cid \<Rightarrow> Block option \<times> LRUCache" where
  "LRUCache_Get c k =
     (case items c k of
        Some elem \<Rightarrow>
          (let entry = elems c elem;
               c1 = set_entry c elem (entry\<lparr>ce_fetchCount := ce_fetchCount entry + 1\<rparr>);
               c2 = c1\<lparr>eviction := MoveToFront elem (eviction c1), hits := hits c1 + 1,
                       metricsHook := (metricsHook c1)\<lparr>OnHit := map_option (\<lambda>n. n + 1) (OnHit (metricsHook c1))\<rparr>\<rparr>
           in (Some (ce_block entry), c2))
      | None \<Rightarrow>
          (None, c\<lparr>misses := misses c + 1,
                   metricsHook := (metricsHook c)\<lparr>OnMiss := map_option (\<lambda>n. n + 1) (OnMiss (metricsHook c))\<rparr>\<rparr>))"

definition removeElement :: "LRUCache \<Rightarrow> nat \<Rightarrow> LRUCache" where
  "removeElement c elem =
     (let entry = elems c elem
      in c\<lparr>eviction := remove1 elem (eviction c),
           items := (items c)(ce_key entry := None),
           currentBytes := currentBytes c - ce_size entry\<rparr>)"

definition LRUCache_Evict :: "LRUCache \<Rightarrow> cid \<Rightarrow> LRUCache" where
  "LRUCache_Evict c k = (case items c k of Some elem \<Rightarrow> removeElement c elem | None \<Rightarrow> c)"

definition popularityThreshold :: int where
  "popularityThreshold = 3"

text \<open>
  The first loop of \<open>evictOldest\<close> over the candidates from the back of the list: it returns
  whether a victim was removed, and the cache.
\<close>

fun evict_scan :: "(cid \<Rightarrow> bool) \<Rightarrow> nat \<Rightarrow> nat list \<Rightarrow> nat \<Rightarrow> LRUCache \<Rightarrow> bool \<times> LRUCache" where
  "evict_scan IsPinned maxCheck [] checked c = (False, c)"
| "evict_scan IsPinned maxCheck (candidate # rest) checked c =
     (if checked < maxCheck then
        (let entry = elems c candidate in
         if pinChecker c \<and> IsPinned (ce_key entry)
         then evict_scan IsPinned maxCheck rest (checked + 1) c
         else if ce_fetchCount entry < popularityThreshold
         then (True, removeElement c candidate)
         else evict_scan IsPinned maxCheck rest (checked + 1)
                (set_entry c candidate (entry\<lparr>ce_fetchCount := ce_fetchCount entry sdiv 2\<rparr>)))
      else (False, c))"

text \<open>The fallback loop: the least recently used entry that is not pinned.\<close>

fun evict_fallback :: "(cid \<Rightarrow> bool) \<Rightarrow> nat list \<Rightarrow> LRUCache \<Rightarrow> LRUCache" where
  "evict_fallback IsPinned [] c = c"
| "evict_fallback IsPinned (candidate # rest) c =
     (if pinChecker c \<and> IsPinned (ce_key (elems c candidate))
      then evict_fallback IsPinned rest c
      else removeElement c candidate)"

definition evictOldest :: "(cid \<Rightarrow> bool) \<Rightarrow> LRUCache \<Rightarrow> LRUCache" where
  "evictOldest IsPinned c =
     (let half = length (eviction c) div 2;
          maxCheck = (if half < 1 then 1 else half)
      in case evict_scan IsPinned maxCheck (rev (eviction c)) 0 c of
           (True, c') \<Rightarrow> c'
         | (False, c') \<Rightarrow> evict_fallback IsPinned (rev (eviction c')) c')"

partial_function (option) evict_loop :: "(cid \<Rightarrow> bool) \<Rightarrow> int \<Rightarrow> LRUCache \<Rightarrow> LRUCache option" where
  "evict_loop IsPinned blockSize c =
     (if currentBytes c + blockSize > maxBytes c \<and> 0 < length (eviction c)
      then evict_loop IsPinned blockSize (evictOldest IsPinned c)
      else Some c)"

definition push_entry :: "LRUCache \<Rightarrow> Block \<Rightarrow> LRUCache" where
  "push_entry c b =
     (let blockSize = int (length (Data b));
          entry = \<lparr>ce_key = CID b, ce_block = b, ce_size = blockSize, ce_fetchCount = 0\<rparr>;
          elem = fresh c
      in c\<lparr>elems := (elems c)(elem := entry), eviction := elem # eviction c, fresh := fresh c + 1,
           items := (items c)(CID b \<mapsto> elem), currentBytes := currentBytes c + blockSize\<rparr>)"

definition LRUCache_Put :: "(cid \<Rightarrow> bool) \<Rightarrow> LRUCache \<Rightarrow> Block \<Rightarrow> LRUCache option" where
  "LRUCache_Put IsPinned c b =
     (let blockSize = int (length (Data b)) in
      case items c (CID b) of
        Some elem \<Rightarrow>
          (let old = elems c elem;
               c1 = c\<lparr>currentBytes := currentBytes c - ce_size old\<rparr>;
               c2 = set_entry c1 elem (old\<lparr>ce_block := b, ce_size := blockSize\<rparr>)
           in Some (c2\<lparr>currentBytes := currentBytes c2 + blockSize,
                       eviction := MoveToFront elem (eviction c2)\<rparr>))
      | None \<Rightarrow> map_option (\<lambda>c'. push_entry c' b) (evict_loop IsPinned blockSize c))"

definition LRUCache_Stats :: "LRUCache \<Rightarrow> Stats" where
  "LRUCache_Stats c =
     \<lparr>st_Hits = hits c, st_Misses = misses c, st_Entries = int (length (eviction c)),
      st_CurrentBytes = currentBytes c, st_MaxBytes = maxBytes c\<rparr>"

definition LRUCache_Len :: "LRUCache \<Rightarrow> nat" where
  "LRUCache_Len c = length (eviction c)"

definition LRUCache_CIDs :: "cid list \<Rightarrow> LRUCache \<Rightarrow> cid list" where
  "LRUCache_CIDs iter c = map_range iter (items c)"

section \<open>The invariant\<close>

definition entry_ok :: "cacheEntry \<Rightarrow> bool" where
  "entry_ok x \<longleftrightarrow> ce_key x = CID (ce_block x) \<and> ce_size x = int (length (Data (ce_block x)))
     \<and> 0 \<le> ce_fetchCount x"

definition lru_wf :: "LRUCache \<Rightarrow> bool" where
  "lru_wf c \<longleftrightarrow> distinct (eviction c) \<and> (\<forall>e\<in>set (eviction c). e < fresh c)
     \<and> (\<forall>k e. items c k = Some e \<longleftrightarrow> e \<in> set (eviction c) \<and> ce_key (elems c e) = k)
     \<and> currentBytes c = (\<Sum>e\<leftarrow>eviction c. ce_size (elems c e))
     \<and> (\<forall>e\<in>set (eviction c). entry_ok (elems c e))"

abbreviation pinned_elem :: "(cid \<Rightarrow> bool) \<Rightarrow> LRUCache \<Rightarrow> nat \<Rightarrow> bool" where
  "pinned_elem P c e \<equiv> pinChecker c \<and> P (ce_key (elems c e))"

definition pinned_bytes :: "(cid \<Rightarrow> bool) \<Rightarrow> LRUCache \<Rightarrow> int" where
  "pinned_bytes P c = (\<Sum>e\<leftarrow>filter (pinned_elem P c) (eviction c). ce_size (elems c e))"

text \<open>\<open>cooled c c'\<close>: the two caches differ in fetch counts only.\<close>

definition cooled :: "LRUCache \<Rightarrow> LRUCache \<Rightarrow> bool" where
  "cooled c c' \<longleftrightarrow> (\<exists>el. c' = c\<lparr>elems := el\<rparr> \<and>
     (\<forall>e. ce_key (el e) = ce_key (elems c e) \<and> ce_block (el e) = ce_block (elems c e)
        \<and> ce_size (el e) = ce_size (elems c e)
        \<and> (0 \<le> ce_fetchCount (elems c e) \<longrightarrow> 0 \<le> ce_fetchCount (el e))))"

lemma lru_wfD:
  assumes "lru_wf c"
  shows "distinct (eviction c)" "e \<in> set (eviction c) \<Longrightarrow> e < fresh c"
    "items c k = Some e \<longleftrightarrow> e \<in> set (eviction c) \<and> ce_key (elems c e) = k"
    "currentBytes c = (\<Sum>e\<leftarrow>eviction c. ce_size (elems c e))"
    "e \<in> set (eviction c) \<Longrightarrow> entry_ok (elems c e)"
  using assms by (simp_all add: lru_wf_def)

lemma cooled_refl [simp]: "cooled c c"
  unfolding cooled_def by (rule exI [of _ "elems c"]) simp

lemma cooled_trans: "cooled c c1 \<Longrightarrow> cooled c1 c2 \<Longrightarrow> cooled c c2"
  by (fastforce simp: cooled_def)

lemma cooled_same:
  assumes "cooled c c'"
  shows "eviction c' = eviction c" "items c' = items c" "fresh c' = fresh c"
    "currentBytes c' = currentBytes c" "maxBytes c' = maxBytes c" "pinChecker c' = pinChecker c"
    "ce_key (elems c' e) = ce_key (elems c e)" "ce_size (elems c' e) = ce_size (elems c e)"
    "ce_block (elems c' e) = ce_block (elems c e)"
  using assms by (auto simp: cooled_def)

lemma cooled_wf: "cooled c c' \<Longrightarrow> lru_wf c \<Longrightarrow> lru_wf c'"
  by (auto simp: cooled_def lru_wf_def entry_ok_def)

lemma cooled_set_count:
  "0 \<le> n \<or> ce_fetchCount (elems c e) < 0 \<Longrightarrow>
   cooled c (set_entry c e ((elems c e)\<lparr>ce_fetchCount := n\<rparr>))"
  unfolding cooled_def set_entry_def by (rule exI, rule conjI, rule refl) auto

lemma sdiv_2_nonneg: "0 \<le> (n::int) \<Longrightarrow> 0 \<le> n sdiv 2"
  by (simp add: sdiv_eq_div)

lemma cooled_halve:
  "cooled c (set_entry c e ((elems c e)\<lparr>ce_fetchCount := ce_fetchCount (elems c e) sdiv 2\<rparr>))"
  by (rule cooled_set_count) (use sdiv_2_nonneg in force)

lemma lru_wf_other_fields [simp]:
  "lru_wf (c\<lparr>hits := h\<rparr>) = lru_wf c" "lru_wf (c\<lparr>misses := h\<rparr>) = lru_wf c"
  "lru_wf (c\<lparr>metricsHook := mh\<rparr>) = lru_wf c" "lru_wf (c\<lparr>pinChecker := pc\<rparr>) = lru_wf c"
  "lru_wf (c\<lparr>maxBytes := m\<rparr>) = lru_wf c"
  by (simp_all add: lru_wf_def)

lemma keys_unique:
  "lru_wf c \<Longrightarrow> e \<in> set (eviction c) \<Longrightarrow> f \<in> set (eviction c) \<Longrightarrow>
   ce_key (elems c e) = ce_key (elems c f) \<Longrightarrow> e = f"
  by (metis lru_wfD(3) option.inject)

lemma wf_NewLRUCache [wf_intros]: "lru_wf (NewLRUCache n)"
  by (simp add: lru_wf_def NewLRUCache_def)

lemma wf_SetPinChecker [wf_intros]: "lru_wf c \<Longrightarrow> lru_wf (SetPinChecker c pc)"
  by (simp add: SetPinChecker_def)

lemma wf_SetMetricsHook [wf_intros]: "lru_wf c \<Longrightarrow> lru_wf (SetMetricsHook c h)"
  by (simp add: SetMetricsHook_def)

lemma wf_removeElement:
  assumes wf: "lru_wf c" and e: "e \<in> set (eviction c)"
  shows "lru_wf (removeElement c e)"
proof -
  have "currentBytes c = ce_size (elems c e) + (\<Sum>e\<leftarrow>remove1 e (eviction c). ce_size (elems c e))"
    using sum_list_map_remove1 [OF e] lru_wfD(4) [OF wf] by simp
  with wf e show ?thesis
    by (auto simp: lru_wf_def removeElement_def Let_def dest: keys_unique [OF wf])
qed

lemma wf_LRUCache_Evict [wf_intros]: "lru_wf c \<Longrightarrow> lru_wf (LRUCache_Evict c k)"
  by (auto simp: LRUCache_Evict_def split: option.split intro: wf_removeElement dest: lru_wfD(3))

lemma sum_list_front: "e \<in> set xs \<Longrightarrow> (\<Sum>x\<leftarrow>MoveToFront e xs. f x) = (\<Sum>x\<leftarrow>xs. (f x :: int))"
  using sum_list_map_remove1 [of e xs f] by (simp add: MoveToFront_def)

lemma set_MoveToFront [simp]: "e \<in> set xs \<Longrightarrow> set (MoveToFront e xs) = set xs"
  by (induction xs) (auto simp: MoveToFront_def)

lemma distinct_MoveToFront [simp]: "distinct xs \<Longrightarrow> distinct (MoveToFront e xs)"
  by (simp add: MoveToFront_def)

lemma wf_MoveToFront:
  "lru_wf c \<Longrightarrow> e \<in> set (eviction c) \<Longrightarrow> lru_wf (c\<lparr>eviction := MoveToFront e (eviction c)\<rparr>)"
  by (simp add: lru_wf_def sum_list_front)

lemma LRUCache_Get_hit:
  "items c k = Some e \<Longrightarrow>
   LRUCache_Get c k =
     (let c1 = set_entry c e ((elems c e)\<lparr>ce_fetchCount := ce_fetchCount (elems c e) + 1\<rparr>)
      in (Some (ce_block (elems c e)),
          c1\<lparr>eviction := MoveToFront e (eviction c1), hits := hits c1 + 1,
             metricsHook := (metricsHook c1)\<lparr>OnHit := map_option (\<lambda>n. n + 1) (OnHit (metricsHook c1))\<rparr>\<rparr>))"
  by (simp add: LRUCache_Get_def Let_def)

lemma wf_LRUCache_Get [wf_intros]:
  assumes wf: "lru_wf c"
  shows "lru_wf (snd (LRUCache_Get c k))"
proof (cases "items c k")
  case (Some e)
  let ?c = "set_entry c e ((elems c e)\<lparr>ce_fetchCount := ce_fetchCount (elems c e) + 1\<rparr>)"
  have e: "e \<in> set (eviction c)" using wf Some by (simp add: lru_wfD(3))
  have "cooled c ?c" by (rule cooled_set_count) auto
  then have "lru_wf ?c" and "e \<in> set (eviction ?c)"
    using wf e by (auto intro: cooled_wf simp: cooled_same)
  then have "lru_wf (?c\<lparr>eviction := MoveToFront e (eviction ?c)\<rparr>)" by (rule wf_MoveToFront)
  then show ?thesis by (simp add: LRUCache_Get_hit [OF Some] Let_def)
qed (use wf in \<open>simp add: LRUCache_Get_def\<close>)

section \<open>Eviction\<close>

text \<open>What one eviction does: it cools some counts and removes one entry that is not pinned.\<close>

lemma evict_scan_spec:
  "\<exists>c1. cooled c c1 \<and> (case evict_scan P m cs k c of (b, c') \<Rightarrow>
     if b then \<exists>v\<in>set cs. \<not> pinned_elem P c v \<and> c' = removeElement c1 v else c' = c1)"
proof (induction P m cs k c rule: evict_scan.induct)
  case (1 P m k c)
  then show ?case by (auto intro: exI [of _ c])
next
  case (2 P m e cs k c)
  let ?h = "set_entry c e ((elems c e)\<lparr>ce_fetchCount := ce_fetchCount (elems c e) sdiv 2\<rparr>)"
  consider "\<not> k < m" | "k < m" "pinned_elem P c e"
    | "k < m" "\<not> pinned_elem P c e" "ce_fetchCount (elems c e) < popularityThreshold"
    | "k < m" "\<not> pinned_elem P c e" "\<not> ce_fetchCount (elems c e) < popularityThreshold"
    by blast
  then show ?case
  proof cases
    case 1
    then show ?thesis by (auto intro: exI [of _ c])
  next
    case 2
    with "2.IH"(1) show ?thesis by (auto split: prod.splits if_splits)
  next
    case 3
    then show ?thesis by (intro exI [of _ c]) (auto simp: Let_def)
  next
    case 4
    obtain b c' where s: "evict_scan P m cs (k + 1) ?h = (b, c')" by fastforce
    with "2.IH"(2) [OF _ refl] 4 obtain c1 where c1: "cooled ?h c1"
        "if b then \<exists>v\<in>set cs. \<not> pinned_elem P ?h v \<and> c' = removeElement c1 v else c' = c1"
      by auto
    have "cooled c c1" using cooled_halve c1(1) by (rule cooled_trans)
    moreover have "evict_scan P m (e # cs) k c = (b, c')"
      using s 4 by (auto simp: Let_def)
    ultimately show ?thesis
      using c1(2) by (intro exI [of _ c1]) (auto simp: cooled_same [OF cooled_halve] split: if_splits)
  qed
qed

lemma evict_fallback_cases:
  "(\<forall>e\<in>set cs. pinned_elem P c e) \<and> evict_fallback P cs c = c
   \<or> (\<exists>v\<in>set cs. \<not> pinned_elem P c v \<and> evict_fallback P cs c = removeElement c v)"
  by (induction P cs c rule: evict_fallback.induct) auto

lemma evictOldest_cases:
  obtains (removed) c1 v where "cooled c c1" "v \<in> set (eviction c)" "\<not> pinned_elem P c v"
      "evictOldest P c = removeElement c1 v"
    | (stuck) "\<forall>e\<in>set (eviction c). pinned_elem P c e" "cooled c (evictOldest P c)"
proof -
  let ?m = "if length (eviction c) div 2 < 1 then 1 else length (eviction c) div 2"
  obtain b c' where s: "evict_scan P ?m (rev (eviction c)) 0 c = (b, c')" by fastforce
  from evict_scan_spec [where c = c and P = P and m = ?m and cs = "rev (eviction c)" and k = 0] s obtain c1 where c1: "cooled c c1"
      "b \<longrightarrow> (\<exists>v\<in>set (rev (eviction c)). \<not> pinned_elem P c v \<and> c' = removeElement c1 v)" "\<not> b \<longrightarrow> c' = c1"
    by (cases b) auto
  have eq: "evictOldest P c = (if b then c' else evict_fallback P (rev (eviction c')) c')"
    using s by (simp add: evictOldest_def Let_def split: bool.split)
  show thesis
  proof (cases b)
    case True
    then show thesis using c1 eq removed by auto
  next
    case False
    with c1(3) eq have e: "evictOldest P c = evict_fallback P (rev (eviction c)) c1"
      by (simp add: cooled_same [OF c1(1)])
    from evict_fallback_cases [where cs = "rev (eviction c)" and P = P and c = c1] show thesis
      using removed [OF c1(1)] stuck c1(1) by (auto simp: e cooled_same [OF c1(1)])
  qed
qed

lemma removeElement_same [simp]:
  "maxBytes (removeElement c e) = maxBytes c" "pinChecker (removeElement c e) = pinChecker c"
  "elems (removeElement c e) = elems c" "fresh (removeElement c e) = fresh c"
  "eviction (removeElement c e) = remove1 e (eviction c)"
  "currentBytes (removeElement c e) = currentBytes c - ce_size (elems c e)"
  by (simp_all add: removeElement_def Let_def)

lemma evictOldest_same:
  "maxBytes (evictOldest P c) = maxBytes c" "pinChecker (evictOldest P c) = pinChecker c"
  "fresh (evictOldest P c) = fresh c"
  "ce_key (elems (evictOldest P c) e) = ce_key (elems c e)"
  "ce_size (elems (evictOldest P c) e) = ce_size (elems c e)"
  "ce_block (elems (evictOldest P c) e) = ce_block (elems c e)"
  by (rule evictOldest_cases [of c P]; simp add: cooled_same)+

lemma wf_evictOldest: "lru_wf c \<Longrightarrow> lru_wf (evictOldest P c)"
  by (rule evictOldest_cases [of c P]) (auto intro!: wf_removeElement intro: cooled_wf simp: cooled_same)

lemma evictOldest_removes_one:
  assumes "lru_wf c" and "\<exists>e\<in>set (eviction c). \<not> pinned_elem P c e"
  obtains v where "v \<in> set (eviction c)" "\<not> pinned_elem P c v"
    "eviction (evictOldest P c) = remove1 v (eviction c)"
proof (rule evictOldest_cases [of c P])
  fix c1 v
  assume "cooled c c1" "v \<in> set (eviction c)" "\<not> pinned_elem P c v"
    "evictOldest P c = removeElement c1 v"
  then show thesis using that by (simp add: cooled_same)
qed (use assms in blast)

lemma filter_remove1_not: "\<not> Q v \<Longrightarrow> filter Q (remove1 v xs) = filter Q xs"
  by (induction xs) auto

lemma evictOldest_pinned:
  "filter (pinned_elem P c) (eviction (evictOldest P c)) = filter (pinned_elem P c) (eviction c)"
  by (rule evictOldest_cases [of c P]) (simp_all add: cooled_same filter_remove1_not)

lemma pinned_bytes_evictOldest: "pinned_bytes P (evictOldest P c) = pinned_bytes P c"
  by (simp add: pinned_bytes_def evictOldest_same evictOldest_pinned)

lemma evictOldest_subset: "set (eviction (evictOldest P c)) \<subseteq> set (eviction c)"
  by (rule evictOldest_cases [of c P]) (simp_all add: cooled_same set_remove1_subset)

lemma pinned_bytes_le: "lru_wf c \<Longrightarrow> pinned_bytes P c \<le> currentBytes c"
proof -
  have "(\<And>e. e \<in> set xs \<Longrightarrow> 0 \<le> f e) \<Longrightarrow> sum_list (map f (filter Q xs)) \<le> sum_list (map f xs)"
    for f :: "nat \<Rightarrow> int" and Q xs
    by (induction xs) (auto simp: add_increasing)
  then show "lru_wf c \<Longrightarrow> ?thesis"
    by (simp add: pinned_bytes_def lru_wf_def entry_ok_def)
qed

section \<open>Making room\<close>

text \<open>
  The eviction loop returns exactly when the pinned entries leave room for the block, or none
  is pinned: the loop's only progress is the removal of an entry that is not pinned.
\<close>

definition room_possible :: "(cid \<Rightarrow> bool) \<Rightarrow> int \<Rightarrow> LRUCache \<Rightarrow> bool" where
  "room_possible P n c \<longleftrightarrow>
     (\<forall>e\<in>set (eviction c). \<not> pinned_elem P c e) \<or> pinned_bytes P c + n \<le> maxBytes c"

lemma none_pinned_iff: "(\<forall>e\<in>set xs. \<not> Q e) \<longleftrightarrow> filter Q xs = []"
  by (simp add: filter_empty_conv)

lemma room_possible_evictOldest: "room_possible P n (evictOldest P c) = room_possible P n c"
  unfolding room_possible_def none_pinned_iff
  by (simp only: evictOldest_pinned pinned_bytes_evictOldest evictOldest_same)

lemma all_pinned_bytes:
  "lru_wf c \<Longrightarrow> \<forall>e\<in>set (eviction c). pinned_elem P c e \<Longrightarrow> pinned_bytes P c = currentBytes c"
  by (simp add: pinned_bytes_def lru_wfD(4) filter_True)

lemma evict_loop_returns:
  assumes "lru_wf c" and "room_possible P n c"
  shows "\<exists>c'. evict_loop P n c = Some c'"
  using assms
proof (induction "length (eviction c)" arbitrary: c rule: less_induct)
  case less
  show ?case
  proof (cases "currentBytes c + n > maxBytes c \<and> 0 < length (eviction c)")
    case False
    then show ?thesis by (subst evict_loop.simps) auto
  next
    case True
    have "\<exists>e\<in>set (eviction c). \<not> pinned_elem P c e"
    proof (rule ccontr)
      assume "\<not> ?thesis"
      then have all: "\<forall>e\<in>set (eviction c). pinned_elem P c e" by blast
      with True less.prems(2) have "pinned_bytes P c + n \<le> maxBytes c"
        by (force simp: room_possible_def)
      with all_pinned_bytes [OF less.prems(1) all] True show False by simp
    qed
    then obtain v where v: "v \<in> set (eviction c)"
        "eviction (evictOldest P c) = remove1 v (eviction c)"
      using less.prems(1) by (blast elim: evictOldest_removes_one)
    then have "length (eviction (evictOldest P c)) < length (eviction c)"
      using True by (simp add: length_remove1)
    then have "\<exists>c'. evict_loop P n (evictOldest P c) = Some c'"
      using less.prems by (intro less.hyps) (simp_all add: wf_evictOldest room_possible_evictOldest)
    with True show ?thesis by (subst evict_loop.simps) auto
  qed
qed

lemma evict_loop_invariant:
  assumes ret: "evict_loop P n c = Some c'"
    and init: "Q c" and step: "\<And>c. Q c \<Longrightarrow> currentBytes c + n > maxBytes c \<Longrightarrow> Q (evictOldest P c)"
  shows "Q c' \<and> (currentBytes c' + n \<le> maxBytes c' \<or> eviction c' = [])"
proof -
  have "Q c \<longrightarrow> Q c' \<and> (currentBytes c' + n \<le> maxBytes c' \<or> eviction c' = [])"
  proof (rule evict_loop.raw_induct [where P = "\<lambda>P' n' c c'. P' = P \<and> n' = n \<longrightarrow>
        Q c \<longrightarrow> Q c' \<and> (currentBytes c' + n \<le> maxBytes c' \<or> eviction c' = [])",
        OF _ ret, THEN mp, OF _ conjI [OF refl refl]])
    fix f P' n' c c'
    assume IH: "\<And>P' n' c c'. f P' n' c = Some c' \<Longrightarrow> P' = P \<and> n' = n \<longrightarrow>
        Q c \<longrightarrow> Q c' \<and> (currentBytes c' + n \<le> maxBytes c' \<or> eviction c' = [])"
      and eq: "(if currentBytes c + n' > maxBytes c \<and> 0 < length (eviction c)
        then f P' n' (evictOldest P' c) else Some c) = Some c'"
    show "P' = P \<and> n' = n \<longrightarrow> Q c \<longrightarrow> Q c' \<and> (currentBytes c' + n \<le> maxBytes c' \<or> eviction c' = [])"
      using eq IH [of P n "evictOldest P c" c'] step [of c] by (auto split: if_splits)
  qed
  with init show ?thesis by blast
qed

lemma evict_loop_diverges:
  assumes wf: "lru_wf c" and no: "\<not> room_possible P n c"
  shows "evict_loop P n c = None"
proof (rule ccontr)
  assume "evict_loop P n c \<noteq> None"
  then obtain c' where "evict_loop P n c = Some c'" by blast
  from evict_loop_invariant [OF this, of "\<lambda>c. lru_wf c \<and> \<not> room_possible P n c"]
  have c': "lru_wf c'" "\<not> room_possible P n c'" "currentBytes c' + n \<le> maxBytes c' \<or> eviction c' = []"
    using wf no by (auto simp: wf_evictOldest room_possible_evictOldest)
  with pinned_bytes_le [OF c'(1), of P] show False by (auto simp: room_possible_def)
qed

lemma evict_loop_returns_iff:
  "lru_wf c \<Longrightarrow> (\<exists>c'. evict_loop P n c = Some c') \<longleftrightarrow> room_possible P n c"
  by (metis evict_loop_diverges evict_loop_returns option.distinct(1))

lemma evict_loop_result:
  assumes ret: "evict_loop P n c = Some c'" and wf: "lru_wf c"
  shows "lru_wf c'" "fresh c' = fresh c" "maxBytes c' = maxBytes c" "pinChecker c' = pinChecker c"
    "set (eviction c') \<subseteq> set (eviction c)"
    "filter (pinned_elem P c) (eviction c') = filter (pinned_elem P c) (eviction c)"
    "ce_key (elems c' e) = ce_key (elems c e)" "ce_block (elems c' e) = ce_block (elems c e)"
    "currentBytes c' + n \<le> maxBytes c' \<or> eviction c' = []"
proof -
  let ?Q = "\<lambda>c'. lru_wf c' \<and> fresh c' = fresh c \<and> maxBytes c' = maxBytes c \<and> pinChecker c' = pinChecker c
     \<and> set (eviction c') \<subseteq> set (eviction c)
     \<and> filter (pinned_elem P c) (eviction c') = filter (pinned_elem P c) (eviction c)
     \<and> (\<forall>e. ce_key (elems c' e) = ce_key (elems c e) \<and> ce_block (elems c' e) = ce_block (elems c e))"
  have step: "?Q d \<Longrightarrow> ?Q (evictOldest P d)" for d
    using evictOldest_pinned [of d P]
    by (simp add: wf_evictOldest evictOldest_same order_trans [OF evictOldest_subset])
  have *: "?Q c' \<and> (currentBytes c' + n \<le> maxBytes c' \<or> eviction c' = [])"
    by (rule evict_loop_invariant [OF ret]) (use wf step in auto)
  then show "lru_wf c'" "fresh c' = fresh c" "maxBytes c' = maxBytes c" "pinChecker c' = pinChecker c"
    "set (eviction c') \<subseteq> set (eviction c)"
    "ce_key (elems c' e) = ce_key (elems c e)" "ce_block (elems c' e) = ce_block (elems c e)"
    "filter (pinned_elem P c) (eviction c') = filter (pinned_elem P c) (eviction c)"
    "currentBytes c' + n \<le> maxBytes c' \<or> eviction c' = []"
    by auto
qed

section \<open>Lookups and insertion\<close>

text \<open>The contents of the cache as a map from keys to blocks.\<close>

definition lru_lookup :: "LRUCache \<Rightarrow> cid \<Rightarrow> Block option" where
  "lru_lookup c k = map_option (\<lambda>e. ce_block (elems c e)) (items c k)"

lemma lru_lookup_Some:
  "lru_wf c \<Longrightarrow> lru_lookup c k = Some b \<longleftrightarrow>
   (\<exists>e\<in>set (eviction c). ce_key (elems c e) = k \<and> ce_block (elems c e) = b)"
  by (auto simp: lru_lookup_def lru_wfD(3))

lemma lru_lookup_CID: "lru_wf c \<Longrightarrow> lru_lookup c k = Some b \<Longrightarrow> CID b = k"
  by (auto simp: lru_lookup_Some dest: lru_wfD(5) simp: entry_ok_def)

lemma LRUCache_Get_result [simp]: "fst (LRUCache_Get c k) = lru_lookup c k"
  by (simp add: LRUCache_Get_def lru_lookup_def Let_def split: option.split)

lemma lru_lookup_Get [simp]: "lru_lookup (snd (LRUCache_Get c k)) k' = lru_lookup c k'"
  by (cases "items c k'")
     (auto simp: LRUCache_Get_def lru_lookup_def set_entry_def Let_def split: option.split)

lemma wf_push_entry:
  assumes wf: "lru_wf c" and new: "items c (CID b) = None"
  shows "lru_wf (push_entry c b)"
proof -
  have "\<forall>e\<in>set (eviction c). e \<noteq> fresh c \<and> ce_key (elems c e) \<noteq> CID b"
    using new lru_wfD(2) [OF wf] lru_wfD(3) [OF wf, of "CID b"] by (metis less_irrefl option.distinct(1))
  with wf new show ?thesis
    by (auto simp: lru_wf_def push_entry_def Let_def entry_ok_def intro!: arg_cong [of _ _ sum_list])
qed

lemma evict_loop_absent:
  "evict_loop P n c = Some c' \<Longrightarrow> lru_wf c \<Longrightarrow> items c k = None \<Longrightarrow> items c' k = None"
  using evict_loop_result(1,5,7) [of P n c c'] lru_wfD(3) [of c k] lru_wfD(3) [of c' k]
  by (metis not_Some_eq subsetD)

lemma LRUCache_Put_new:
  "items c (CID b) = None \<Longrightarrow>
   LRUCache_Put P c b = map_option (\<lambda>c'. push_entry c' b) (evict_loop P (int (length (Data b))) c)"
  by (simp add: LRUCache_Put_def Let_def)

lemma LRUCache_Put_old:
  "items c (CID b) = Some e \<Longrightarrow>
   LRUCache_Put P c b = Some (c\<lparr>currentBytes := currentBytes c - ce_size (elems c e) + int (length (Data b)),
      elems := (elems c)(e := (elems c e)\<lparr>ce_block := b, ce_size := int (length (Data b))\<rparr>),
      eviction := MoveToFront e (eviction c)\<rparr>)"
  by (simp add: LRUCache_Put_def Let_def set_entry_def)

lemma sum_list_upd:
  "distinct xs \<Longrightarrow> e \<in> set xs \<Longrightarrow>
   (\<Sum>x\<leftarrow>xs. if x = e then n else f x) = (\<Sum>x\<leftarrow>xs. f x) - f e + (n::int)"
proof (induction xs)
  case (Cons x xs)
  show ?case
  proof (cases "x = e")
    case True
    then have "(\<Sum>x\<leftarrow>xs. if x = e then n else f x) = (\<Sum>x\<leftarrow>xs. f x)"
      using Cons.prems by (intro arg_cong [of _ _ sum_list] map_cong) auto
    with True show ?thesis by simp
  qed (use Cons in auto)
qed simp

lemma wf_replace:
  assumes wf: "lru_wf c" and e: "e \<in> set (eviction c)" "ce_key (elems c e) = CID b"
  shows "lru_wf (c\<lparr>currentBytes := currentBytes c - ce_size (elems c e) + int (length (Data b)),
      elems := (elems c)(e := (elems c e)\<lparr>ce_block := b, ce_size := int (length (Data b))\<rparr>)\<rparr>)"
proof -
  have "(\<Sum>x\<leftarrow>eviction c. ce_size (((elems c)(e := (elems c e)\<lparr>ce_block := b, ce_size := int (length (Data b))\<rparr>)) x))
      = (\<Sum>x\<leftarrow>eviction c. if x = e then int (length (Data b)) else ce_size (elems c x))"
    by (intro arg_cong [of _ _ sum_list] map_cong) auto
  also have "\<dots> = currentBytes c - ce_size (elems c e) + int (length (Data b))"
    using wf e(1) by (simp add: sum_list_upd lru_wfD(1,4))
  finally show ?thesis
    using wf e by (auto simp: lru_wf_def entry_ok_def)
qed

lemma wf_LRUCache_Put [wf_intros]:
  assumes wf: "lru_wf c" and put: "LRUCache_Put P c b = Some c'"
  shows "lru_wf c'"
proof (cases "items c (CID b)")
  case None
  with put obtain c1 where "evict_loop P (int (length (Data b))) c = Some c1" and "c' = push_entry c1 b"
    by (auto simp: LRUCache_Put_new)
  then show ?thesis
    using wf None by (auto intro: wf_push_entry evict_loop_absent evict_loop_result(1))
next
  case (Some e)
  then have e: "e \<in> set (eviction c)" "ce_key (elems c e) = CID b"
    using wf by (simp_all add: lru_wfD(3))
  show ?thesis
    using wf_MoveToFront [OF wf_replace [OF wf e], of e] e(1) put by (simp add: LRUCache_Put_old [OF Some])
qed

lemma lru_lookup_push [simp]:
  "lru_wf c \<Longrightarrow> lru_lookup (push_entry c b) k = (if k = CID b then Some b else lru_lookup c k)"
  by (auto simp: lru_lookup_def push_entry_def Let_def lru_wfD(3) dest: lru_wfD(2) intro!: map_option_cong)

lemma lru_lookup_evict_loop:
  assumes ret: "evict_loop P n c = Some c'" and wf: "lru_wf c"
  shows "lru_lookup c' k = None \<or> lru_lookup c' k = lru_lookup c k"
    and "pinChecker c \<and> P k \<Longrightarrow> lru_lookup c' k = lru_lookup c k"
proof -
  note r = evict_loop_result [OF ret wf]
  have sub: "lru_lookup c' k = Some x \<Longrightarrow> lru_lookup c k = Some x" for x
    using r(5) by (auto simp: lru_lookup_Some [OF wf] lru_lookup_Some [OF r(1)] r(7,8))
  then show "lru_lookup c' k = None \<or> lru_lookup c' k = lru_lookup c k"
    by (metis option.exhaust)
  assume pin: "pinChecker c \<and> P k"
  have "e \<in> set (eviction c')" if "e \<in> set (eviction c)" "ce_key (elems c e) = k" for e
  proof -
    have "e \<in> set (filter (pinned_elem P c) (eviction c))" using that pin by simp
    then show ?thesis by (simp only: r(6) [symmetric]) simp
  qed
  then have "lru_lookup c k = Some x \<Longrightarrow> lru_lookup c' k = Some x" for x
    by (auto simp: lru_lookup_Some [OF wf] lru_lookup_Some [OF r(1)] r(7,8))
  with sub show "lru_lookup c' k = lru_lookup c k" by (metis option.exhaust)
qed

lemma lru_lookup_Put:
  assumes wf: "lru_wf c" and put: "LRUCache_Put P c b = Some c'"
  shows "lru_lookup c' (CID b) = Some b"
    and "k \<noteq> CID b \<Longrightarrow> lru_lookup c' k = None \<or> lru_lookup c' k = lru_lookup c k"
    and "k \<noteq> CID b \<Longrightarrow> pinChecker c \<and> P k \<Longrightarrow> lru_lookup c' k = lru_lookup c k"
proof -
  have "lru_lookup c' (CID b) = Some b \<and>
    (k \<noteq> CID b \<longrightarrow> (lru_lookup c' k = None \<or> lru_lookup c' k = lru_lookup c k)
      \<and> (pinChecker c \<and> P k \<longrightarrow> lru_lookup c' k = lru_lookup c k))"
  proof (cases "items c (CID b)")
    case None
    with put obtain c1 where c1: "evict_loop P (int (length (Data b))) c = Some c1" "c' = push_entry c1 b"
      by (auto simp: LRUCache_Put_new)
    then show ?thesis
      using lru_lookup_evict_loop [OF c1(1) wf] evict_loop_result(1) [OF c1(1) wf] by auto
  next
    case (Some e)
    have "items c k = Some e \<Longrightarrow> k = CID b" using Some wf by (auto simp: lru_wfD(3))
    with put show ?thesis
      by (auto simp: LRUCache_Put_old [OF Some] lru_lookup_def Some intro!: map_option_cong)
  qed
  then show "lru_lookup c' (CID b) = Some b"
    and "k \<noteq> CID b \<Longrightarrow> lru_lookup c' k = None \<or> lru_lookup c' k = lru_lookup c k"
    and "k \<noteq> CID b \<Longrightarrow> pinChecker c \<and> P k \<Longrightarrow> lru_lookup c' k = lru_lookup c k"
    by blast+
qed

lemma LRUCache_Put_config:
  assumes wf: "lru_wf c" and put: "LRUCache_Put P c b = Some c'"
  shows "pinChecker c' = pinChecker c" "maxBytes c' = maxBytes c"
proof -
  have "pinChecker c' = pinChecker c \<and> maxBytes c' = maxBytes c"
  proof (cases "items c (CID b)")
    case None
    with put obtain c1 where "evict_loop P (int (length (Data b))) c = Some c1" "c' = push_entry c1 b"
      by (auto simp: LRUCache_Put_new)
    then show ?thesis using evict_loop_result [OF _ wf] by (simp add: push_entry_def Let_def)
  next
    case (Some e)
    with put show ?thesis by (auto simp: LRUCache_Put_old [OF Some])
  qed
  then show "pinChecker c' = pinChecker c" "maxBytes c' = maxBytes c" by simp_all
qed

lemma LRUCache_Put_size:
  assumes wf: "lru_wf c" and new: "items c (CID b) = None" and put: "LRUCache_Put P c b = Some c'"
  shows "currentBytes c' \<le> maxBytes c \<or> LRUCache_Len c' = 1"
proof -
  from new put obtain c1 where c1: "evict_loop P (int (length (Data b))) c = Some c1" "c' = push_entry c1 b"
    by (auto simp: LRUCache_Put_new)
  then show ?thesis
    using evict_loop_result(3,9) [OF c1(1) wf] by (auto simp: push_entry_def Let_def LRUCache_Len_def)
qed

end
