(* ===== verification/LRU_Spec.thy ===== *)
theory LRU_Spec
  imports LRU_Cache
begin

text \<open>
  The abstract specification of the block cache and the refinement: a cache is the list of its
  entries, most recently used first, with neither index, element references nor byte counter.
  An eviction that cannot remove anything is \<open>None\<close>; the loop that makes room is then a total
  function. The operations of theory \<open>LRU_Cache\<close> refine it through \<open>lru_abs\<close>.
\<close>

section \<open>The abstract cache\<close>

type_synonym abs_cache = "cacheEntry list"

definition lru_abs :: "LRUCache \<Rightarrow> abs_cache" where
  "lru_abs c = map (elems c) (eviction c)"

definition abs_bytes :: "abs_cache \<Rightarrow> int" where
  "abs_bytes es = (\<Sum>x\<leftarrow>es. ce_size x)"

text \<open>Bring the entry with key \<open>k\<close> to the front, changed by \<open>f\<close>.\<close>

definition abs_touch :: "cid \<Rightarrow> (cacheEntry \<Rightarrow> cacheEntry) \<Rightarrow> abs_cache \<Rightarrow> abs_cache" where
  "abs_touch k f es =
     map f (filter (\<lambda>x. ce_key x = k) es) @ filter (\<lambda>x. ce_key x \<noteq> k) es"

definition abs_get :: "cid \<Rightarrow> abs_cache \<Rightarrow> abs_cache" where
  "abs_get k = abs_touch k (\<lambda>x. x\<lparr>ce_fetchCount := ce_fetchCount x + 1\<rparr>)"

definition abs_evict :: "cid \<Rightarrow> abs_cache \<Rightarrow> abs_cache" where
  "abs_evict k es = filter (\<lambda>x. ce_key x \<noteq> k) es"

text \<open>
  The second-chance scan over at most \<open>m\<close> entries from the least recently used end: the first
  entry that is neither pinned nor popular goes, the popular ones it passes lose half their count.
\<close>

fun abs_scan :: "(cacheEntry \<Rightarrow> bool) \<Rightarrow> nat \<Rightarrow> abs_cache \<Rightarrow> bool \<times> abs_cache" where
  "abs_scan pin m [] = (False, [])"
| "abs_scan pin 0 (x # xs) = (False, x # xs)"
| "abs_scan pin (Suc m) (x # xs) =
     (if pin x then map_prod id ((#) x) (abs_scan pin m xs)
      else if ce_fetchCount x < 3 then (True, xs)
      else map_prod id ((#) (x\<lparr>ce_fetchCount := ce_fetchCount x sdiv 2\<rparr>)) (abs_scan pin m xs))"

fun abs_drop_first :: "(cacheEntry \<Rightarrow> bool) \<Rightarrow> abs_cache \<Rightarrow> abs_cache option" where
  "abs_drop_first pin [] = None"
| "abs_drop_first pin (x # xs) = (if pin x then map_option ((#) x) (abs_drop_first pin xs) else Some xs)"

definition abs_evict_one :: "(cacheEntry \<Rightarrow> bool) \<Rightarrow> abs_cache \<Rightarrow> abs_cache option" where
  "abs_evict_one pin es =
     (case abs_scan pin (max 1 (length es div 2)) (rev es) of
        (True, xs) \<Rightarrow> Some (rev xs)
      | (False, xs) \<Rightarrow> map_option rev (abs_drop_first pin xs))"

lemma length_abs_scan:
  "abs_scan pin m xs = (b, ys) \<Longrightarrow> length ys = (if b then length xs - 1 else length xs) \<and> (b \<longrightarrow> xs \<noteq> [])"
  by (induction pin m xs arbitrary: b ys rule: abs_scan.induct)
     (auto split: if_splits simp: map_prod_def neq_Nil_conv split: prod.splits)

lemma length_abs_drop_first: "abs_drop_first pin xs = Some ys \<Longrightarrow> length xs = Suc (length ys)"
  by (induction pin xs arbitrary: ys rule: abs_drop_first.induct) (auto split: if_splits)

lemma length_abs_evict_one:
  assumes "abs_evict_one pin es = Some es'"
  shows "length es = Suc (length es')"
proof -
  obtain b xs where s: "abs_scan pin (max 1 (length es div 2)) (rev es) = (b, xs)" by fastforce
  show ?thesis
    using assms length_abs_scan [OF s] unfolding abs_evict_one_def s
    by (cases b) (auto dest: length_abs_drop_first)
qed

function abs_make_room :: "(cacheEntry \<Rightarrow> bool) \<Rightarrow> int \<Rightarrow> int \<Rightarrow> abs_cache \<Rightarrow> abs_cache option" where
  "abs_make_room pin maxB n es =
     (if abs_bytes es + n > maxB \<and> es \<noteq> [] then
        (case abs_evict_one pin es of None \<Rightarrow> None | Some es' \<Rightarrow> abs_make_room pin maxB n es')
      else Some es)"
  by pat_completeness auto
termination
  by (relation "measure (\<lambda>(pin, m, n, es). length es)") (auto dest: length_abs_evict_one)

declare abs_make_room.simps [simp del]

definition abs_put :: "(cacheEntry \<Rightarrow> bool) \<Rightarrow> int \<Rightarrow> Block \<Rightarrow> abs_cache \<Rightarrow> abs_cache option" where
  "abs_put pin maxB b es =
     (let n = int (length (Data b)) in
      if \<exists>x\<in>set es. ce_key x = CID b
      then Some (abs_touch (CID b) (\<lambda>x. x\<lparr>ce_block := b, ce_size := n\<rparr>) es)
      else map_option ((#) \<lparr>ce_key = CID b, ce_block = b, ce_size = n, ce_fetchCount = 0\<rparr>)
             (abs_make_room pin maxB n es))"

section \<open>Refinement\<close>

lemma abs_NewLRUCache: "lru_abs (NewLRUCache n) = []"
  by (simp add: lru_abs_def NewLRUCache_def)

lemma abs_bytes_lru_abs: "lru_wf c \<Longrightarrow> abs_bytes (lru_abs c) = currentBytes c"
  by (simp add: abs_bytes_def lru_abs_def lru_wfD(4) comp_def)

lemma filter_one:
  "distinct xs \<Longrightarrow> e \<in> set xs \<Longrightarrow> (\<And>x. x \<in> set xs \<Longrightarrow> Q x \<longleftrightarrow> x = e) \<Longrightarrow>
   filter Q xs = [e] \<and> filter (\<lambda>x. \<not> Q x) xs = remove1 e xs"
proof -
  assume d: "distinct xs" and e: "e \<in> set xs" and Q: "\<And>x. x \<in> set xs \<Longrightarrow> Q x \<longleftrightarrow> x = e"
  have "filter Q xs = filter (\<lambda>x. x = e) xs" "filter (\<lambda>x. \<not> Q x) xs = filter (\<lambda>x. x \<noteq> e) xs"
    by (auto intro!: filter_cong simp: Q)
  moreover have "filter (\<lambda>x. x = e) xs = [e]"
    using d e by (induction xs) (auto simp: filter_empty_conv)
  ultimately show ?thesis using d by (simp add: distinct_remove1_removeAll removeAll_filter_not_eq eq_commute)
qed

lemma abs_touch_lru_abs:
  assumes wf: "lru_wf c" and e: "e \<in> set (eviction c)" "ce_key (elems c e) = k"
  shows "abs_touch k f (lru_abs c) = f (elems c e) # map (elems c) (remove1 e (eviction c))"
proof -
  have "filter (\<lambda>x. ce_key (elems c x) = k) (eviction c) = [e]
      \<and> filter (\<lambda>x. ce_key (elems c x) \<noteq> k) (eviction c) = remove1 e (eviction c)"
    by (rule filter_one) (use wf e in \<open>auto simp: lru_wfD(1) dest: keys_unique\<close>)
  then show ?thesis by (simp add: abs_touch_def lru_abs_def filter_map comp_def)
qed

lemma map_upd_remove1: "distinct xs \<Longrightarrow> map (f(e := v)) (remove1 e xs) = map f (remove1 e xs)"
  by (auto simp: map_eq_conv)

lemma abs_touch_absent: "\<forall>x\<in>set es. ce_key x \<noteq> k \<Longrightarrow> abs_touch k f es = es"
  by (auto simp: abs_touch_def filter_empty_conv filter_id_conv)

lemma absent_iff: "lru_wf c \<Longrightarrow> items c k = None \<longleftrightarrow> (\<forall>x\<in>set (lru_abs c). ce_key x \<noteq> k)"
  by (auto simp: lru_abs_def) (metis lru_wfD(3) option.distinct(1), metis lru_wfD(3) option.exhaust)

lemma abs_Get:
  assumes wf: "lru_wf c"
  shows "lru_abs (snd (LRUCache_Get c k)) = abs_get k (lru_abs c)"
proof (cases "items c k")
  case None
  with wf have "abs_get k (lru_abs c) = lru_abs c" by (simp add: absent_iff abs_get_def abs_touch_absent)
  with None show ?thesis by (simp add: LRUCache_Get_def lru_abs_def)
next
  case (Some e)
  with wf have e: "e \<in> set (eviction c)" "ce_key (elems c e) = k" by (simp_all add: lru_wfD(3))
  show ?thesis
    using wf by (simp add: LRUCache_Get_hit [OF Some] Let_def abs_get_def abs_touch_lru_abs [OF wf e])
      (simp add: lru_abs_def MoveToFront_def set_entry_def map_upd_remove1 lru_wfD(1))
qed

lemma abs_Evict:
  assumes wf: "lru_wf c"
  shows "lru_abs (LRUCache_Evict c k) = abs_evict k (lru_abs c)"
proof (cases "items c k")
  case None
  with wf have "abs_evict k (lru_abs c) = lru_abs c" by (simp add: absent_iff abs_evict_def filter_id_conv)
  with None show ?thesis by (simp add: LRUCache_Evict_def)
next
  case (Some e)
  with wf have e: "e \<in> set (eviction c)" "ce_key (elems c e) = k" by (simp_all add: lru_wfD(3))
  have "filter (\<lambda>x. ce_key (elems c x) = k) (eviction c) = [e]
      \<and> filter (\<lambda>x. ce_key (elems c x) \<noteq> k) (eviction c) = remove1 e (eviction c)"
    by (rule filter_one) (use wf e in \<open>auto simp: lru_wfD(1) dest: keys_unique\<close>)
  with Some show ?thesis
    by (simp add: LRUCache_Evict_def abs_evict_def lru_abs_def filter_map comp_def)
qed

lemma set_entry_same:
  "eviction (set_entry c e x) = eviction c" "pinChecker (set_entry c e x) = pinChecker c"
  by (simp_all add: set_entry_def)

text \<open>The scan over the element references computes the abstract scan over their entries.\<close>

lemma evict_scan_refines:
  assumes "distinct cs" and "evict_scan P m cs k c = (b, c')"
  shows "\<exists>cs'. abs_scan (\<lambda>x. pinChecker c \<and> P (ce_key x)) (m - k) (map (elems c) cs) = (b, map (elems c') cs')
     \<and> (if b then \<exists>v\<in>set cs. cs' = remove1 v cs \<and> eviction c' = remove1 v (eviction c)
        else cs' = cs \<and> eviction c' = eviction c)
     \<and> (\<forall>e. e \<notin> set cs \<longrightarrow> elems c' e = elems c e) \<and> pinChecker c' = pinChecker c"
  using assms
proof (induction P m cs k c rule: evict_scan.induct)
  case (2 P m e cs k c)
  let ?h = "set_entry c e ((elems c e)\<lparr>ce_fetchCount := ce_fetchCount (elems c e) sdiv 2\<rparr>)"
  let ?pin = "\<lambda>x. pinChecker c \<and> P (ce_key x)"
  have e: "e \<notin> set cs" "distinct cs" using "2.prems" by simp_all
  have up: "map (elems ?h) cs = map (elems c) cs" using e by (auto simp: set_entry_def)
  have other: "elems ?h x = elems c x" if "x \<noteq> e" for x using that by (simp add: set_entry_def)
  consider "\<not> k < m" | "k < m" "pinned_elem P c e"
    | "k < m" "\<not> pinned_elem P c e" "ce_fetchCount (elems c e) < popularityThreshold"
    | "k < m" "\<not> pinned_elem P c e" "\<not> ce_fetchCount (elems c e) < popularityThreshold"
    by blast
  then show ?case
  proof cases
    case 1
    then show ?thesis using "2.prems" by (intro exI [of _ "e # cs"]) auto
  next
    case 2
    then have m: "m - k = Suc (m - (k + 1))" by simp
    from 2 "2.prems" have "evict_scan P m cs (k + 1) c = (b, c')" by simp
    with "2.IH"(1) [OF 2(1) refl 2(2) e(2)] obtain cs' where
      "abs_scan ?pin (m - (k + 1)) (map (elems c) cs) = (b, map (elems c') cs')"
      "if b then \<exists>v\<in>set cs. cs' = remove1 v cs \<and> eviction c' = remove1 v (eviction c)
        else cs' = cs \<and> eviction c' = eviction c"
      "\<forall>x. x \<notin> set cs \<longrightarrow> elems c' x = elems c x" "pinChecker c' = pinChecker c" by blast
    with 2 e show ?thesis
      by (intro exI [of _ "e # cs'"]) (auto simp: m split: if_splits)
  next
    case 3
    then have m: "m - k = Suc (m - (k + 1))" by simp
    from 3 "2.prems" show ?thesis
      by (intro exI [of _ cs]) (auto simp: m popularityThreshold_def Let_def)
  next
    case 4
    then have m: "m - k = Suc (m - (k + 1))" by simp
    from 4 "2.prems" have "evict_scan P m cs (k + 1) ?h = (b, c')" by (auto simp: Let_def)
    from "2.IH"(2) [OF 4(1) refl 4(2) 4(3) e(2) this, unfolded up set_entry_same] obtain cs' where cs':
      "abs_scan ?pin (m - (k + 1)) (map (elems c) cs) = (b, map (elems c') cs')"
      "if b then \<exists>v\<in>set cs. cs' = remove1 v cs \<and> eviction c' = remove1 v (eviction c)
        else cs' = cs \<and> eviction c' = eviction c"
      "\<forall>x. x \<notin> set cs \<longrightarrow> elems c' x = elems ?h x" "pinChecker c' = pinChecker c"
      by blast
    moreover have "elems c' e = (elems c e)\<lparr>ce_fetchCount := ce_fetchCount (elems c e) sdiv 2\<rparr>"
      using cs'(3) e(1) by (simp add: set_entry_def)
    ultimately show ?thesis using 4 e other
      by (intro exI [of _ "e # cs'"]) (auto simp: m popularityThreshold_def split: if_splits)
  qed
qed auto

lemma evict_fallback_refines:
  assumes "distinct cs"
  shows "case abs_drop_first (\<lambda>x. pinChecker c \<and> P (ce_key x)) (map (elems c) cs) of
      None \<Rightarrow> (\<forall>e\<in>set cs. pinned_elem P c e)
    | Some es \<Rightarrow> \<exists>v\<in>set cs. es = map (elems c) (remove1 v cs) \<and> evict_fallback P cs c = removeElement c v"
  using assms
proof (induction cs)
  case (Cons e cs)
  show ?case
  proof (cases "pinned_elem P c e")
    case True
    with Cons show ?thesis by (auto split: option.splits)
  next
    case False
    then show ?thesis by (auto intro!: bexI [of _ e])
  qed
qed simp

lemma rev_remove1: "distinct xs \<Longrightarrow> rev (remove1 v (rev xs)) = remove1 v xs"
  by (simp add: distinct_remove1_removeAll removeAll_filter_not_eq rev_filter)

text \<open>One eviction refines the abstract one; where that is stuck, only fetch counts change.\<close>

lemma evictOldest_refines:
  assumes wf: "lru_wf c"
  shows "case abs_evict_one (\<lambda>x. pinChecker c \<and> P (ce_key x)) (lru_abs c) of
      None \<Rightarrow> (\<forall>e\<in>set (eviction c). pinned_elem P c e)
    | Some es \<Rightarrow> lru_abs (evictOldest P c) = es"
proof -
  let ?pin = "\<lambda>x. pinChecker c \<and> P (ce_key x)"
  let ?n = "length (eviction c) div 2"
  let ?m = "if ?n < 1 then 1 else ?n"
  have m: "max 1 (length (lru_abs c) div 2) = ?m" by (simp add: lru_abs_def)
  obtain b c' where s: "evict_scan P ?m (rev (eviction c)) 0 c = (b, c')" by fastforce
  have "distinct (rev (eviction c))" using wf by (simp add: lru_wfD(1))
  from evict_scan_refines [OF this s, unfolded set_rev rev_map [symmetric] diff_zero] obtain cs' where cs':
    "abs_scan ?pin ?m (rev (lru_abs c)) = (b, map (elems c') cs')"
    "if b then \<exists>v\<in>set (eviction c). cs' = remove1 v (rev (eviction c)) \<and> eviction c' = remove1 v (eviction c)
     else cs' = rev (eviction c) \<and> eviction c' = eviction c" "pinChecker c' = pinChecker c"
    unfolding lru_abs_def by blast
  have eq: "evictOldest P c = (if b then c' else evict_fallback P (rev (eviction c')) c')"
    using s by (simp add: evictOldest_def Let_def split: bool.split)
  have a: "abs_evict_one ?pin (lru_abs c) = (if b then Some (rev (map (elems c') cs'))
      else map_option rev (abs_drop_first ?pin (map (elems c') cs')))"
    unfolding abs_evict_one_def m cs'(1) by simp
  show ?thesis
  proof (cases b)
    case True
    with cs'(2) wf show ?thesis
      unfolding a eq by (auto simp: lru_abs_def rev_map rev_remove1 lru_wfD(1))
  next
    case False
    have key: "ce_key (elems c' e) = ce_key (elems c e)" for e
      using evict_scan_spec [where c = c and P = P and m = ?m and cs = "rev (eviction c)" and k = 0] s False by (auto simp: cooled_same)
    have ev: "eviction c' = eviction c" and cs: "cs' = rev (eviction c)" using False cs'(2) by auto
    have "distinct cs'" using wf cs by (simp add: lru_wfD(1))
    from evict_fallback_refines [OF this, of c' P] show ?thesis
      using False wf unfolding a eq
      by (auto simp: ev cs cs'(3) key lru_abs_def rev_map rev_remove1 lru_wfD(1) split: option.splits)
  qed
qed

lemma evict_loop_refines:
  assumes "lru_wf c"
  shows "map_option lru_abs (evict_loop P n c) =
    abs_make_room (\<lambda>x. pinChecker c \<and> P (ce_key x)) (maxBytes c) n (lru_abs c)"
  using assms
proof (induction "length (eviction c)" arbitrary: c rule: less_induct)
  case less
  let ?pin = "\<lambda>x. pinChecker c \<and> P (ce_key x)"
  show ?case
  proof (cases "currentBytes c + n > maxBytes c \<and> eviction c \<noteq> []")
    case False
    then show ?thesis using less.prems
      by (subst evict_loop.simps, subst abs_make_room.simps) (auto simp: abs_bytes_lru_abs, simp_all add: lru_abs_def)
  next
    case True
    then have unf: "abs_make_room ?pin (maxBytes c) n (lru_abs c) =
        (case abs_evict_one ?pin (lru_abs c) of None \<Rightarrow> None
         | Some es \<Rightarrow> abs_make_room ?pin (maxBytes c) n es)"
      using less.prems by (subst abs_make_room.simps) (auto simp: abs_bytes_lru_abs, simp add: lru_abs_def)
    show ?thesis
    proof (cases "abs_evict_one ?pin (lru_abs c)")
      case None
      with evictOldest_refines [OF less.prems, of P] have all: "\<forall>e\<in>set (eviction c). pinned_elem P c e" by simp
      from True have "\<exists>e. e \<in> set (eviction c)" by (cases "eviction c") auto
      with all True have "\<not> room_possible P n c"
        using all_pinned_bytes [OF less.prems all] by (auto simp: room_possible_def)
      with None unf show ?thesis by (simp add: evict_loop_diverges [OF less.prems])
    next
      case (Some es)
      with evictOldest_refines [OF less.prems, of P] have es: "lru_abs (evictOldest P c) = es" by simp
      have "length (eviction (evictOldest P c)) < length (eviction c)"
        using length_abs_evict_one [OF Some] es by (auto simp: lru_abs_def)
      from less.hyps [OF this wf_evictOldest [OF less.prems]]
      have "map_option lru_abs (evict_loop P n (evictOldest P c)) = abs_make_room ?pin (maxBytes c) n es"
        by (simp add: es evictOldest_same)
      moreover have "evict_loop P n c = evict_loop P n (evictOldest P c)"
        using True by (subst evict_loop.simps) auto
      ultimately show ?thesis using unf Some by simp
    qed
  qed
qed

lemma LRUCache_Put_refines:
  assumes wf: "lru_wf c"
  shows "map_option lru_abs (LRUCache_Put P c b) =
    abs_put (\<lambda>x. pinChecker c \<and> P (ce_key x)) (maxBytes c) b (lru_abs c)"
proof (cases "items c (CID b)")
  case None
  have push: "lru_abs (push_entry d b) = \<lparr>ce_key = CID b, ce_block = b,
      ce_size = int (length (Data b)), ce_fetchCount = 0\<rparr> # lru_abs d" if "lru_wf d" for d
    using lru_wfD(2) [OF that] by (auto simp: lru_abs_def push_entry_def Let_def)
  have "map_option lru_abs (LRUCache_Put P c b) = map_option ((#) \<lparr>ce_key = CID b, ce_block = b,
      ce_size = int (length (Data b)), ce_fetchCount = 0\<rparr>)
      (map_option lru_abs (evict_loop P (int (length (Data b))) c))"
    by (cases "evict_loop P (int (length (Data b))) c")
       (auto simp: LRUCache_Put_new [OF None] push dest: evict_loop_result(1) [OF _ wf])
  then show ?thesis
    using None wf by (auto simp: abs_put_def Let_def absent_iff evict_loop_refines)
next
  case (Some e)
  with wf have e: "e \<in> set (eviction c)" "ce_key (elems c e) = CID b" by (simp_all add: lru_wfD(3))
  then have "\<exists>x\<in>set (lru_abs c). ce_key x = CID b" by (auto simp: lru_abs_def)
  with wf show ?thesis
    by (simp add: LRUCache_Put_old [OF Some] abs_put_def Let_def abs_touch_lru_abs [OF wf e])
       (simp add: lru_abs_def MoveToFront_def map_upd_remove1 lru_wfD(1))
qed

section \<open>Runs of the cache\<close>

text \<open>
  The states a cache of capacity \<open>n\<close> goes through. The pin checker's answers may differ from one
  insertion to the next; an insertion that does not return has no next state.
\<close>

inductive cache_reachable :: "int \<Rightarrow> LRUCache \<Rightarrow> bool" for n where
  new: "cache_reachable n (NewLRUCache n)"
| get: "cache_reachable n c \<Longrightarrow> cache_reachable n (snd (LRUCache_Get c k))"
| put: "cache_reachable n c \<Longrightarrow> LRUCache_Put P c b = Some c' \<Longrightarrow> cache_reachable n c'"
| evict: "cache_reachable n c \<Longrightarrow> cache_reachable n (LRUCache_Evict c k)"
| pin_checker: "cache_reachable n c \<Longrightarrow> cache_reachable n (SetPinChecker c pc)"
| metrics_hook: "cache_reachable n c \<Longrightarrow> cache_reachable n (SetMetricsHook c h)"

lemma cache_reachable_wf: "cache_reachable n c \<Longrightarrow> lru_wf c"
  by (induction rule: cache_reachable.induct) (auto intro: wf_intros)

lemma Get_capacity: "maxBytes (snd (LRUCache_Get c k)) = maxBytes c"
  by (simp add: LRUCache_Get_def set_entry_def Let_def split: option.split)

lemma cache_reachable_capacity: "cache_reachable n c \<Longrightarrow> maxBytes c = n"
proof (induction rule: cache_reachable.induct)
  case (put c P b c')
  then show ?case by (simp add: LRUCache_Put_config(2) [OF cache_reachable_wf])
qed (auto simp: NewLRUCache_def Get_capacity LRUCache_Evict_def SetPinChecker_def SetMetricsHook_def
    split: option.split)

lemma distinct_keys: "lru_wf c \<Longrightarrow> distinct (map ce_key (lru_abs c))"
  by (auto simp: lru_abs_def distinct_map comp_def lru_wfD(1) inj_on_def dest: keys_unique)

lemma sizes_of_blocks:
  "lru_wf c \<Longrightarrow> currentBytes c = (\<Sum>x\<leftarrow>lru_abs c. int (length (Data (ce_block x))))"
  using lru_wfD(5) [of c]
  by (auto simp: lru_wfD(4) lru_abs_def entry_ok_def comp_def intro!: arg_cong [of _ _ sum_list])

lemma lookup_find:
  assumes wf: "lru_wf c"
  shows "lru_lookup c k = map_option ce_block (find (\<lambda>x. ce_key x = k) (lru_abs c))"
proof (cases "items c k")
  case None
  with wf have "find (\<lambda>x. ce_key x = k) (lru_abs c) = None" by (simp add: find_None_iff absent_iff)
  with None show ?thesis by (simp add: lru_lookup_def)
next
  case (Some e)
  with wf have e: "e \<in> set (eviction c)" "ce_key (elems c e) = k" by (simp_all add: lru_wfD(3))
  have "\<exists>x. find (\<lambda>x. ce_key x = k) (lru_abs c) = Some x"
    using e by (auto simp: lru_abs_def find_None_iff simp flip: not_None_eq)
  then obtain x where x: "find (\<lambda>x. ce_key x = k) (lru_abs c) = Some x" by blast
  then have "x \<in> set (lru_abs c)" "ce_key x = k" by (auto simp: find_Some_iff)
  then obtain f where "f \<in> set (eviction c)" "x = elems c f" "ce_key (elems c f) = k"
    by (auto simp: lru_abs_def)
  with e wf have "x = elems c e" by (auto dest: keys_unique)
  with x Some show ?thesis by (simp add: lru_lookup_def)
qed

lemma Put_into_empty:
  "LRUCache_Put P (NewLRUCache n) b = Some (push_entry (NewLRUCache n) b)"
  by (simp add: LRUCache_Put_def NewLRUCache_def evict_loop.simps)

section \<open>Properties\<close>

text \<open>
  C13. Every state a cache reaches from \<^verbatim>\<open>NewLRUCache(n)\<close> through its methods is well formed: the
  index, the list and the byte counter agree, no key is cached twice, the counter is the total
  size of the cached data, the capacity is still \<open>n\<close>, and a hit returns a block with the key asked for.
\<close>

theorem cache_invariant:
  assumes "cache_reachable n c"
  shows "lru_wf c \<and> maxBytes c = n \<and> distinct (map ce_key (lru_abs c))
    \<and> currentBytes c = (\<Sum>x\<leftarrow>lru_abs c. int (length (Data (ce_block x))))
    \<and> (\<forall>k b. fst (LRUCache_Get c k) = Some b \<longrightarrow> CID b = k)"
  using cache_reachable_wf [OF assms] cache_reachable_capacity [OF assms]
  by (auto simp: distinct_keys sizes_of_blocks dest: lru_lookup_CID)

definition wit_block :: "string \<Rightarrow> nat \<Rightarrow> Block" where
  "wit_block k n = \<lparr>CID = k, Data = replicate n 7\<rparr>"

definition wit_cache :: LRUCache where
  "wit_cache = SetPinChecker (push_entry (NewLRUCache 4) (wit_block ''a'' 3)) True"

lemma wit_cache_reachable: "cache_reachable 4 wit_cache"
  unfolding wit_cache_def
  by (intro cache_reachable.pin_checker cache_reachable.put [OF cache_reachable.new Put_into_empty])

lemma wit_cache_wf: "lru_wf wit_cache"
  by (rule cache_reachable_wf [OF wit_cache_reachable])

lemmas wit_defs = wit_cache_def wit_block_def SetPinChecker_def push_entry_def NewLRUCache_def Let_def

theorem cache_invariant_witness:
  "lru_wf wit_cache \<and> currentBytes wit_cache = 3 \<and> maxBytes wit_cache = 4"
  using cache_invariant [OF wit_cache_reachable] by (simp add: lru_abs_def wit_defs)

text \<open>
  C15. \<^verbatim>\<open>Put\<close> of a block that is not cached returns exactly when nothing in the cache is pinned, or
  the pinned entries together with the new block fit into the capacity. Otherwise the eviction
  loop never ends (it holds the cache's mutex).
\<close>

theorem Put_returns_iff:
  assumes "lru_wf c" and "items c (CID b) = None"
  shows "(\<exists>c'. LRUCache_Put P c b = Some c') \<longleftrightarrow>
    (\<forall>e\<in>set (eviction c). \<not> (pinChecker c \<and> P (ce_key (elems c e))))
    \<or> pinned_bytes P c + int (length (Data b)) \<le> maxBytes c"
  using evict_loop_returns_iff [OF assms(1), of P "int (length (Data b))"]
  by (auto simp: LRUCache_Put_new [OF assms(2)] room_possible_def)

theorem Put_returns_iff_witness:
  "LRUCache_Put (\<lambda>k. k = ''a'') wit_cache (wit_block ''b'' 2) = None"
  using Put_returns_iff [OF wit_cache_wf, of "wit_block ''b'' 2" "\<lambda>k. k = ''a''"]
  by (cases "LRUCache_Put (\<lambda>k. k = ''a'') wit_cache (wit_block ''b'' 2)")
     (simp_all add: pinned_bytes_def wit_defs)

text \<open>
  C14. The pointer structure refines the abstract cache, a list of entries with the most recently
  used first: a lookup moves the entry to the front and counts the fetch, \<^verbatim>\<open>Evict\<close> drops it,
  and \<^verbatim>\<open>Put\<close> replaces it in place or makes room by the second-chance policy and inserts it in front.
\<close>

theorem cache_refines_list:
  assumes "lru_wf c"
  shows "fst (LRUCache_Get c k) = map_option ce_block (find (\<lambda>x. ce_key x = k) (lru_abs c))
    \<and> lru_abs (snd (LRUCache_Get c k)) = abs_get k (lru_abs c)
    \<and> lru_abs (LRUCache_Evict c k) = abs_evict k (lru_abs c)
    \<and> map_option lru_abs (LRUCache_Put P c b) =
        abs_put (\<lambda>x. pinChecker c \<and> P (ce_key x)) (maxBytes c) b (lru_abs c)"
  using assms by (simp add: lookup_find abs_Get abs_Evict LRUCache_Put_refines)

theorem cache_refines_list_witness:
  "map_option (\<lambda>c. map ce_key (lru_abs c)) (LRUCache_Put (\<lambda>k. False) wit_cache (wit_block ''b'' 2))
     = Some [''b'']"
proof -
  have "map_option (\<lambda>c. map ce_key (lru_abs c)) (LRUCache_Put (\<lambda>k. False) wit_cache (wit_block ''b'' 2))
      = map_option (map ce_key) (map_option lru_abs (LRUCache_Put (\<lambda>k. False) wit_cache (wit_block ''b'' 2)))"
    by (simp add: option.map_comp comp_def)
  also have "map_option lru_abs (LRUCache_Put (\<lambda>k. False) wit_cache (wit_block ''b'' 2))
      = abs_put (\<lambda>x. pinChecker wit_cache \<and> False) (maxBytes wit_cache) (wit_block ''b'' 2) (lru_abs wit_cache)"
    using cache_refines_list [OF wit_cache_wf] by blast
  also have "map_option (map ce_key) \<dots> = Some [''b'']"
    by (simp add: lru_abs_def abs_put_def abs_make_room.simps abs_bytes_def abs_evict_one_def wit_defs)
  finally show ?thesis .
qed

text \<open>
  C16. After a \<^verbatim>\<open>Put\<close> that returns, a lookup of the block's key gives the block; every other key
  gives what it gave before or nothing; and a pinned key still gives what it gave before: pinned
  blocks are never evicted.
\<close>

theorem Put_then_Get:
  assumes "lru_wf c" and "LRUCache_Put P c b = Some c'"
  shows "fst (LRUCache_Get c' (CID b)) = Some b
    \<and> (\<forall>k. k \<noteq> CID b \<longrightarrow> fst (LRUCache_Get c' k) \<in> {None, fst (LRUCache_Get c k)})
    \<and> (\<forall>k. k \<noteq> CID b \<and> pinChecker c \<and> P k \<longrightarrow> fst (LRUCache_Get c' k) = fst (LRUCache_Get c k))"
  using lru_lookup_Put [OF assms] by simp

theorem Put_then_Get_witness:
  "fst (LRUCache_Get (push_entry (NewLRUCache 4) (wit_block ''a'' 3)) ''a'') = Some (wit_block ''a'' 3)"
  using Put_then_Get [OF wf_NewLRUCache Put_into_empty, of 4 "wit_block ''a'' 3"]
  by (simp add: wit_block_def)

text \<open>
  After a \<^verbatim>\<open>Put\<close> of a block that was not cached, the cache is within its capacity unless
  the new block is all it holds.
\<close>

lemma Put_within_capacity:
  assumes "lru_wf c" and "items c (CID b) = None" and "LRUCache_Put P c b = Some c'"
  shows "st_CurrentBytes (LRUCache_Stats c') \<le> st_MaxBytes (LRUCache_Stats c)
    \<or> st_Entries (LRUCache_Stats c') = 1 \<and> fst (LRUCache_Get c' (CID b)) = Some b"
  using LRUCache_Put_size [OF assms] lru_lookup_Put(1) [OF assms(1,3)]
  by (auto simp: LRUCache_Stats_def LRUCache_Len_def)

end
