(* ===== verification/Interfaces.thy ===== *)
theory Interfaces
  imports LRU_Spec
begin

text \<open>
  The contracts between the components that hold blocks. \<open>pin_checker\<close> is what the cache relies
  on in its pin checker (\<^verbatim>\<open>cache.PinChecker\<close>, provided by the store); \<open>block_source\<close> is what
  the transfer protocols rely on in a container of blocks (provided by the cache and by the
  store); \<open>two_level\<close> is the cache in front of the store. Clients prove their lemmas here, the
  providers interpret the locales in their theories.
\<close>

section \<open>Pin checkers\<close>

locale pin_checker =
  fixes pinned :: "'p \<Rightarrow> cid \<Rightarrow> bool"
    and pin :: "'p \<Rightarrow> cid \<Rightarrow> 'p"
    and unpin :: "'p \<Rightarrow> cid \<Rightarrow> 'p"
  assumes pinned_pin: "pinned (pin s k) k' \<longleftrightarrow> k' = k \<or> pinned s k'"
    and pinned_unpin: "pinned (unpin s k) k' \<longleftrightarrow> k' \<noteq> k \<and> pinned s k'"
begin

lemma pinned_pins: "pinned (foldl pin s ks) k \<longleftrightarrow> k \<in> set ks \<or> pinned s k"
  by (induction ks arbitrary: s) (auto simp: pinned_pin)

lemma pin_idem: "pinned (pin (pin s k) k) k' \<longleftrightarrow> pinned (pin s k) k'"
  by (auto simp: pinned_pin)

text \<open>A block that is pinned survives the insertion of any sequence of other blocks.\<close>

lemma pinned_survives:
  "lru_wf c \<Longrightarrow> pinChecker c \<Longrightarrow> k \<notin> CID ` set bs \<Longrightarrow>
   foldl (\<lambda>oc b. Option.bind oc (\<lambda>c. LRUCache_Put (pinned (pin s k)) c b)) (Some c) bs = Some c' \<Longrightarrow>
   lru_lookup c' k = lru_lookup c k"
proof (induction bs arbitrary: c)
  case (Cons b bs)
  have none: "foldl (\<lambda>oc b. Option.bind oc (\<lambda>c. LRUCache_Put (pinned (pin s k)) c b)) None bs = None"
    by (induction bs) auto
  with Cons.prems(4) obtain c1 where c1: "LRUCache_Put (pinned (pin s k)) c b = Some c1"
    by (cases "LRUCache_Put (pinned (pin s k)) c b") auto
  have "pinChecker c1" "lru_wf c1" "lru_lookup c1 k = lru_lookup c k"
    using Cons.prems lru_lookup_Put(3) [OF Cons.prems(1) c1, of k] wf_LRUCache_Put [OF Cons.prems(1) c1]
      LRUCache_Put_config [OF Cons.prems(1) c1] by (auto simp: pinned_pin)
  with Cons.IH [of c1] Cons.prems c1 show ?case by simp
qed simp

end

section \<open>Containers of blocks\<close>

text \<open>
  \<open>trusted look valid\<close>: what is found under a key is the data the key is the hash of, for the
  keys the container is meant for.
\<close>

definition trusted :: "(cid \<Rightarrow> bytes option) \<Rightarrow> (cid \<Rightarrow> bool) \<Rightarrow> bool" where
  "trusted look valid \<longleftrightarrow> (\<forall>k d. valid k \<longrightarrow> look k = Some d \<longrightarrow> k = ComputeCID d)"

locale block_source =
  fixes inv :: "'s \<Rightarrow> bool"
    and look :: "'s \<Rightarrow> cid \<Rightarrow> bytes option"
    and ins :: "'s \<Rightarrow> Block \<Rightarrow> 's option"
    and valid :: "cid \<Rightarrow> bool"
  assumes ins_inv: "inv s \<Longrightarrow> ins s b = Some s' \<Longrightarrow> inv s'"
    and ins_same: "inv s \<Longrightarrow> ins s b = Some s' \<Longrightarrow> look s' (CID b) = Some (Data b)"
    and ins_other: "inv s \<Longrightarrow> valid (CID b) \<Longrightarrow> ins s b = Some s' \<Longrightarrow> valid k \<Longrightarrow> k \<noteq> CID b \<Longrightarrow>
      look s' k = None \<or> look s' k = look s k"
begin

lemma ins_trusted:
  assumes "inv s" "trusted (look s) valid" "ins s b = Some s'" "content_addressed b" "valid (CID b)"
  shows "trusted (look s') valid"
  unfolding trusted_def
proof (intro allI impI)
  fix k d assume k: "valid k" "look s' k = Some d"
  show "k = ComputeCID d"
  proof (cases "k = CID b")
    case True
    with k assms ins_same [of s b s'] show ?thesis by (simp add: content_addressed_def)
  next
    case False
    with k assms ins_other [of s b s' k] show ?thesis by (auto simp: trusted_def)
  qed
qed

lemma ins_list_trusted:
  "inv s \<Longrightarrow> trusted (look s) valid \<Longrightarrow> \<forall>b\<in>set bs. content_addressed b \<and> valid (CID b) \<Longrightarrow>
   foldl (\<lambda>os b. Option.bind os (\<lambda>s. ins s b)) (Some s) bs = Some s' \<Longrightarrow>
   inv s' \<and> trusted (look s') valid"
proof (induction bs arbitrary: s)
  case (Cons b bs)
  have "foldl (\<lambda>os b. Option.bind os (\<lambda>s. ins s b)) None bs = None" by (induction bs) auto
  with Cons.prems(4) obtain s1 where s1: "ins s b = Some s1" by (cases "ins s b") auto
  show ?case
    using Cons.IH [of s1] Cons.prems s1 ins_inv [of s b s1] ins_trusted [of s b s1] by simp
qed simp

end

text \<open>The cache in front of the store.\<close>

locale two_level =
  front: block_source inv1 look1 ins1 valid1 + disk: block_source inv2 look2 ins2 valid2
  for inv1 :: "'s1 \<Rightarrow> bool" and look1 and ins1 and valid1
    and inv2 :: "'s2 \<Rightarrow> bool" and look2 and ins2 and valid2 +
  assumes valid_sub: "valid2 k \<Longrightarrow> valid1 k"
begin

lemma look_trusted:
  "trusted (look1 s1) valid1 \<Longrightarrow> trusted (look2 s2) valid2 \<Longrightarrow> valid2 k \<Longrightarrow>
   (case look1 s1 k of Some d \<Rightarrow> Some d | None \<Rightarrow> look2 s2 k) = Some d \<Longrightarrow> k = ComputeCID d"
  by (auto simp: trusted_def valid_sub split: option.splits)

lemma fill_trusted:
  assumes "inv1 s1" "trusted (look1 s1) valid1" "trusted (look2 s2) valid2" "valid2 k"
    and "look2 s2 k = Some d" and "ins1 s1 \<lparr>CID = k, Data = d\<rparr> = Some s1'"
  shows "inv1 s1' \<and> trusted (look1 s1') valid1"
  using assms front.ins_trusted [of s1 "\<lparr>CID = k, Data = d\<rparr>" s1'] front.ins_inv [of s1 _ s1']
  by (auto simp: trusted_def content_addressed_def valid_sub)

lemma both_trusted:
  assumes "inv1 s1" "trusted (look1 s1) valid1" "ins1 s1 b = Some s1'"
    and "inv2 s2" "trusted (look2 s2) valid2" "ins2 s2 b = Some s2'"
    and "content_addressed b" "valid2 (CID b)"
  shows "trusted (look1 s1') valid1 \<and> trusted (look2 s2') valid2"
  using assms front.ins_trusted [of s1 b s1'] disk.ins_trusted [of s2 b s2'] valid_sub by blast

end

section \<open>The cache as a container\<close>

interpretation lru: block_source lru_wf "\<lambda>c k. map_option Data (lru_lookup c k)" "LRUCache_Put P" "\<lambda>_. True"
  for P
proof
  fix c b c' k
  assume c: "lru_wf c" "LRUCache_Put P c b = Some c'"
  show "lru_wf c'" using c by (rule wf_LRUCache_Put)
  show "map_option Data (lru_lookup c' (CID b)) = Some (Data b)"
    using lru_lookup_Put(1) [OF c] by simp
  assume "k \<noteq> CID b"
  with lru_lookup_Put(2) [OF c, of k]
  show "map_option Data (lru_lookup c' k) = None
      \<or> map_option Data (lru_lookup c' k) = map_option Data (lru_lookup c k)" by auto
qed

end
