(* ===== verification/Store.thy ===== *)
theory Store
  imports Go_Path Interfaces
begin

text \<open>
  The on-disk block store (\<^verbatim>\<open>internal/content/store.go\<close>): blocks, manifests and fragments as files,
  and the pin set with its file. The file system is a map from (cleaned) paths to contents; how the
  operating system answers a call is the record \<open>os\<close>, so every error branch is reachable: a write
  may succeed, fail without effect, or fail after part of the data was written. JSON encoding is an
  argument where it is used. Each method runs under the store's lock and is one step.
\<close>

section \<open>Files\<close>

type_synonym path = string
type_synonym file_system = "path \<Rightarrow> bytes option"

datatype write_outcome = WriteOk | WriteFail | WritePartial nat

record os =
  os_write :: "path \<Rightarrow> write_outcome"
  os_read_fails :: "path \<Rightarrow> bool"
  os_stat_fails :: "path \<Rightarrow> bool"
  os_mkdir_fails :: "path \<Rightarrow> bool"
  os_remove_fails :: "path \<Rightarrow> bool"

definition os_ok :: os where
  "os_ok = \<lparr>os_write = \<lambda>_. WriteOk, os_read_fails = \<lambda>_. False, os_stat_fails = \<lambda>_. False,
            os_mkdir_fails = \<lambda>_. False, os_remove_fails = \<lambda>_. False\<rparr>"

definition os_WriteFile :: "os \<Rightarrow> path \<Rightarrow> bytes \<Rightarrow> file_system \<Rightarrow> bool \<times> file_system" where
  "os_WriteFile os p d fs =
     (case os_write os p of
        WriteOk \<Rightarrow> (True, fs(p \<mapsto> d))
      | WriteFail \<Rightarrow> (False, fs)
      | WritePartial n \<Rightarrow> (False, fs(p \<mapsto> take n d)))"

datatype read_result = ReadOk bytes | NotExist | ReadFailed

definition os_ReadFile :: "os \<Rightarrow> path \<Rightarrow> file_system \<Rightarrow> read_result" where
  "os_ReadFile os p fs =
     (case fs p of None \<Rightarrow> NotExist | Some d \<Rightarrow> if os_read_fails os p then ReadFailed else ReadOk d)"

section \<open>State\<close>

record Store =
  dir :: string
  pins :: "cid \<Rightarrow> bool option"
  pinFile :: string

datatype store_error =
    CreateBlocksDir | WriteBlock cid | BlockNotFound cid | ReadBlock cid | RemoveBlock
  | MarshalManifest | WriteManifest | ReadManifest cid | UnmarshalManifest
  | CreateFragmentDir | WriteFragment | ReadFragment cid int | MarshalPins | WritePins

section \<open>Operations\<close>

definition loadPins :: "(bytes \<Rightarrow> cid list option) \<Rightarrow> os \<Rightarrow> Store \<Rightarrow> file_system \<Rightarrow> Store" where
  "loadPins unmarshal os s fs =
     (case os_ReadFile os (pinFile s) fs of
        ReadOk data \<Rightarrow>
          (case unmarshal data of
             None \<Rightarrow> s
           | Some ps \<Rightarrow> foldl (\<lambda>s cid. s\<lparr>pins := (pins s)(cid \<mapsto> True)\<rparr>) s ps)
      | _ \<Rightarrow> s)"

definition NewStore ::
  "(bytes \<Rightarrow> cid list option) \<Rightarrow> os \<Rightarrow> string \<Rightarrow> file_system \<Rightarrow> store_error + Store" where
  "NewStore unmarshal os dataDir fs =
     (let d = path_Join [dataDir, ''blocks''] in
      if os_mkdir_fails os d then Inl CreateBlocksDir
      else Inr (loadPins unmarshal os
             \<lparr>dir = d, pins = (\<lambda>_. None), pinFile = path_Join [dataDir, ''pins.json'']\<rparr> fs))"

definition blockPath :: "Store \<Rightarrow> cid \<Rightarrow> path" where
  "blockPath s cid = path_Join [dir s, cid @ ''.block'']"

definition manifestPath :: "Store \<Rightarrow> cid \<Rightarrow> path" where
  "manifestPath s rootCID = path_Join [dir s, rootCID @ ''.manifest.json'']"

definition Store_Put :: "os \<Rightarrow> Store \<Rightarrow> Block \<Rightarrow> file_system \<Rightarrow> store_error option \<times> file_system" where
  "Store_Put os s b fs =
     (case os_WriteFile os (blockPath s (CID b)) (Data b) fs of
        (True, fs') \<Rightarrow> (None, fs')
      | (False, fs') \<Rightarrow> (Some (WriteBlock (CID b)), fs'))"

definition Store_Get :: "os \<Rightarrow> Store \<Rightarrow> cid \<Rightarrow> file_system \<Rightarrow> store_error + Block" where
  "Store_Get os s cid fs =
     (case os_ReadFile os (blockPath s cid) fs of
        NotExist \<Rightarrow> Inl (BlockNotFound cid)
      | ReadFailed \<Rightarrow> Inl (ReadBlock cid)
      | ReadOk data \<Rightarrow> Inr \<lparr>CID = cid, Data = data\<rparr>)"

definition Store_Has :: "os \<Rightarrow> Store \<Rightarrow> cid \<Rightarrow> file_system \<Rightarrow> bool" where
  "Store_Has os s cid fs = (fs (blockPath s cid) \<noteq> None \<and> \<not> os_stat_fails os (blockPath s cid))"

definition Store_Delete :: "os \<Rightarrow> Store \<Rightarrow> cid \<Rightarrow> file_system \<Rightarrow> store_error option \<times> file_system" where
  "Store_Delete os s cid fs =
     (let p = blockPath s cid in
      if fs p = None \<or> os_remove_fails os p then (Some RemoveBlock, fs) else (None, fs(p := None)))"

definition PutManifest ::
  "(Manifest \<Rightarrow> bytes option) \<Rightarrow> os \<Rightarrow> Store \<Rightarrow> Manifest \<Rightarrow> file_system \<Rightarrow> store_error option \<times> file_system" where
  "PutManifest marshal os s m fs =
     (case marshal m of
        None \<Rightarrow> (Some MarshalManifest, fs)
      | Some data \<Rightarrow>
          (case os_WriteFile os (manifestPath s (RootCID m)) data fs of
             (True, fs') \<Rightarrow> (None, fs')
           | (False, fs') \<Rightarrow> (Some WriteManifest, fs')))"

definition GetManifest ::
  "(bytes \<Rightarrow> Manifest option) \<Rightarrow> os \<Rightarrow> Store \<Rightarrow> cid \<Rightarrow> file_system \<Rightarrow> store_error + Manifest" where
  "GetManifest unmarshal os s rootCID fs =
     (case os_ReadFile os (manifestPath s rootCID) fs of
        ReadOk data \<Rightarrow> (case unmarshal data of None \<Rightarrow> Inl UnmarshalManifest | Some m \<Rightarrow> Inr m)
      | _ \<Rightarrow> Inl (ReadManifest rootCID))"

text \<open>Decimal digits as \<^verbatim>\<open>fmt.Sprintf("%d.frag", index)\<close> prints them.\<close>

fun nat_digits :: "nat \<Rightarrow> string" where
  "nat_digits n = (if n < 10 then [char_of (48 + n)] else nat_digits (n div 10) @ [char_of (48 + n mod 10)])"

declare nat_digits.simps [simp del]

definition int_digits :: "int \<Rightarrow> string" where
  "int_digits i = (if i < 0 then CHR ''-'' # nat_digits (nat (- i)) else nat_digits (nat i))"

definition fragPath :: "Store \<Rightarrow> cid \<Rightarrow> int \<Rightarrow> path" where
  "fragPath s parentCID index =
     path_Join [path_Join [dir s, ''fragments'', parentCID], int_digits index @ ''.frag'']"

definition PutFragment ::
  "os \<Rightarrow> Store \<Rightarrow> cid \<Rightarrow> int \<Rightarrow> bytes \<Rightarrow> file_system \<Rightarrow> store_error option \<times> file_system" where
  "PutFragment os s parentCID index data fs =
     (if os_mkdir_fails os (path_Join [dir s, ''fragments'', parentCID]) then (Some CreateFragmentDir, fs)
      else case os_WriteFile os (fragPath s parentCID index) data fs of
             (True, fs') \<Rightarrow> (None, fs')
           | (False, fs') \<Rightarrow> (Some WriteFragment, fs'))"

definition GetFragment :: "os \<Rightarrow> Store \<Rightarrow> cid \<Rightarrow> int \<Rightarrow> file_system \<Rightarrow> store_error + bytes" where
  "GetFragment os s parentCID index fs =
     (case os_ReadFile os (path_Join [dir s, ''fragments'', parentCID, int_digits index @ ''.frag'']) fs of
        ReadOk data \<Rightarrow> Inr data
      | _ \<Rightarrow> Inl (ReadFragment parentCID index))"

definition savePins ::
  "(cid list \<Rightarrow> bytes option) \<Rightarrow> cid list \<Rightarrow> os \<Rightarrow> Store \<Rightarrow> file_system \<Rightarrow> store_error option \<times> file_system" where
  "savePins marshal iter os s fs =
     (case marshal (map_range iter (pins s)) of
        None \<Rightarrow> (Some MarshalPins, fs)
      | Some data \<Rightarrow>
          (case os_WriteFile os (pinFile s) data fs of
             (True, fs') \<Rightarrow> (None, fs')
           | (False, fs') \<Rightarrow> (Some WritePins, fs')))"

definition Store_Pin ::
  "(cid list \<Rightarrow> bytes option) \<Rightarrow> cid list \<Rightarrow> os \<Rightarrow> Store \<Rightarrow> cid \<Rightarrow> file_system \<Rightarrow> store_error option \<times> Store \<times> file_system" where
  "Store_Pin marshal iter os s cid fs =
     (let s' = s\<lparr>pins := (pins s)(cid \<mapsto> True)\<rparr>; (err, fs') = savePins marshal iter os s' fs
      in (err, s', fs'))"

definition Store_Unpin ::
  "(cid list \<Rightarrow> bytes option) \<Rightarrow> cid list \<Rightarrow> os \<Rightarrow> Store \<Rightarrow> cid \<Rightarrow> file_system \<Rightarrow> store_error option \<times> Store \<times> file_system" where
  "Store_Unpin marshal iter os s cid fs =
     (let s' = s\<lparr>pins := (pins s)(cid := None)\<rparr>; (err, fs') = savePins marshal iter os s' fs
      in (err, s', fs'))"

definition Store_IsPinned :: "Store \<Rightarrow> cid \<Rightarrow> bool" where
  "Store_IsPinned s cid = (case pins s cid of Some v \<Rightarrow> v | None \<Rightarrow> False)"

definition ListPinned :: "cid list \<Rightarrow> Store \<Rightarrow> cid list" where
  "ListPinned iter s = map_range iter (pins s)"

section \<open>Lemmas\<close>

definition slash_free :: "cid \<Rightarrow> bool" where
  "slash_free k \<longleftrightarrow> CHR ''/'' \<notin> set k"

lemma slash_free_hex_encode [simp]: "slash_free (hex_encode bs)"
  by (simp add: slash_free_def hex_encode_no_slash)

lemma slash_free_ComputeCID [simp]: "slash_free (ComputeCID d)"
  by (simp add: slash_free_def ComputeCID_no_slash)

lemma blockPath_plain: "slash_free k \<Longrightarrow> blockPath s k = dir_prefix (dir s) @ k @ ''.block''"
  by (simp add: blockPath_def path_Join_plain plain_name_ext slash_free_def)

lemma manifestPath_plain: "slash_free k \<Longrightarrow> manifestPath s k = dir_prefix (dir s) @ k @ ''.manifest.json''"
  by (simp add: manifestPath_def path_Join_plain plain_name_ext slash_free_def)

lemma blockPath_inject: "slash_free k \<Longrightarrow> slash_free k' \<Longrightarrow> blockPath s k = blockPath s k' \<longleftrightarrow> k = k'"
  by (simp add: blockPath_plain)

lemma manifestPath_inject: "slash_free k \<Longrightarrow> slash_free k' \<Longrightarrow> manifestPath s k = manifestPath s k' \<longleftrightarrow> k = k'"
  by (simp add: manifestPath_plain)

lemma last_neq: "a \<noteq> [] \<Longrightarrow> b \<noteq> [] \<Longrightarrow> last a \<noteq> last b \<Longrightarrow> x @ a \<noteq> y @ b"
  by (metis last_appendR)

lemma block_not_manifest: "slash_free k \<Longrightarrow> slash_free k' \<Longrightarrow> blockPath s k \<noteq> manifestPath s k'"
  using last_neq [of "''.block''" "''.manifest.json''"] by (simp add: blockPath_plain manifestPath_plain flip: append_assoc)

lemma block_not_pins: "slash_free k \<Longrightarrow> blockPath s k \<noteq> path_Join [dd, ''pins.json'']"
  using last_neq [of "''.block''" "''pins.json''"]
  by (simp add: blockPath_plain path_Join_plain plain_name_def flip: append_assoc)

text \<open>The data the disk holds under a key.\<close>

definition store_lookup :: "Store \<Rightarrow> file_system \<Rightarrow> cid \<Rightarrow> bytes option" where
  "store_lookup s fs k = fs (blockPath s k)"

definition store_ins :: "os \<Rightarrow> Store \<Rightarrow> file_system \<Rightarrow> Block \<Rightarrow> file_system option" where
  "store_ins os s fs b = (case Store_Put os s b fs of (None, fs') \<Rightarrow> Some fs' | (Some e, fs') \<Rightarrow> None)"

lemma Store_Get_lookup:
  "\<not> os_read_fails os (blockPath s k) \<Longrightarrow>
   Store_Get os s k fs = (case store_lookup s fs k of None \<Rightarrow> Inl (BlockNotFound k) | Some d \<Rightarrow> Inr \<lparr>CID = k, Data = d\<rparr>)"
  by (simp add: Store_Get_def os_ReadFile_def store_lookup_def split: option.split)

lemma Store_Get_SomeD: "Store_Get os s k fs = Inr b \<Longrightarrow> CID b = k \<and> store_lookup s fs k = Some (Data b)"
  by (auto simp: Store_Get_def os_ReadFile_def store_lookup_def split: option.splits if_splits)

lemma Store_Put_cases:
  "Store_Put os s b fs = (case os_write os (blockPath s (CID b)) of
     WriteOk \<Rightarrow> (None, fs(blockPath s (CID b) \<mapsto> Data b))
   | WriteFail \<Rightarrow> (Some (WriteBlock (CID b)), fs)
   | WritePartial n \<Rightarrow> (Some (WriteBlock (CID b)), fs(blockPath s (CID b) \<mapsto> take n (Data b))))"
  by (simp add: Store_Put_def os_WriteFile_def split: write_outcome.split)

lemma store_ins_eq:
  "store_ins os s fs b = (if os_write os (blockPath s (CID b)) = WriteOk
     then Some (fs(blockPath s (CID b) \<mapsto> Data b)) else None)"
  by (simp add: store_ins_def Store_Put_cases split: write_outcome.split)

lemma Store_Put_other:
  assumes "slash_free (CID b)" "slash_free k" "k \<noteq> CID b"
  shows "store_lookup s (snd (Store_Put os s b fs)) k = store_lookup s fs k"
  using assms by (simp add: Store_Put_cases store_lookup_def blockPath_inject split: write_outcome.split)

section \<open>The store as a container and as the cache's pin checker\<close>

interpretation disk: block_source "\<lambda>_. True" "store_lookup s" "store_ins os s" slash_free for os s
proof
  fix fs b fs' k
  assume ins: "store_ins os s fs b = Some fs'"
  show "store_lookup s fs' (CID b) = Some (Data b)"
    using ins by (auto simp: store_ins_eq store_lookup_def split: if_splits)
  assume "slash_free (CID b)" "slash_free k" "k \<noteq> CID b"
  then show "store_lookup s fs' k = None \<or> store_lookup s fs' k = store_lookup s fs k"
    using ins by (auto simp: store_ins_eq store_lookup_def blockPath_inject split: if_splits)
qed simp

interpretation node_blocks: two_level lru_wf "\<lambda>c k. map_option Data (lru_lookup c k)" "LRUCache_Put P"
  "\<lambda>_. True" "\<lambda>_. True" "store_lookup s" "store_ins os s" slash_free for P os s
  by unfold_locales simp

interpretation pinset: pin_checker "\<lambda>sfs. Store_IsPinned (fst sfs)"
  "\<lambda>sfs k. snd (Store_Pin marshal iter os (fst sfs) k (snd sfs))"
  "\<lambda>sfs k. snd (Store_Unpin marshal iter os (fst sfs) k (snd sfs))" for marshal iter os
  by unfold_locales
     (auto simp: Store_IsPinned_def Store_Pin_def Store_Unpin_def Let_def split: prod.splits option.splits)

section \<open>Pins on disk\<close>

definition store_at :: "string \<Rightarrow> Store \<Rightarrow> bool" where
  "store_at dataDir s \<longleftrightarrow> dir s = path_Join [dataDir, ''blocks''] \<and> pinFile s = path_Join [dataDir, ''pins.json'']
     \<and> False \<notin> ran (pins s)"

lemma foldl_pins:
  "foldl (\<lambda>s cid. s\<lparr>pins := (pins s)(cid \<mapsto> True)\<rparr>) s ps
   = s\<lparr>pins := (\<lambda>k. if k \<in> set ps then Some True else pins s k)\<rparr>"
  by (induction ps arbitrary: s) (auto simp: fun_eq_iff)

lemma store_at_NewStore: "NewStore unmarshal os dataDir fs = Inr s \<Longrightarrow> store_at dataDir s"
  by (auto simp: NewStore_def Let_def loadPins_def foldl_pins store_at_def ran_def
      split: if_splits read_result.splits option.splits)

lemma store_at_Pin: "store_at dd s \<Longrightarrow> store_at dd (fst (snd (Store_Pin marshal iter os s k fs)))"
  by (auto simp: Store_Pin_def Let_def store_at_def ran_def split: prod.split if_splits)

lemma store_at_Unpin: "store_at dd s \<Longrightarrow> store_at dd (fst (snd (Store_Unpin marshal iter os s k fs)))"
  by (auto simp: Store_Unpin_def Let_def store_at_def ran_def split: prod.split if_splits)

lemma IsPinned_dom: "store_at dd s \<Longrightarrow> Store_IsPinned s k \<longleftrightarrow> k \<in> dom (pins s)"
  by (auto simp: Store_IsPinned_def store_at_def ran_def split: option.split) (metis (full_types))

lemma savePins_reload:
  assumes at: "store_at dd s" and en: "enumerates iter (pins s)"
    and marshal: "marshal (map_range iter (pins s)) = Some d" "unmarshal d = Some (map_range iter (pins s))"
    and save: "savePins marshal iter os s fs = (None, fs')"
    and os': "\<not> os_mkdir_fails os' (dir s)" "\<not> os_read_fails os' (pinFile s)"
  shows "\<exists>s'. NewStore unmarshal os' dd fs' = Inr s' \<and> (\<forall>k. Store_IsPinned s' k = Store_IsPinned s k)"
proof -
  have "fs' (pinFile s) = Some d"
    using save marshal(1) by (auto simp: savePins_def os_WriteFile_def split: write_outcome.splits)
  then have "NewStore unmarshal os' dd fs' = Inr \<lparr>dir = dir s, pins = (\<lambda>k. if k \<in> dom (pins s) then Some True else None),
      pinFile = pinFile s\<rparr>"
    using at os' marshal(2) set_map_range [OF en]
    by (simp add: NewStore_def Let_def store_at_def loadPins_def os_ReadFile_def foldl_pins cong: if_cong)
  then show ?thesis using IsPinned_dom [OF at] by (auto simp: Store_IsPinned_def split: if_splits)
qed

lemma frag_name_plain: "plain_name (int_digits i @ ''.frag'')"
proof -
  have dig: "CHR ''/'' \<notin> set (nat_digits n)" for n
  proof (induction n rule: nat_digits.induct)
    case (1 n)
    have "(char_of (48 + m) :: char) \<noteq> CHR ''/''" if "m < 10" for m :: nat
    proof
      assume "(char_of (48 + m) :: char) = CHR ''/''"
      then have "(of_char (char_of (48 + m) :: char) :: nat) = of_char CHR ''/''" by simp
      with that show False by simp
    qed
    from this [of n] this [of "n mod 10"] 1 show ?case by (subst nat_digits.simps) (auto simp: eq_commute)
  qed
  then have "CHR ''/'' \<notin> set (int_digits i)" by (simp add: int_digits_def)
  then show ?thesis by (intro plain_name_ext) auto
qed

section \<open>Properties\<close>

text \<open>
  C28. Storing a block: whatever the operating system does, only the file of the block's key changes.
  A write that succeeds makes \<^verbatim>\<open>Get\<close> return the block; one that fails without effect leaves what was
  there; one that fails half-way is reported as an error and leaves a truncated block behind that
  \<^verbatim>\<open>Get\<close> returns under the full block's key.
\<close>

theorem Store_Put_then_Get:
  assumes "slash_free (CID b)" and "\<forall>k. slash_free k \<longrightarrow> \<not> os_read_fails os (blockPath s k)"
    and "Store_Put os s b fs = (err, fs')"
  shows "(case os_write os (blockPath s (CID b)) of
       WriteOk \<Rightarrow> err = None \<and> Store_Get os s (CID b) fs' = Inr b
     | WriteFail \<Rightarrow> err = Some (WriteBlock (CID b)) \<and> Store_Get os s (CID b) fs' = Store_Get os s (CID b) fs
     | WritePartial n \<Rightarrow> err = Some (WriteBlock (CID b))
         \<and> Store_Get os s (CID b) fs' = Inr \<lparr>CID = CID b, Data = take n (Data b)\<rparr>)
    \<and> (\<forall>k. slash_free k \<and> k \<noteq> CID b \<longrightarrow> Store_Get os s k fs' = Store_Get os s k fs)
    \<and> (\<forall>k. slash_free k \<longrightarrow> GetManifest unmarshal os s k fs' = GetManifest unmarshal os s k fs)"
proof -
  have fs': "fs' = snd (Store_Put os s b fs)" and err: "err = fst (Store_Put os s b fs)"
    using assms(3) by simp_all
  have "Store_Get os s k fs' = Store_Get os s k fs" if "slash_free k" "k \<noteq> CID b" for k
    using that assms Store_Put_other [of b k s os fs] by (simp add: Store_Get_lookup fs')
  moreover have "GetManifest unmarshal os s k fs' = GetManifest unmarshal os s k fs" if "slash_free k" for k
    using block_not_manifest [OF assms(1) that, of s]
    by (simp add: GetManifest_def os_ReadFile_def fs' Store_Put_cases fun_upd_def eq_commute split: write_outcome.split)
  moreover have "case os_write os (blockPath s (CID b)) of
       WriteOk \<Rightarrow> err = None \<and> Store_Get os s (CID b) fs' = Inr b
     | WriteFail \<Rightarrow> err = Some (WriteBlock (CID b)) \<and> Store_Get os s (CID b) fs' = Store_Get os s (CID b) fs
     | WritePartial n \<Rightarrow> err = Some (WriteBlock (CID b))
         \<and> Store_Get os s (CID b) fs' = Inr \<lparr>CID = CID b, Data = take n (Data b)\<rparr>"
    using assms by (auto simp: Store_Get_lookup store_lookup_def fs' err Store_Put_cases split: write_outcome.split)
  ultimately show ?thesis by blast
qed

definition wit_store :: Store where
  "wit_store = \<lparr>dir = path_Join [''d'', ''blocks''], pins = (\<lambda>_. None), pinFile = path_Join [''d'', ''pins.json'']\<rparr>"

definition wit_disk_full :: os where
  "wit_disk_full = os_ok\<lparr>os_write := \<lambda>_. WritePartial 1\<rparr>"

theorem Store_Put_then_Get_witness:
  "Store_Get wit_disk_full wit_store ''k'' (snd (Store_Put wit_disk_full wit_store \<lparr>CID = ''k'', Data = [1, 2]\<rparr> (\<lambda>_. None)))
     = Inr \<lparr>CID = ''k'', Data = [1]\<rparr>"
proof -
  obtain err fs' where p: "Store_Put wit_disk_full wit_store \<lparr>CID = ''k'', Data = [1, 2]\<rparr> (\<lambda>_. None) = (err, fs')"
    by fastforce
  have "Store_Get wit_disk_full wit_store ''k'' fs' = Inr \<lparr>CID = ''k'', Data = [1]\<rparr>"
    using Store_Put_then_Get [OF _ _ p] by (simp add: wit_disk_full_def os_ok_def slash_free_def)
  with p show ?thesis by simp
qed

text \<open>
  Distinct keys without a slash (all keys the node computes are such) have distinct block files,
  and no block file is a manifest or the pin file.
\<close>

lemma store_paths_disjoint:
  assumes "slash_free k" and "slash_free k'"
  shows "(blockPath s k = blockPath s k' \<longleftrightarrow> k = k') \<and> (manifestPath s k = manifestPath s k' \<longleftrightarrow> k = k')
    \<and> blockPath s k \<noteq> manifestPath s k' \<and> blockPath s k \<noteq> path_Join [dataDir, ''pins.json'']"
  using assms by (simp add: blockPath_inject manifestPath_inject block_not_manifest block_not_pins)



definition ascii :: "string \<Rightarrow> bool" where
  "ascii s \<longleftrightarrow> (\<forall>c\<in>set s. of_char c < (128::nat))"

lemma ascii_hex_encode [simp]: "ascii (hex_encode bs)"
proof (induction bs)
  case (Cons b bs)
  have "unat b div 16 < 16" using unat_byte_bound [of b] by simp
  moreover have "(of_char (hex_digit n) :: nat) < 128" if "n < 16" for n using that by (simp add: hex_digit_def)
  ultimately show ?case using Cons by (auto simp: ascii_def)
qed (simp add: ascii_def)

lemma ascii_ComputeCID [simp]: "ascii (ComputeCID d)"
  by (simp add: ComputeCID_def)

text \<open>
  C29. Pins are durable: when \<^verbatim>\<open>Pin\<close> (or \<^verbatim>\<open>Unpin\<close>) reports no error, a store opened on the same data
  directory afterwards has exactly the pins of the old one with the key added (removed), given
  that the JSON encoding of a list of ASCII strings reads back and the keys are ASCII.
\<close>

theorem pins_durable:
  assumes "store_at dataDir s"
    and json: "\<forall>ps. (\<forall>p\<in>set ps. ascii p) \<longrightarrow> (\<exists>d. marshal ps = Some d \<and> unmarshal d = Some ps)"
    and "\<forall>p\<in>insert k (dom (pins s)). ascii p" and "distinct iter" and "insert k (dom (pins s)) \<subseteq> set iter"
    and "\<not> os_mkdir_fails os' (dir s)" and "\<not> os_read_fails os' (pinFile s)"
  shows "(\<forall>s' fs'. Store_Pin marshal iter os s k fs = (None, s', fs') \<longrightarrow>
      (\<exists>t. NewStore unmarshal os' dataDir fs' = Inr t \<and> (\<forall>c. Store_IsPinned t c \<longleftrightarrow> c = k \<or> Store_IsPinned s c)))
    \<and> (\<forall>s' fs'. Store_Unpin marshal iter os s k fs = (None, s', fs') \<longrightarrow>
      (\<exists>t. NewStore unmarshal os' dataDir fs' = Inr t \<and> (\<forall>c. Store_IsPinned t c \<longleftrightarrow> c \<noteq> k \<and> Store_IsPinned s c)))"
proof -
  have reload: "\<exists>t. NewStore unmarshal os' dataDir fs' = Inr t \<and> (\<forall>c. Store_IsPinned t c = Store_IsPinned s' c)"
    if "store_at dataDir s'" "dom (pins s') \<subseteq> insert k (dom (pins s))" "savePins marshal iter os s' fs = (None, fs')"
      "dir s' = dir s" "pinFile s' = pinFile s" for s' fs'
  proof -
    have en: "enumerates iter (pins s')" using that(2) assms(4,5) by (auto simp: enumerates_def)
    then have "\<forall>p\<in>set (map_range iter (pins s')). ascii p" using that(2) assms(3) by (auto simp: set_map_range)
    with json obtain d where "marshal (map_range iter (pins s')) = Some d"
      "unmarshal d = Some (map_range iter (pins s'))" by blast
    then show ?thesis using savePins_reload [OF that(1) en _ _ that(3), of d unmarshal os'] that(4,5) assms(6,7) by simp
  qed
  have pin: "\<exists>t. NewStore unmarshal os' dataDir fs' = Inr t \<and> (\<forall>c. Store_IsPinned t c \<longleftrightarrow> c = k \<or> Store_IsPinned s c)"
    if p: "Store_Pin marshal iter os s k fs = (None, s', fs')" for s' fs'
    using reload [of s' fs'] store_at_Pin [OF assms(1), of marshal iter os k fs] p
      pinset.pinned_pin [of marshal iter os "(s, fs)" k]
    by (auto simp: Store_Pin_def Let_def split: prod.splits)
  have unpin: "\<exists>t. NewStore unmarshal os' dataDir fs' = Inr t \<and> (\<forall>c. Store_IsPinned t c \<longleftrightarrow> c \<noteq> k \<and> Store_IsPinned s c)"
    if p: "Store_Unpin marshal iter os s k fs = (None, s', fs')" for s' fs'
    using reload [of s' fs'] store_at_Unpin [OF assms(1), of marshal iter os k fs] p
      pinset.pinned_unpin [of marshal iter os "(s, fs)" k] subset_insertI2 [OF Diff_subset, of "dom (pins s)" "{k}" k]
    by (auto simp: Store_Unpin_def Let_def split: prod.splits)
  show ?thesis using pin unpin by blast
qed

text \<open>A list codec for the witness: every character is preceded by 1, every string ends with 0.\<close>

definition wit_marshal :: "string list \<Rightarrow> bytes option" where
  "wit_marshal ps = Some (concat (map (\<lambda>p. concat (map (\<lambda>c. [1, of_nat (of_char c)]) p) @ [0]) ps))"

fun wit_unmarshal :: "bytes \<Rightarrow> string list option" where
  "wit_unmarshal [] = Some []"
| "wit_unmarshal [b] = (if b = 0 then Some [[]] else None)"
| "wit_unmarshal (b # c # bs) =
     (if b = 0 then map_option ((#) []) (wit_unmarshal (c # bs))
      else case wit_unmarshal bs of Some (p # ps) \<Rightarrow> Some ((char_of (unat c) # p) # ps) | _ \<Rightarrow> None)"

lemma wit_unmarshal_0: "wit_unmarshal (0 # bs) = map_option ((#) []) (wit_unmarshal bs)"
  by (cases bs) simp_all

lemma wit_json: "\<exists>d. wit_marshal ps = Some d \<and> wit_unmarshal d = Some ps"
proof -
  have char: "char_of (unat (of_nat (of_char c) :: byte)) = c" for c
    using string_of_bytes_of_string [of "[c]"] by (simp add: string_of_bytes_def bytes_of_string_def)
  have str: "wit_unmarshal bs = Some qs \<Longrightarrow>
      wit_unmarshal (concat (map (\<lambda>c. [1, of_nat (of_char c)]) p) @ 0 # bs) = Some (p # qs)" for p bs qs
    by (induction p) (simp_all add: wit_unmarshal_0 char)
  have "wit_unmarshal (concat (map (\<lambda>p. concat (map (\<lambda>c. [1, of_nat (of_char c)]) p) @ [0]) ps)) = Some ps"
    by (induction ps) (simp_all add: str)
  then show ?thesis by (simp add: wit_marshal_def)
qed

lemma wit_store_at: "store_at ''d'' wit_store"
  by (simp add: store_at_def wit_store_def ran_def)

theorem pins_durable_witness:
  "\<exists>s' fs' t. Store_Pin wit_marshal [''k''] os_ok wit_store ''k'' (\<lambda>_. None) = (None, s', fs')
     \<and> NewStore wit_unmarshal os_ok ''d'' fs' = Inr t \<and> Store_IsPinned t ''k''"
proof -
  obtain s' fs' where p: "Store_Pin wit_marshal [''k''] os_ok wit_store ''k'' (\<lambda>_. None) = (None, s', fs')"
    by (simp add: Store_Pin_def savePins_def Let_def wit_marshal_def os_WriteFile_def os_ok_def)
  have "dom (pins wit_store) = {}" "ascii ''k''" by (simp_all add: wit_store_def ascii_def)
  then have "\<exists>t. NewStore wit_unmarshal os_ok ''d'' fs' = Inr t \<and> (\<forall>c. Store_IsPinned t c \<longleftrightarrow> c = ''k'' \<or> Store_IsPinned wit_store c)"
    using pins_durable [where unmarshal = wit_unmarshal and marshal = wit_marshal and iter = "[''k'']" and k = "''k''"
        and os = os_ok and os' = os_ok and s = wit_store and dataDir = "''d''" and fs = "\<lambda>_. None"] wit_store_at p
    by (auto simp: wit_json os_ok_def)
  with p show ?thesis by blast
qed

text \<open>
  Once a key is pinned in the store, the cache keeps its block: whatever sequence of other
  blocks is inserted, with the store as the pin checker, a lookup of the pinned key gives what it gave
  before.
\<close>

lemma pinned_in_cache:
  assumes "lru_wf c" and "pinChecker c" and "k \<notin> CID ` set bs"
    and "Store_Pin marshal iter os s k fs = (err, s', fs')"
    and "foldl (\<lambda>oc b. Option.bind oc (\<lambda>c. LRUCache_Put (Store_IsPinned s') c b)) (Some c) bs = Some c'"
  shows "fst (LRUCache_Get c' k) = fst (LRUCache_Get c k)"
  using pinset.pinned_survives [of c k bs marshal iter os "(s, fs)" c'] assms by simp

text \<open>
  A fragment that was stored is read back under its parent and index, through the nested path on
  writing and the flat one on reading.
\<close>

lemma fragment_roundtrip:
  assumes "slash_free parent" and "parent \<notin> {[], ''.'', ''..''}"
    and "PutFragment os s parent i data fs = (None, fs')" and "\<not> os_read_fails os (fragPath s parent i)"
  shows "GetFragment os s parent i fs' = Inr data"
proof -
  have "path_Join [dir s, ''fragments'', parent, int_digits i @ ''.frag''] = fragPath s parent i"
    unfolding fragPath_def using assms(1,2)
    by (subst path_Join_nested) (simp_all add: plain_name_def [of parent] frag_name_plain slash_free_def, simp add: plain_name_def)
  moreover have "fs' (fragPath s parent i) = Some data"
    using assms(3) by (auto simp: PutFragment_def os_WriteFile_def split: if_splits write_outcome.splits)
  ultimately show ?thesis using assms(4) by (simp add: GetFragment_def os_ReadFile_def)
qed

end
