(* ===== verification/Block_Transfer.thy ===== *)
theory Block_Transfer
  imports Store
begin

text \<open>
  The block transfer and block push protocols (\<^verbatim>\<open>internal/protocol/blocktransfer.go\<close>). A stream
  handler maps the bytes the peer sends before it closes its side to the bytes written back, and
  updates the node's cache and disk; \<open>None\<close> is a handler that never returns (the cache's \<^verbatim>\<open>Put\<close>
  may not). A client is run against an arbitrary peer: \<open>peer\<close> maps the request to the bytes that
  arrive before the stream ends, or \<open>None\<close> when the stream cannot be opened or written.
\<close>

section \<open>Serving blocks\<close>

text \<open>
  \<open>read_cid\<close> is the head both handlers share: a two-byte length, at most 1024, and the identifier.
\<close>

definition read_cid :: "bytes \<Rightarrow> (cid \<times> bytes) option" where
  "read_cid s =
     (case ReadFull 2 s of
        None \<Rightarrow> None
      | Some (l, s1) \<Rightarrow>
          (let cidLen = (word_be_dec l :: u16) in
           if cidLen > 1024 then None
           else case ReadFull (unat cidLen) s1 of
             None \<Rightarrow> None
           | Some (cidBuf, s2) \<Rightarrow> Some (string_of_bytes cidBuf, s2)))"

definition lookupBlock ::
  "os \<Rightarrow> Store \<Rightarrow> LRUCache option \<Rightarrow> file_system \<Rightarrow> cid \<Rightarrow> Block option \<times> LRUCache option" where
  "lookupBlock os st cache fs cid =
     (let (hit, cache') = (case cache of
            Some c \<Rightarrow> (case LRUCache_Get c cid of (r, c') \<Rightarrow> (r, Some c'))
          | None \<Rightarrow> (None, None))
      in case hit of
           Some block \<Rightarrow> (Some block, cache')
         | None \<Rightarrow> (case Store_Get os st cid fs of
               Inl err \<Rightarrow> (None, cache')
             | Inr block \<Rightarrow> (Some block, cache')))"

definition cache_put :: "(cid \<Rightarrow> bool) \<Rightarrow> LRUCache option \<Rightarrow> Block \<Rightarrow> LRUCache option option" where
  "cache_put IsPinned cache b =
     (case cache of None \<Rightarrow> Some None | Some c \<Rightarrow> map_option Some (LRUCache_Put IsPinned c b))"

definition BlockTransfer_handleStream ::
  "os \<Rightarrow> Store \<Rightarrow> (cid \<Rightarrow> bool) \<Rightarrow> LRUCache option \<Rightarrow> file_system \<Rightarrow> bytes \<Rightarrow> (bytes \<times> LRUCache option) option" where
  "BlockTransfer_handleStream os st IsPinned cache fs s =
     (case read_cid s of
        None \<Rightarrow> Some ([], cache)
      | Some (cid, _) \<Rightarrow>
          (case lookupBlock os st cache fs cid of
             (None, cache1) \<Rightarrow>
               (let errMsg = bytes_of_string (''block not found: '' @ cid)
                in Some ([0x00] @ word_be_enc (of_nat (length errMsg) :: u16) @ errMsg, cache1))
           | (Some block, cache1) \<Rightarrow>
               map_option (\<lambda>cache2.
                   ([0x01] @ word_be_enc (of_nat (length (Data block)) :: u32) @ Data block, cache2))
                 (cache_put IsPinned cache1 block)))"

section \<open>Receiving pushed blocks\<close>

definition BlockPush_handleStream ::
  "os \<Rightarrow> Store \<Rightarrow> (cid \<Rightarrow> bool) \<Rightarrow> LRUCache option \<Rightarrow> file_system \<Rightarrow> bytes \<Rightarrow>
     (bytes \<times> LRUCache option \<times> file_system) option" where
  "BlockPush_handleStream os st IsPinned cache fs s =
     (case read_cid s of
        None \<Rightarrow> Some ([], cache, fs)
      | Some (cid, s1) \<Rightarrow>
          (case ReadFull 4 s1 of
             None \<Rightarrow> Some ([], cache, fs)
           | Some (l, s2) \<Rightarrow>
               (let dataLen = (word_be_dec l :: u32) in
                if dataLen > 16 * 1024 * 1024 then Some ([], cache, fs)
                else case ReadFull (unat dataLen) s2 of
                  None \<Rightarrow> Some ([], cache, fs)
                | Some (data, _) \<Rightarrow>
                    (if ComputeCID data \<noteq> cid then Some ([0x00], cache, fs)
                     else let block = \<lparr>CID = cid, Data = data\<rparr>;
                              fs' = snd (Store_Put os st block fs)
                          in map_option (\<lambda>cache'. ([0x01], cache', fs')) (cache_put IsPinned cache block)))))"

section \<open>Clients\<close>

datatype push_error = PushStream | PushReadAck | PushRejected

definition push_request :: "Block \<Rightarrow> bytes" where
  "push_request block =
     (let cidBytes = bytes_of_string (CID block)
      in word_be_enc (of_nat (length cidBytes) :: u16) @ cidBytes
         @ word_be_enc (of_nat (length (Data block)) :: u32) @ Data block)"

definition PushBlock :: "(bytes \<Rightarrow> bytes option) \<Rightarrow> Block \<Rightarrow> push_error + unit" where
  "PushBlock peer block =
     (case peer (push_request block) of
        None \<Rightarrow> Inl PushStream
      | Some resp \<Rightarrow>
          (case ReadFull 1 resp of
             None \<Rightarrow> Inl PushReadAck
           | Some (ack, _) \<Rightarrow> if ack ! 0 \<noteq> 0x01 then Inl PushRejected else Inr ()))"

datatype fetch_error =
    FetchStream | ReadStatus | FetchNotFound string | ReadDataLength | ReadData | CIDMismatch cid cid

definition fetch_request :: "cid \<Rightarrow> bytes" where
  "fetch_request cid =
     (let cidBytes = bytes_of_string cid in word_be_enc (of_nat (length cidBytes) :: u16) @ cidBytes)"

text \<open>
  The not-found branch ignores read errors: a missing length counts as 0 and a short message is
  padded with zero bytes (the buffer's initial contents).
\<close>

definition read_error_message :: "bytes \<Rightarrow> string" where
  "read_error_message s =
     (case ReadFull 2 s of
        None \<Rightarrow> []
      | Some (l, s1) \<Rightarrow>
          (let n = unat (word_be_dec l :: u16)
           in string_of_bytes (take n s1 @ replicate (n - length s1) 0)))"

definition FetchBlock :: "(bytes \<Rightarrow> bytes option) \<Rightarrow> cid \<Rightarrow> fetch_error + Block" where
  "FetchBlock peer cid =
     (case peer (fetch_request cid) of
        None \<Rightarrow> Inl FetchStream
      | Some resp \<Rightarrow>
          (case ReadFull 1 resp of
             None \<Rightarrow> Inl ReadStatus
           | Some (status, s1) \<Rightarrow>
               (if status ! 0 = 0x00 then Inl (FetchNotFound (read_error_message s1))
                else case ReadFull 4 s1 of
                  None \<Rightarrow> Inl ReadDataLength
                | Some (l, s2) \<Rightarrow>
                    (case ReadFull (unat (word_be_dec l :: u32)) s2 of
                       None \<Rightarrow> Inl ReadData
                     | Some (data, _) \<Rightarrow>
                         (let computedCID = ComputeCID data in
                          if computedCID \<noteq> cid then Inl (CIDMismatch cid computedCID)
                          else Inr \<lparr>CID = cid, Data = data\<rparr>)))))"

section \<open>Lemmas\<close>

lemma unat_small: "n < 2 ^ LENGTH('a) \<Longrightarrow> unat (of_nat n :: 'a::len word) = n"
  by (rule unat_of_nat_small)

lemma read_cid_request:
  assumes "length cid \<le> 1024"
  shows "read_cid (fetch_request cid @ rest) = Some (cid, rest)"
proof -
  have u: "unat (of_nat (length cid) :: u16) = length cid" using assms by (intro unat_small) simp
  then have "\<not> (of_nat (length cid) :: u16) > 1024" using assms by (simp add: word_less_nat_alt)
  then show ?thesis using u by (simp add: read_cid_def fetch_request_def Let_def)
qed

lemma read_cid_long: "1024 < unat (word_be_dec l :: u16) \<Longrightarrow> length l = 2 \<Longrightarrow> read_cid (l @ s) = None"
  by (simp add: read_cid_def word_less_nat_alt)

text \<open>What is served for a key: the cache first, then the disk.\<close>

definition served :: "os \<Rightarrow> Store \<Rightarrow> LRUCache option \<Rightarrow> file_system \<Rightarrow> cid \<Rightarrow> Block option" where
  "served os st cache fs k =
     (case Option.bind cache (\<lambda>c. lru_lookup c k) of
        Some b \<Rightarrow> Some b
      | None \<Rightarrow> (case Store_Get os st k fs of Inl e \<Rightarrow> None | Inr b \<Rightarrow> Some b))"

definition cache_view :: "LRUCache option \<Rightarrow> cid \<Rightarrow> bytes option" where
  "cache_view cache k = Option.bind cache (\<lambda>c. map_option Data (lru_lookup c k))"

definition cache_ok :: "LRUCache option \<Rightarrow> bool" where
  "cache_ok cache \<longleftrightarrow> (\<forall>c. cache = Some c \<longrightarrow> lru_wf c)"

lemma lookupBlock_eq:
  "lookupBlock os st cache fs k =
     (served os st cache fs k, map_option (\<lambda>c. snd (LRUCache_Get c k)) cache)"
  by (cases cache)
     (auto simp: lookupBlock_def served_def Let_def split: option.splits sum.splits prod.splits
       dest: arg_cong [of _ _ fst])

lemma cache_view_Get [simp]: "cache_view (map_option (\<lambda>c. snd (LRUCache_Get c k)) cache) = cache_view cache"
  by (cases cache) (simp_all add: cache_view_def fun_eq_iff)

lemma cache_ok_Get: "cache_ok cache \<Longrightarrow> cache_ok (map_option (\<lambda>c. snd (LRUCache_Get c k)) cache)"
  by (auto simp: cache_ok_def intro: wf_intros)

lemma cache_put_ok: "cache_ok cache \<Longrightarrow> cache_put P cache b = Some cache' \<Longrightarrow> cache_ok cache'"
  by (auto simp: cache_put_def cache_ok_def split: option.splits intro: wf_LRUCache_Put)

lemma cache_put_view:
  assumes "cache_ok cache" and "cache_put P cache b = Some cache'"
  shows "cache_view cache' k \<in> (if k = CID b then {None, Some (Data b)} else {None, cache_view cache k})"
proof (cases cache)
  case None
  with assms show ?thesis by (simp add: cache_put_def cache_view_def)
next
  case (Some c)
  with assms obtain c' where c': "LRUCache_Put P c b = Some c'" "cache' = Some c'" "lru_wf c"
    by (auto simp: cache_put_def cache_ok_def)
  then show ?thesis
    using lru_lookup_Put(1) [OF c'(3,1)] lru_lookup_Put(2) [OF c'(3,1), of k] Some by (auto simp: cache_view_def)
qed

lemma served_key: "cache_ok cache \<Longrightarrow> served os st cache fs k = Some b \<Longrightarrow> CID b = k"
  by (cases cache) (auto simp: served_def cache_ok_def split: option.splits sum.splits
      dest: lru_lookup_CID Store_Get_SomeD)

lemma served_trusted:
  assumes "trusted (cache_view cache) slash_free" "trusted (store_lookup st fs) slash_free"
    and "served os st cache fs k = Some b" "slash_free k"
  shows "k = ComputeCID (Data b)"
  using assms by (cases cache)
    (auto simp: served_def trusted_def cache_view_def split: option.splits sum.splits dest!: Store_Get_SomeD)

lemma cache_put_trusted:
  assumes "cache_ok cache" "trusted (cache_view cache) slash_free" "cache_put P cache b = Some cache'"
    and "slash_free (CID b) \<longrightarrow> content_addressed b"
  shows "trusted (cache_view cache') slash_free"
proof -
  have "k = ComputeCID d" if "slash_free k" "cache_view cache' k = Some d" for k d
    using cache_put_view [OF assms(1,3), of k] that assms(2,4)
    by (auto simp: trusted_def content_addressed_def split: if_splits)
  then show ?thesis by (simp add: trusted_def)
qed

lemma Store_Put_trusted:
  assumes "trusted (store_lookup st fs) slash_free" "content_addressed b" "slash_free (CID b)"
    and "\<forall>n. os_write os (blockPath st (CID b)) \<noteq> WritePartial n"
  shows "trusted (store_lookup st (snd (Store_Put os st b fs))) slash_free"
proof (cases "os_write os (blockPath st (CID b))")
  case WriteOk
  then have "store_ins os st fs b = Some (snd (Store_Put os st b fs))"
    by (simp add: store_ins_eq Store_Put_cases)
  from disk.ins_trusted [OF _ assms(1) this assms(2,3)] show ?thesis by simp
qed (use assms in \<open>simp_all add: Store_Put_cases\<close>)

lemma push_handler_cases:
  assumes "BlockPush_handleStream os st P cache fs s = Some (resp, cache', fs')"
  obtains (ignored) "resp = []" "cache' = cache" "fs' = fs"
  | (rejected) "resp = [0]" "cache' = cache" "fs' = fs"
  | (stored) b where "resp = [1]" "content_addressed b" "slash_free (CID b)"
      "fs' = snd (Store_Put os st b fs)" "cache_put P cache b = Some cache'"
proof -
  have stored': thesis if "ComputeCID d = k" "cache_put P cache \<lparr>CID = k, Data = d\<rparr> = Some cache'" "resp = [1]"
      "fs' = snd (Store_Put os st \<lparr>CID = k, Data = d\<rparr> fs)" for k d
    using stored [of "\<lparr>CID = k, Data = d\<rparr>"] that by (auto simp: content_addressed_def)
  show thesis
    using assms stored' ignored rejected
    by (auto simp: BlockPush_handleStream_def Let_def split: option.splits prod.splits if_splits)
qed

lemma push_handler_request:
  assumes "length (CID b) \<le> 1024" "length (Data b) \<le> 16 * 1024 * 1024"
  shows "BlockPush_handleStream os st P cache fs (push_request b) =
    (if content_addressed b
     then map_option (\<lambda>cache'. ([1], cache', snd (Store_Put os st b fs))) (cache_put P cache b)
     else Some ([0], cache, fs))"
proof -
  have req: "push_request b = fetch_request (CID b) @ word_be_enc (of_nat (length (Data b)) :: u32) @ Data b"
    by (simp add: push_request_def fetch_request_def Let_def)
  have u: "unat (of_nat (length (Data b)) :: u32) = length (Data b)" using assms by (intro unat_small) simp
  then have "\<not> (of_nat (length (Data b)) :: u32) > 16777216" using assms by (simp add: word_less_nat_alt)
  then show ?thesis using assms u unfolding req
    by (cases b) (auto simp: BlockPush_handleStream_def read_cid_request Let_def content_addressed_def)
qed

lemma fetch_response_found:
  assumes "length (Data b) < 2 ^ 32" "content_addressed b"
    and "peer (fetch_request (CID b)) = Some ([1] @ word_be_enc (of_nat (length (Data b)) :: u32) @ Data b)"
  shows "FetchBlock peer (CID b) = Inr b"
proof -
  have u: "unat (of_nat (length (Data b)) :: u32) = length (Data b)" using assms by (intro unat_small) simp
  have "ReadFull (Suc 0) (1 # s) = Some ([1], s)" for s :: bytes by (simp add: ReadFull_def)
  with assms u show ?thesis by (simp add: FetchBlock_def content_addressed_def Let_def)
qed

lemma fetch_response_missing:
  assumes "length msg < 2 ^ 16"
    and "peer (fetch_request k) = Some ([0] @ word_be_enc (of_nat (length msg) :: u16) @ bytes_of_string msg)"
  shows "FetchBlock peer k = Inl (FetchNotFound msg)"
proof -
  have u: "unat (of_nat (length msg) :: u16) = length msg" using assms by (intro unat_small) simp
  have "ReadFull (Suc 0) (0 # s) = Some ([0], s)" for s :: bytes by (simp add: ReadFull_def)
  with assms u show ?thesis by (simp add: FetchBlock_def read_error_message_def Let_def)
qed

lemma FetchBlock_InrD: "FetchBlock peer cid = Inr b \<Longrightarrow> CID b = cid \<and> content_addressed b"
  by (auto simp: FetchBlock_def Let_def content_addressed_def split: option.splits if_splits)

lemma serve_keeps_trust:
  assumes "cache_ok cache" and "trusted (cache_view cache) slash_free" and "trusted (store_lookup st fs) slash_free"
    and "BlockTransfer_handleStream os st P cache fs s = Some (resp, cache')"
  shows "cache_ok cache' \<and> trusted (cache_view cache') slash_free"
proof (cases "read_cid s")
  case None
  with assms show ?thesis by (simp add: BlockTransfer_handleStream_def)
next
  case (Some kr)
  obtain k r where kr: "kr = (k, r)" by fastforce
  let ?c = "map_option (\<lambda>c. snd (LRUCache_Get c k)) cache"
  have ok: "cache_ok ?c" "trusted (cache_view ?c) slash_free" using assms by (simp_all add: cache_ok_Get)
  show ?thesis
  proof (cases "served os st cache fs k")
    case None
    with assms(4) Some kr ok show ?thesis
      by (auto simp: BlockTransfer_handleStream_def lookupBlock_eq Let_def)
  next
    case b: (Some b)
    with assms(4) Some kr have put: "cache_put P ?c b = Some cache'"
      by (auto simp: BlockTransfer_handleStream_def lookupBlock_eq)
    have "slash_free (CID b) \<longrightarrow> content_addressed b"
      using served_key [OF assms(1) b] served_trusted [OF assms(2,3) b] by (simp add: content_addressed_def)
    with put ok show ?thesis by (simp add: cache_put_ok cache_put_trusted [OF ok put])
  qed
qed

lemma push_keeps_trust:
  assumes "cache_ok cache" and "trusted (cache_view cache) slash_free" and "trusted (store_lookup st fs) slash_free"
    and "\<forall>p n. os_write os p \<noteq> WritePartial n" and "BlockPush_handleStream os st P cache fs s = Some (resp, cache', fs')"
  shows "cache_ok cache' \<and> trusted (cache_view cache') slash_free \<and> trusted (store_lookup st fs') slash_free"
  using assms(5)
proof (cases rule: push_handler_cases)
  case (stored b)
  with assms show ?thesis
    using cache_put_ok [OF assms(1) stored(5)] cache_put_trusted [OF assms(1,2) stored(5)]
      Store_Put_trusted [OF assms(3) stored(2,3)] by simp
qed (use assms in simp_all)

section \<open>Properties\<close>

text \<open>
  End to end: a client that fetches from a node running the handler gets the block when the
  node's cache or disk has it, and the handler's message when neither does, for identifiers of at
  most 1024 bytes without a slash and blocks whose length fits the 32-bit field, provided the node's
  cache and disk hold under each key the data the key is the hash of.
\<close>

lemma fetch_served:
  assumes "cache_ok cache" and "trusted (cache_view cache) slash_free" and "trusted (store_lookup st fs) slash_free"
    and "length cid \<le> 1024" and "slash_free cid"
    and "\<forall>b. served os st cache fs cid = Some b \<longrightarrow> length (Data b) < 2 ^ 32"
    and "BlockTransfer_handleStream os st P cache fs (fetch_request cid) = Some (resp, cache')"
  shows "FetchBlock (\<lambda>req. map_option fst (BlockTransfer_handleStream os st P cache fs req)) cid =
    (case served os st cache fs cid of
       Some b \<Rightarrow> Inr b
     | None \<Rightarrow> Inl (FetchNotFound (''block not found: '' @ cid)))"
proof (cases "served os st cache fs cid")
  case None
  have "read_cid (fetch_request cid) = Some (cid, [])" using read_cid_request [OF assms(4), of "[]"] by simp
  with None have "map_option fst (BlockTransfer_handleStream os st P cache fs (fetch_request cid)) =
      Some ([0] @ word_be_enc (of_nat (length (''block not found: '' @ cid)) :: u16) @ bytes_of_string (''block not found: '' @ cid))"
    by (simp add: BlockTransfer_handleStream_def lookupBlock_eq Let_def)
  from fetch_response_missing [of "''block not found: '' @ cid" "\<lambda>req. map_option fst (BlockTransfer_handleStream os st P cache fs req)", OF _ this]
  show ?thesis using None assms(4) by simp
next
  case (Some b)
  have "read_cid (fetch_request cid) = Some (cid, [])" using read_cid_request [OF assms(4), of "[]"] by simp
  with Some assms(7) have *: "map_option fst (BlockTransfer_handleStream os st P cache fs (fetch_request cid)) =
      Some ([1] @ word_be_enc (of_nat (length (Data b)) :: u32) @ Data b)"
    by (auto simp: BlockTransfer_handleStream_def lookupBlock_eq)
  have k: "CID b = cid" using served_key [OF assms(1) Some] .
  moreover have "content_addressed b"
    using served_trusted [OF assms(2,3) Some assms(5)] k by (simp add: content_addressed_def)
  ultimately show ?thesis
    using fetch_response_found [of b "\<lambda>req. map_option fst (BlockTransfer_handleStream os st P cache fs req)"] * assms(6) Some
    by auto
qed

text \<open>
  Pushing a block to a node succeeds exactly when the block's identifier is the hash of its
  data; a block that is accepted is then served from the node's disk if its file was written, and is
  in its cache. The acknowledgement is sent even when the disk refused the block.
\<close>

lemma push_to_node:
  assumes "length (CID b) \<le> 1024" and "length (Data b) \<le> 16 * 1024 * 1024"
    and "cache_put P cache b \<noteq> None" and "cache_ok cache"
  shows "PushBlock (\<lambda>req. map_option fst (BlockPush_handleStream os st P cache fs req)) b =
      (if content_addressed b then Inr () else Inl PushRejected)
    \<and> (content_addressed b \<longrightarrow> (\<exists>cache' fs'.
         BlockPush_handleStream os st P cache fs (push_request b) = Some ([1], cache', fs')
         \<and> (\<forall>c'. cache' = Some c' \<longrightarrow> fst (LRUCache_Get c' (CID b)) = Some b)
         \<and> (os_write os (blockPath st (CID b)) = WriteOk \<longrightarrow> store_lookup st fs' (CID b) = Some (Data b))))"
proof -
  obtain cache' where put: "cache_put P cache b = Some cache'" using assms(3) by blast
  have one: "ReadFull (Suc 0) [x] = Some ([x], [])" for x :: byte by (simp add: ReadFull_def)
  have hit: "fst (LRUCache_Get c' (CID b)) = Some b" if "cache' = Some c'" for c'
    using put that assms(4) by (auto simp: cache_put_def cache_ok_def split: option.splits dest: lru_lookup_Put(1))
  show ?thesis
  proof (intro conjI impI)
    show "PushBlock (\<lambda>req. map_option fst (BlockPush_handleStream os st P cache fs req)) b =
      (if content_addressed b then Inr () else Inl PushRejected)"
      using put by (simp add: PushBlock_def push_handler_request [OF assms(1,2)] one)
    assume "content_addressed b"
    then show "\<exists>cache' fs'.
         BlockPush_handleStream os st P cache fs (push_request b) = Some ([1], cache', fs')
         \<and> (\<forall>c'. cache' = Some c' \<longrightarrow> fst (LRUCache_Get c' (CID b)) = Some b)
         \<and> (os_write os (blockPath st (CID b)) = WriteOk \<longrightarrow> store_lookup st fs' (CID b) = Some (Data b))"
      using put hit by (simp add: push_handler_request [OF assms(1,2)] Store_Put_cases store_lookup_def)
  qed
qed

end
