(* ===== verification/Bloom.thy ===== *)
theory Bloom
  imports Go_Hash
begin

text \<open>
  Bloom filters for cache summaries (\<^verbatim>\<open>internal/cache/bloom.go\<close>): the filter with its 64-bit sizes
  and byte array, its wire format, and the per-peer store. Go's run-time panics (division by a zero
  size, an index past the array) are values of \<open>go_panic\<close>. Floating-point sizing uses exact reals.
\<close>

section \<open>State and operations\<close>

record BloomFilter =
  bits :: bytes
  bf_size :: u64
  numHash :: u64

definition NewBloomFilter :: "int \<Rightarrow> real \<Rightarrow> BloomFilter" where
  "NewBloomFilter expectedItems0 fpRate0 =
     (let expectedItems = (if expectedItems0 \<le> 0 then 100 else expectedItems0);
          fpRate = (if fpRate0 \<le> 0 \<or> fpRate0 \<ge> 1 then 1 / 100 else fpRate0);
          n = real_of_int expectedItems;
          m = - n * ln fpRate / (ln 2 * ln 2);
          size0 = (of_int \<lceil>m\<rceil> :: u64);
          size = (if size0 < 8 then 8 else size0);
          k0 = (of_int \<lceil>real (unat size) / n * ln 2\<rceil> :: u64);
          k = (if k0 < 1 then 1 else k0)
      in \<lparr>bits = replicate (unat ((size + 7) div 8)) 0, bf_size = size, numHash = k\<rparr>)"

definition writeUint :: "u64 \<Rightarrow> bytes" where
  "writeUint v = word_le_enc v"

text \<open>The hash of round \<open>i\<close>: FNV-1a over the round number and the key.\<close>

definition bloom_index :: "BloomFilter \<Rightarrow> string \<Rightarrow> u64 \<Rightarrow> u64" where
  "bloom_index bf key i = fnv64a (writeUint i @ bytes_of_string key) mod bf_size bf"

definition hashes :: "BloomFilter \<Rightarrow> string \<Rightarrow> go_panic + u64 list" where
  "hashes bf key =
     (if numHash bf = 0 then Inr []
      else if bf_size bf = 0 then Inl DivideByZero
      else Inr (map (\<lambda>i. bloom_index bf key (of_nat i)) [0..<unat (numHash bf)]))"

fun add_loop :: "u64 list \<Rightarrow> bytes \<Rightarrow> go_panic + bytes" where
  "add_loop [] bs = Inr bs"
| "add_loop (idx # is) bs =
     (let j = unat (idx div 8) in
      if j < length bs then add_loop is (bs[j := bs ! j OR push_bit (unat (idx mod 8)) 1])
      else Inl IndexOutOfRange)"

definition Bloom_Add :: "BloomFilter \<Rightarrow> string \<Rightarrow> go_panic + BloomFilter" where
  "Bloom_Add bf key =
     (case hashes bf key of
        Inl p \<Rightarrow> Inl p
      | Inr is \<Rightarrow> (case add_loop is (bits bf) of Inl p \<Rightarrow> Inl p | Inr bs \<Rightarrow> Inr (bf\<lparr>bits := bs\<rparr>)))"

fun contains_loop :: "u64 list \<Rightarrow> bytes \<Rightarrow> go_panic + bool" where
  "contains_loop [] bs = Inr True"
| "contains_loop (idx # is) bs =
     (let j = unat (idx div 8) in
      if j < length bs then
        (if bs ! j AND push_bit (unat (idx mod 8)) 1 = 0 then Inr False else contains_loop is bs)
      else Inl IndexOutOfRange)"

definition Bloom_Contains :: "BloomFilter \<Rightarrow> string \<Rightarrow> go_panic + bool" where
  "Bloom_Contains bf key =
     (case hashes bf key of Inl p \<Rightarrow> Inl p | Inr is \<Rightarrow> contains_loop is (bits bf))"

definition Bloom_Bytes :: "BloomFilter \<Rightarrow> bytes" where
  "Bloom_Bytes bf =
     word_le_enc (ucast (bf_size bf) :: u32) @ word_le_enc (ucast (numHash bf) :: u32) @ bits bf"

definition BloomFromBytes :: "bytes \<Rightarrow> BloomFilter option" where
  "BloomFromBytes data =
     (if length data < 8 then None
      else let size = (ucast (word_le_dec (take 4 data) :: u32) :: u64);
               nh = (ucast (word_le_dec (take 4 (drop 4 data)) :: u32) :: u64)
           in Some \<lparr>bits = drop 8 data, bf_size = size, numHash = nh\<rparr>)"

section \<open>The per-peer store\<close>

type_synonym PeerBloomStore = "peer_id \<Rightarrow> BloomFilter option"

definition NewPeerBloomStore :: PeerBloomStore where
  "NewPeerBloomStore = (\<lambda>_. None)"

definition PeerBloom_Set :: "PeerBloomStore \<Rightarrow> peer_id \<Rightarrow> BloomFilter \<Rightarrow> PeerBloomStore" where
  "PeerBloom_Set s p bf = s(p \<mapsto> bf)"

definition PeerMayHave :: "PeerBloomStore \<Rightarrow> peer_id \<Rightarrow> cid \<Rightarrow> go_panic + bool" where
  "PeerMayHave s p cid = (case s p of None \<Rightarrow> Inr False | Some bf \<Rightarrow> Bloom_Contains bf cid)"

definition PeerBloom_Remove :: "PeerBloomStore \<Rightarrow> peer_id \<Rightarrow> PeerBloomStore" where
  "PeerBloom_Remove s p = s(p := None)"

section \<open>Lemmas\<close>

definition bloom_wf :: "BloomFilter \<Rightarrow> bool" where
  "bloom_wf bf \<longleftrightarrow> bf_size bf \<noteq> 0 \<and> unat (bf_size bf) \<le> 8 * length (bits bf)"

text \<open>The set of bit positions that are on.\<close>

definition bit_on :: "bytes \<Rightarrow> u64 \<Rightarrow> bool" where
  "bit_on bs idx \<longleftrightarrow> unat (idx div 8) < length bs \<and> bit (bs ! unat (idx div 8)) (unat (idx mod 8))"

lemma unat_div8: "unat ((x :: u64) div 8) = unat x div 8" "unat ((x :: u64) mod 8) = unat x mod 8"
  by (simp_all add: unat_div unat_mod)

lemma index_lt: "bf_size bf \<noteq> 0 \<Longrightarrow> unat (bloom_index bf key i) < unat (bf_size bf)"
  by (simp add: bloom_index_def unat_mod unat_gt_0)

lemma index_in_range:
  assumes "bloom_wf bf"
  shows "unat (bloom_index bf key i div 8) < length (bits bf)"
  using index_lt [of bf key i] assms by (simp add: bloom_wf_def unat_div8 less_mult_imp_div_less)

lemma hashes_wf: "bloom_wf bf \<Longrightarrow>
  hashes bf key = Inr (map (\<lambda>i. bloom_index bf key (of_nat i)) [0..<unat (numHash bf)])"
  by (simp add: hashes_def bloom_wf_def)

lemma hashes_cong: "bf_size bf = bf_size bf' \<Longrightarrow> numHash bf = numHash bf' \<Longrightarrow> hashes bf key = hashes bf' key"
  by (simp add: hashes_def bloom_index_def)

lemma and_bit_zero: "(w :: byte) AND push_bit n 1 = 0 \<longleftrightarrow> \<not> bit w n"
  unfolding push_bit_of_1 by (rule and_exp_eq_0_iff_not_bit)

lemma bit_on_lt8: "unat ((idx :: u64) mod 8) < 8"
  by (simp add: unat_div8)

lemma bit_on_set:
  assumes "unat (idx div 8) < length bs"
  shows "bit_on (bs[unat (idx div 8) := bs ! unat (idx div 8) OR push_bit (unat (idx mod 8)) 1]) i
    \<longleftrightarrow> bit_on bs i \<or> i = idx"
proof -
  have "i = idx \<longleftrightarrow> unat (i div 8) = unat (idx div 8) \<and> unat (i mod 8) = unat (idx mod 8)"
    by (metis div_mult_mod_eq unat_div8 word_unat_eq_iff)
  then show ?thesis
    using assms bit_on_lt8 [of idx] bit_on_lt8 [of i]
    by (auto simp: bit_on_def nth_list_update bit_simps)
qed

lemma add_loop_ok:
  "\<forall>idx\<in>set is. unat (idx div 8) < length bs \<Longrightarrow>
   \<exists>bs'. add_loop is bs = Inr bs' \<and> length bs' = length bs
     \<and> (\<forall>i. bit_on bs' i \<longleftrightarrow> bit_on bs i \<or> i \<in> set is)"
proof (induction "is" bs rule: add_loop.induct)
  case (2 idx "is" bs)
  let ?bs = "bs[unat (idx div 8) := bs ! unat (idx div 8) OR push_bit (unat (idx mod 8)) 1]"
  have lt: "unat (idx div 8) < length bs" using 2 by simp
  have rest: "\<forall>idx\<in>set is. unat (idx div 8) < length ?bs" using "2.prems" by simp
  from "2.IH" [OF refl lt rest] obtain bs' where bs': "add_loop is ?bs = Inr bs'" "length bs' = length ?bs"
      "\<forall>i. bit_on bs' i \<longleftrightarrow> bit_on ?bs i \<or> i \<in> set is" by blast
  have "add_loop (idx # is) bs = Inr bs'" using bs'(1) lt by (simp only: add_loop.simps Let_def if_True)
  with bs' show ?case by (intro exI [of _ bs']) (auto simp only: bit_on_set [OF lt] length_list_update set_simps)
qed simp

lemma contains_loop_ok:
  "\<forall>idx\<in>set is. unat (idx div 8) < length bs \<Longrightarrow> contains_loop is bs = Inr (\<forall>i\<in>set is. bit_on bs i)"
proof (induction "is")
  case (Cons idx "is")
  then have lt: "unat (idx div 8) < length bs" by simp
  then have "contains_loop (idx # is) bs = (if bit_on bs idx then contains_loop is bs else Inr False)"
    by (simp only: contains_loop.simps Let_def and_bit_zero bit_on_def) simp
  with Cons show ?case by simp
qed simp

text \<open>The indices of a key.\<close>

definition bloom_indices :: "BloomFilter \<Rightarrow> string \<Rightarrow> u64 set" where
  "bloom_indices bf key = (\<lambda>i. bloom_index bf key (of_nat i)) ` {0..<unat (numHash bf)}"

lemma Add_wf:
  assumes "bloom_wf bf"
  shows "\<exists>bf'. Bloom_Add bf key = Inr bf' \<and> bloom_wf bf' \<and> bf_size bf' = bf_size bf \<and> numHash bf' = numHash bf
    \<and> length (bits bf') = length (bits bf)
    \<and> (\<forall>i. bit_on (bits bf') i \<longleftrightarrow> bit_on (bits bf) i \<or> i \<in> bloom_indices bf key)"
proof -
  let ?is = "map (\<lambda>i. bloom_index bf key (of_nat i)) [0..<unat (numHash bf)]"
  obtain bs' where "add_loop ?is (bits bf) = Inr bs'" "length bs' = length (bits bf)"
      "\<forall>i. bit_on bs' i \<longleftrightarrow> bit_on (bits bf) i \<or> i \<in> set ?is"
    using add_loop_ok [of ?is "bits bf"] index_in_range [OF assms] by auto
  then show ?thesis
    using assms by (auto simp: Bloom_Add_def hashes_wf bloom_wf_def bloom_indices_def)
qed

lemma Contains_wf:
  "bloom_wf bf \<Longrightarrow> Bloom_Contains bf key = Inr (\<forall>i\<in>bloom_indices bf key. bit_on (bits bf) i)"
  by (simp add: Bloom_Contains_def hashes_wf contains_loop_ok index_in_range bloom_indices_def)

text \<open>Adding a list of keys, as the node does for its cached blocks.\<close>

fun Bloom_AddAll :: "BloomFilter \<Rightarrow> string list \<Rightarrow> go_panic + BloomFilter" where
  "Bloom_AddAll bf [] = Inr bf"
| "Bloom_AddAll bf (k # ks) = (case Bloom_Add bf k of Inl p \<Rightarrow> Inl p | Inr bf' \<Rightarrow> Bloom_AddAll bf' ks)"

lemma bloom_indices_cong:
  "bf_size bf' = bf_size bf \<Longrightarrow> numHash bf' = numHash bf \<Longrightarrow> bloom_indices bf' k = bloom_indices bf k"
  by (simp add: bloom_indices_def bloom_index_def)

lemma AddAll_wf:
  "bloom_wf bf \<Longrightarrow> \<exists>bf'. Bloom_AddAll bf ks = Inr bf' \<and> bloom_wf bf' \<and> bf_size bf' = bf_size bf
    \<and> numHash bf' = numHash bf \<and> length (bits bf') = length (bits bf)
    \<and> (\<forall>i. bit_on (bits bf') i \<longleftrightarrow> bit_on (bits bf) i \<or> (\<exists>k\<in>set ks. i \<in> bloom_indices bf k))"
proof (induction ks arbitrary: bf)
  case (Cons k ks)
  obtain b1 where b1: "Bloom_Add bf k = Inr b1" "bloom_wf b1" "bf_size b1 = bf_size bf" "numHash b1 = numHash bf"
      "length (bits b1) = length (bits bf)"
      "\<forall>i. bit_on (bits b1) i \<longleftrightarrow> bit_on (bits bf) i \<or> i \<in> bloom_indices bf k"
    using Add_wf [OF Cons.prems] by blast
  with Cons.IH [OF b1(2)] show ?case by (auto simp: bloom_indices_cong [OF b1(3,4)])
qed auto

section \<open>Sizing\<close>

lemma unat_of_int_small:
  assumes "0 \<le> z" "z < 2 ^ LENGTH('a)"
  shows "unat (of_int z :: 'a::len word) = nat z"
proof -
  have "(of_int z :: 'a word) = of_nat (nat z)" using assms(1) by simp
  moreover have "nat z < 2 ^ LENGTH('a)" using assms by (simp add: nat_less_iff)
  ultimately show ?thesis by (simp only: unat_of_nat_small)
qed

text \<open>The bits per item for a rate of one percent: between 1 and 12.\<close>

lemma ln2_bounds: "3 / 5 \<le> ln (2::real)" "ln (2::real) < 1"
proof -
  have "exp (3 / 5 :: real) \<le> 1 + 3 / 5 + (3 / 5)\<^sup>2" by (rule exp_bound) simp_all
  also have "\<dots> \<le> 2" by (simp add: power2_eq_square)
  finally show "3 / 5 \<le> ln (2::real)" by (metis ln_ge_iff zero_less_numeral)
qed (rule ln_2_less_1)

lemma bits_per_item: "1 \<le> - ln (1 / 100 :: real) / (ln 2 * ln 2)" "- ln (1 / 100 :: real) / (ln 2 * ln 2) \<le> 12"
proof -
  have l: "- ln (1 / 100 :: real) = ln 100" by (simp add: ln_div)
  have "ln (100::real) \<le> ln (2 ^ 7)" by (intro ln_mono) simp_all
  also have "\<dots> = 7 * ln 2" by (subst ln_realpow) auto
  finally have up: "ln (100::real) \<le> 7 * ln 2" .
  have pos: "0 < ln 2 * ln (2::real)" using ln2_bounds(1) by simp
  have "7 * ln (2::real) \<le> 12 * (ln 2 * ln 2)"
    using ln2_bounds mult_left_mono [OF ln2_bounds(1), of "12 * ln 2"] by simp
  with up pos show "- ln (1 / 100 :: real) / (ln 2 * ln 2) \<le> 12"
    unfolding l by (subst pos_divide_le_eq) linarith+
  have "ln 2 * ln 2 \<le> 1 * (1::real)" using ln2_bounds by (intro mult_mono) simp_all
  also have "1 * (1::real) \<le> ln (2 ^ 2)" using ln2_bounds(1) by (subst ln_realpow) auto
  also have "\<dots> \<le> ln (100::real)" by (intro ln_mono) simp_all
  finally show "1 \<le> - ln (1 / 100 :: real) / (ln 2 * ln 2)"
    unfolding l using pos by (subst pos_le_divide_eq) linarith+
qed

lemma ceil_ratio_le:
  fixes n s :: real
  assumes "1 \<le> n" "s \<le> 12 * n + 8" "0 \<le> s"
  shows "\<lceil>s / n * ln 2\<rceil> \<le> 20"
proof -
  have "s / n * ln 2 \<le> s / n * 1" using assms ln2_bounds(2) by (intro mult_left_mono) auto
  also have "\<dots> \<le> 20" using assms by (simp add: pos_divide_le_eq)
  finally show ?thesis by (simp add: ceiling_le_iff)
qed

lemma NewBloomFilter_shape:
  assumes "0 < N" "N \<le> 650000"
  shows "bloom_wf (NewBloomFilter N (1 / 100))"
    and "8 \<le> unat (bf_size (NewBloomFilter N (1 / 100)))"
    and "unat (bf_size (NewBloomFilter N (1 / 100))) \<le> 7800000"
    and "1 \<le> unat (numHash (NewBloomFilter N (1 / 100)))"
    and "unat (numHash (NewBloomFilter N (1 / 100))) \<le> 20"
    and "length (bits (NewBloomFilter N (1 / 100))) = (unat (bf_size (NewBloomFilter N (1 / 100))) + 7) div 8"
proof -
  let ?n = "real_of_int N" and ?q = "- ln (1 / 100 :: real) / (ln 2 * ln 2)"
  let ?m = "- ?n * ln (1 / 100) / (ln 2 * ln 2)"
  define size0 where "size0 = (of_int \<lceil>?m\<rceil> :: u64)"
  define size where "size = (if size0 < 8 then 8 else size0)"
  define k0 where "k0 = (of_int \<lceil>real (unat size) / ?n * ln 2\<rceil> :: u64)"
  define k where "k = (if k0 < 1 then 1 else k0)"
  have bf: "NewBloomFilter N (1 / 100) = \<lparr>bits = replicate (unat ((size + 7) div 8)) 0, bf_size = size, numHash = k\<rparr>"
    using assms unfolding size0_def k0_def size_def k_def NewBloomFilter_def Let_def by simp
  have m: "?m = ?n * ?q" by simp
  have n1: "1 \<le> ?n" using assms(1) by simp
  have mb: "?n \<le> ?m" "?m \<le> 12 * ?n"
    unfolding m using n1 mult_left_mono [OF bits_per_item(1), of ?n] mult_left_mono [OF bits_per_item(2), of ?n] by simp_all
  have "?n \<le> 650000" using assms(2) by simp
  then have "0 \<le> ?m" "?m \<le> 7800000" using mb n1 by linarith+
  then have c: "0 \<le> \<lceil>?m\<rceil>" "\<lceil>?m\<rceil> \<le> 7800000" by linarith+
  have s0: "unat size0 = nat \<lceil>?m\<rceil>" unfolding size0_def using c by (intro unat_of_int_small) simp_all
  have us: "unat size = max 8 (nat \<lceil>?m\<rceil>)" using s0 by (auto simp: size_def word_less_nat_alt max_def)
  then have szle: "unat size \<le> 7800000" "8 \<le> unat size" using c by (auto simp: max_def)
  have "real (unat size) \<le> 12 * ?n + 8"
    using us mb(2) n1 by (auto simp: max_def split: if_splits) linarith+
  then have kc: "\<lceil>real (unat size) / ?n * ln 2\<rceil> \<le> 20"
    by (rule ceil_ratio_le [OF n1]) (rule of_nat_0_le_iff)
  have "0 \<le> real (unat size) / ?n * ln 2"
    using n1 ln2_bounds(1) by (intro mult_nonneg_nonneg divide_nonneg_nonneg of_nat_0_le_iff) linarith+
  then have "0 \<le> \<lceil>real (unat size) / ?n * ln 2\<rceil>" by linarith
  with kc have k0: "unat k0 \<le> 20" unfolding k0_def by (subst unat_of_int_small) auto
  have kb: "1 \<le> unat k" "unat k \<le> 20" using k0 by (auto simp: k_def word_less_nat_alt)
  have "unat (size + 7) = unat size + 7" using szle by (subst unat_add_lem [THEN iffD1]) simp_all
  then have len: "unat ((size + 7) div 8) = (unat size + 7) div 8" by (simp add: unat_div8)
  show "bloom_wf (NewBloomFilter N (1 / 100))" "8 \<le> unat (bf_size (NewBloomFilter N (1 / 100)))"
    "unat (bf_size (NewBloomFilter N (1 / 100))) \<le> 7800000" "1 \<le> unat (numHash (NewBloomFilter N (1 / 100)))"
    "unat (numHash (NewBloomFilter N (1 / 100))) \<le> 20"
    "length (bits (NewBloomFilter N (1 / 100))) = (unat (bf_size (NewBloomFilter N (1 / 100))) + 7) div 8"
    unfolding bf using szle kb len by (auto simp: bloom_wf_def)
qed

section \<open>The wire format\<close>

lemma ucast_small:
  assumes "unat (w :: u64) < 2 ^ 32"
  shows "ucast (ucast w :: u32) = w"
proof -
  have "unat (ucast w :: u32) = unat w" using assms by (simp add: unsigned_ucast_eq unsigned_take_bit_eq take_bit_nat_eq_self_iff)
  then have "unat (ucast (ucast w :: u32) :: u64) = unat w"
    using assms by (simp add: unsigned_ucast_eq unsigned_take_bit_eq take_bit_nat_eq_self_iff)
  then show ?thesis by (simp add: word_unat_eq_iff)
qed

lemma Bloom_wire:
  assumes "unat (bf_size bf) < 2 ^ 32" "unat (numHash bf) < 2 ^ 32"
  shows "BloomFromBytes (Bloom_Bytes bf) = Some bf"
  using assms by (simp add: BloomFromBytes_def Bloom_Bytes_def Let_def ucast_small)

lemma length_Bloom_Bytes: "length (Bloom_Bytes bf) = 8 + length (bits bf)"
  by (simp add: Bloom_Bytes_def)

section \<open>Properties\<close>

text \<open>
  C27. A Bloom filter has no false negatives and never panics on its own keys: on a well-formed
  filter, adding any list of keys succeeds, and afterwards every one of them, and every key that was
  reported before, is reported.
\<close>

theorem Bloom_no_false_negatives:
  assumes "bloom_wf bf"
  shows "\<exists>bf'. Bloom_AddAll bf keys = Inr bf' \<and> bloom_wf bf'
    \<and> (\<forall>k\<in>set keys. Bloom_Contains bf' k = Inr True)
    \<and> (\<forall>k. Bloom_Contains bf k = Inr True \<longrightarrow> Bloom_Contains bf' k = Inr True)"
proof -
  obtain bf' where bf': "Bloom_AddAll bf keys = Inr bf'" "bloom_wf bf'" "bf_size bf' = bf_size bf"
      "numHash bf' = numHash bf"
      "\<forall>i. bit_on (bits bf') i \<longleftrightarrow> bit_on (bits bf) i \<or> (\<exists>k\<in>set keys. i \<in> bloom_indices bf k)"
    using AddAll_wf [OF assms] by blast
  then show ?thesis
    using assms by (auto simp: Contains_wf bloom_indices_cong [OF bf'(3,4)])
qed

theorem Bloom_no_false_negatives_witness:
  "\<exists>bf'. Bloom_AddAll (NewBloomFilter 100 (1 / 100)) [''a'', ''b''] = Inr bf' \<and> Bloom_Contains bf' ''b'' = Inr True"
  using Bloom_no_false_negatives [OF NewBloomFilter_shape(1) [of 100], of "[''a'', ''b'']"] by auto

text \<open>
  The filter the node builds for up to 650000 items is well formed, has at least 8 bits and 1
  hash function and at most 20, its serialisation fits the one-megabyte limit of the summary
  protocol, and it reads back as the same filter.
\<close>

lemma NewBloomFilter_sound:
  assumes "0 < N" and "N \<le> 650000" and "bf = NewBloomFilter N (1 / 100)"
  shows "bloom_wf bf \<and> 8 \<le> unat (bf_size bf) \<and> 1 \<le> unat (numHash bf) \<and> unat (numHash bf) \<le> 20
    \<and> length (Bloom_Bytes bf) \<le> 2 ^ 20 \<and> BloomFromBytes (Bloom_Bytes bf) = Some bf"
proof -
  note shape = NewBloomFilter_shape [OF assms(1,2), folded assms(3)]
  have "length (Bloom_Bytes bf) \<le> 2 ^ 20" unfolding length_Bloom_Bytes shape(6) using shape(3) by simp
  moreover have "BloomFromBytes (Bloom_Bytes bf) = Some bf"
    using shape(3,5) by (intro Bloom_wire) simp_all
  ultimately show ?thesis using shape by blast
qed

text \<open>
  A filter received from a peer is used as it is: eight bytes that claim one hash function over a
  size of zero make every query for that peer panic with a division by zero, and eight bytes that
  claim a positive size with no bit array make every query index out of range.
\<close>

lemma untrusted_filter_panics:
  assumes "0 < (h :: u32)" and "0 < (n :: u32)"
  shows "(\<exists>bf. BloomFromBytes (word_le_enc (0 :: u32) @ word_le_enc h) = Some bf
      \<and> PeerMayHave (PeerBloom_Set s p bf) p cid = Inl DivideByZero)
    \<and> (\<exists>bf. BloomFromBytes (word_le_enc n @ word_le_enc h) = Some bf
      \<and> PeerMayHave (PeerBloom_Set s p bf) p cid = Inl IndexOutOfRange)"
proof -
  have pos: "(ucast w :: u64) \<noteq> 0" if "0 < w" for w :: u32
  proof -
    have "unat (ucast w :: u64) = unat w"
      using unat_bound [of w] by (simp add: unsigned_ucast_eq unsigned_take_bit_eq take_bit_nat_eq_self_iff)
    with that show ?thesis by (auto simp: word_less_nat_alt)
  qed
  have two: "\<exists>k. unat (ucast h :: u64) = Suc k" using pos [OF assms(1)] by (metis not0_implies_Suc unat_eq_zero)
  have first: "[0..<Suc k] = 0 # [1..<Suc k]" for k by (simp add: upt_rec)
  show ?thesis
    using pos [OF assms(1)] pos [OF assms(2)] two
    by (auto simp: BloomFromBytes_def Let_def PeerMayHave_def PeerBloom_Set_def Bloom_Contains_def hashes_def first
        simp del: upt_Suc)
qed

end
