(* ===== verification/Cache_Summary.thy ===== *)
theory Cache_Summary
  imports Bloom LRU_Spec
begin

text \<open>
  The exchange of cache summaries: the wire protocol (\<^verbatim>\<open>internal/protocol/cachesummary.go\<close>), what a
  node broadcasts (\<^verbatim>\<open>broadcastCacheSummary\<close> in \<^verbatim>\<open>internal/node/node.go\<close>) and what it does with a
  summary it receives (the \<^verbatim>\<open>OnReceive\<close> callback set up in \<^verbatim>\<open>Start\<close>).
\<close>

section \<open>Operations\<close>

text \<open>The data handed to \<^verbatim>\<open>OnReceive\<close>, if any.\<close>

definition CacheSummary_handler :: "bytes \<Rightarrow> bytes option" where
  "CacheSummary_handler s =
     (case ReadFull 4 s of
        None \<Rightarrow> None
      | Some (l, s1) \<Rightarrow>
          (let len = (word_le_dec l :: u32) in
           if len > 2 ^ 20 then None
           else map_option fst (ReadFull (unat len) s1)))"

definition SendCacheSummary :: "bytes \<Rightarrow> bytes" where
  "SendCacheSummary data = word_le_enc (of_nat (length data) :: u32) @ data"

definition OnReceive :: "PeerBloomStore \<Rightarrow> peer_id \<Rightarrow> bytes \<Rightarrow> PeerBloomStore" where
  "OnReceive blooms from data =
     (case BloomFromBytes data of None \<Rightarrow> blooms | Some bf \<Rightarrow> PeerBloom_Set blooms from bf)"

text \<open>
  The messages of one broadcast: to every connected peer but the node itself, the same data; none
  when the cache is empty. \<open>iter\<close> is the order in which the cache's index is traversed.
\<close>

definition broadcastCacheSummary ::
  "cid list \<Rightarrow> LRUCache option \<Rightarrow> peer_id \<Rightarrow> peer_id list \<Rightarrow> go_panic + (peer_id \<times> bytes) list" where
  "broadcastCacheSummary iter cache self peers =
     (case cache of
        None \<Rightarrow> Inr []
      | Some c \<Rightarrow>
          (let cids = LRUCache_CIDs iter c in
           if length cids = 0 then Inr []
           else case Bloom_AddAll (NewBloomFilter (max (int (length cids)) 100) (1 / 100)) cids of
                  Inl p \<Rightarrow> Inl p
                | Inr bf \<Rightarrow> (let data = Bloom_Bytes bf
                    in Inr (map (\<lambda>p. (p, SendCacheSummary data)) (filter (\<lambda>p. p \<noteq> self) peers)))))"

text \<open>A peer's handling of a stream.\<close>

definition receive_summary :: "PeerBloomStore \<Rightarrow> peer_id \<Rightarrow> bytes \<Rightarrow> PeerBloomStore" where
  "receive_summary blooms from s =
     (case CacheSummary_handler s of None \<Rightarrow> blooms | Some data \<Rightarrow> OnReceive blooms from data)"

section \<open>Lemmas\<close>

lemma handler_SendCacheSummary:
  assumes "length data \<le> 2 ^ 20"
  shows "CacheSummary_handler (SendCacheSummary data) = Some data"
proof -
  have u: "unat (of_nat (length data) :: u32) = length data" using assms by (intro unat_of_nat_small) simp
  then have "\<not> (of_nat (length data) :: u32) > 2 ^ 20" using assms by (simp add: word_less_nat_alt)
  then show ?thesis using u by (simp add: CacheSummary_handler_def SendCacheSummary_def Let_def)
qed

lemma handler_too_large:
  assumes "2 ^ 20 < length data" "length data < 2 ^ 32"
  shows "CacheSummary_handler (SendCacheSummary data) = None"
proof -
  have u: "unat (of_nat (length data) :: u32) = length data" using assms by (intro unat_of_nat_small) simp
  then have "(of_nat (length data) :: u32) > 2 ^ 20" using assms by (simp add: word_less_nat_alt)
  then show ?thesis by (simp add: CacheSummary_handler_def SendCacheSummary_def Let_def)
qed

lemma handler_bound: "CacheSummary_handler s = Some data \<Longrightarrow> length data \<le> 2 ^ 20"
  by (auto simp: CacheSummary_handler_def Let_def ReadFull_Some_iff word_less_nat_alt split: option.splits if_splits)

lemma set_LRUCache_CIDs:
  "lru_wf c \<Longrightarrow> enumerates iter (items c) \<Longrightarrow> set (LRUCache_CIDs iter c) = {k. lru_lookup c k \<noteq> None}"
  by (simp add: LRUCache_CIDs_def set_map_range lru_lookup_def dom_def)

lemma length_LRUCache_CIDs:
  assumes "lru_wf c" "enumerates iter (items c)"
  shows "length (LRUCache_CIDs iter c) = LRUCache_Len c"
proof -
  have "length (LRUCache_CIDs iter c) = card (dom (items c))"
    using assms by (simp add: LRUCache_CIDs_def set_map_range distinct_map_range flip: distinct_card)
  also have "dom (items c) = (\<lambda>e. ce_key (elems c e)) ` set (eviction c)"
    using lru_wfD(3) [OF assms(1)] by (auto simp: dom_def)
  also have "card \<dots> = card (set (eviction c))"
    using keys_unique [OF assms(1)] by (intro card_image) (auto simp: inj_on_def)
  finally show ?thesis using lru_wfD(1) [OF assms(1)] by (simp add: LRUCache_Len_def distinct_card)
qed

section \<open>Properties\<close>

text \<open>
  C26. Cooperative caching end to end: when a node with a well-formed cache of 1 to 650000 blocks
  broadcasts, it does not panic, every other connected peer is sent one message, and after handling it
  that peer's store says that the sender may have each block that is cached.
\<close>

theorem summary_end_to_end:
  assumes "lru_wf c" and "enumerates iter (items c)" and "1 \<le> LRUCache_Len c" and "LRUCache_Len c \<le> 650000"
  shows "\<exists>msgs. broadcastCacheSummary iter (Some c) self peers = Inr msgs
    \<and> map fst msgs = filter (\<lambda>p. p \<noteq> self) peers
    \<and> (\<forall>(p, m)\<in>set msgs. \<forall>k b. fst (LRUCache_Get c k) = Some b \<longrightarrow>
         PeerMayHave (receive_summary blooms self m) self k = Inr True)"
proof -
  let ?cids = "LRUCache_CIDs iter c"
  let ?N = "max (int (length ?cids)) 100"
  have len: "length ?cids = LRUCache_Len c" using assms by (simp add: length_LRUCache_CIDs)
  have N: "0 < ?N" "?N \<le> 650000" using assms len by auto
  note shape = NewBloomFilter_shape [OF N]
  obtain bf where bf: "Bloom_AddAll (NewBloomFilter ?N (1 / 100)) ?cids = Inr bf" "bloom_wf bf"
      "bf_size bf = bf_size (NewBloomFilter ?N (1 / 100))" "numHash bf = numHash (NewBloomFilter ?N (1 / 100))"
      "length (bits bf) = length (bits (NewBloomFilter ?N (1 / 100)))"
      "\<forall>i. bit_on (bits bf) i \<longleftrightarrow> bit_on (bits (NewBloomFilter ?N (1 / 100))) i
        \<or> (\<exists>k\<in>set ?cids. i \<in> bloom_indices (NewBloomFilter ?N (1 / 100)) k)"
    using AddAll_wf [OF shape(1)] by blast
  have wire: "BloomFromBytes (Bloom_Bytes bf) = Some bf" using shape(3,5) bf(3,4) by (intro Bloom_wire) simp_all
  have "length (Bloom_Bytes bf) \<le> 2 ^ 20" unfolding length_Bloom_Bytes bf(5) shape(6) using shape(3) by simp
  then have recv: "receive_summary blooms self (SendCacheSummary (Bloom_Bytes bf)) = PeerBloom_Set blooms self bf"
    by (simp add: receive_summary_def handler_SendCacheSummary OnReceive_def wire)
  have has: "PeerMayHave (PeerBloom_Set blooms self bf) self k = Inr True" if "lru_lookup c k = Some b" for k b
  proof -
    have "k \<in> set ?cids" using that assms by (simp add: set_LRUCache_CIDs)
    then show ?thesis
      using bf(2,6) bloom_indices_cong [OF bf(3,4), of k]
      by (auto simp: PeerMayHave_def PeerBloom_Set_def Contains_wf)
  qed
  have "?cids \<noteq> []" using len assms(3) by auto
  then have "broadcastCacheSummary iter (Some c) self peers =
      Inr (map (\<lambda>p. (p, SendCacheSummary (Bloom_Bytes bf))) (filter (\<lambda>p. p \<noteq> self) peers))"
    using bf(1) by (simp add: broadcastCacheSummary_def Let_def)
  then show ?thesis using recv has by (auto simp: comp_def)
qed

theorem summary_end_to_end_witness:
  "\<exists>msgs. broadcastCacheSummary [''a''] (Some wit_cache) ''self'' [''p'', ''self''] = Inr msgs \<and> map fst msgs = [''p'']"
proof -
  have "enumerates [''a''] (items wit_cache)" by (auto simp: enumerates_def wit_defs)
  moreover have "LRUCache_Len wit_cache = 1" by (simp add: LRUCache_Len_def wit_defs)
  ultimately show ?thesis
    using summary_end_to_end [OF wit_cache_wf, of "[''a'']" "''self''" "[''p'', ''self'']" NewPeerBloomStore] by auto
qed

text \<open>
  The receiver bounds what it accepts: a summary is handed on only if it is complete and at most
  one megabyte, exactly the bytes that were sent; a larger one is dropped.
\<close>

lemma summary_wire:
  assumes "length data < 2 ^ 32"
  shows "CacheSummary_handler (SendCacheSummary data) = (if length data \<le> 2 ^ 20 then Some data else None)
    \<and> (\<forall>s d. CacheSummary_handler s = Some d \<longrightarrow> length d \<le> 2 ^ 20)"
  using assms handler_SendCacheSummary [of data] handler_too_large [of data] handler_bound by auto

end
