(* ===== verification/Probing.thy ===== *)
theory Probing
  imports Prelude
begin

text \<open>
  The ping and path-probe protocols (\<^verbatim>\<open>internal/protocol/ping.go\<close>, \<^verbatim>\<open>probe.go\<close>). A handler maps the
  bytes received to the bytes sent back. A client runs against a network \<open>net\<close>: opening a stream to a
  peer fails (\<open>None\<close>) or gives the stream, which maps the request written to the bytes that arrive
  before it ends, or to \<open>None\<close> when writing fails. What the clock and the random source deliver to one call are arguments.
\<close>

section \<open>Ping\<close>

definition Ping_handleStream :: "bytes \<Rightarrow> bytes" where
  "Ping_handleStream s =
     (case ReadFull 8 s of
        None \<Rightarrow> []
      | Some (b, _) \<Rightarrow> (let ts = (word_be_dec b :: u64) in word_be_enc ts))"

datatype ping_error = PingStream | WritePing | ReadPong | TimestampMismatch u64 u64 | PingContext

record PingResult =
  pr_RTT :: duration
  pr_Peer :: peer_id
  pr_Err :: "ping_error option"

type_synonym network = "peer_id \<Rightarrow> (bytes \<Rightarrow> bytes option) option"

definition SendPing :: "network \<Rightarrow> u64 \<Rightarrow> duration \<Rightarrow> peer_id \<Rightarrow> PingResult" where
  "SendPing net ts elapsed target =
     (let result = \<lparr>pr_RTT = 0, pr_Peer = target, pr_Err = None\<rparr> in
      case net target of
        None \<Rightarrow> result\<lparr>pr_Err := Some PingStream\<rparr>
      | Some stream \<Rightarrow>
          (case stream (word_be_enc ts) of
             None \<Rightarrow> result\<lparr>pr_Err := Some WritePing\<rparr>
           | Some resp \<Rightarrow>
               (case ReadFull 8 resp of
                  None \<Rightarrow> result\<lparr>pr_Err := Some ReadPong\<rparr>
                | Some (b, _) \<Rightarrow>
                    (let echoTS = word_be_dec b; result1 = result\<lparr>pr_RTT := elapsed\<rparr> in
                     if echoTS \<noteq> ts then result1\<lparr>pr_Err := Some (TimestampMismatch ts echoTS)\<rparr> else result1))))"

text \<open>
  One entry of \<open>env\<close> per iteration: whether the context is done, and the clock readings. The pause
  between pings has no effect on the results.
\<close>

record ping_env =
  pe_done :: bool
  pe_ts :: u64
  pe_elapsed :: duration

fun pings_loop :: "network \<Rightarrow> (nat \<Rightarrow> ping_env) \<Rightarrow> peer_id \<Rightarrow> nat \<Rightarrow> nat \<Rightarrow> PingResult list \<Rightarrow> PingResult list" where
  "pings_loop net env target 0 i results = results"
| "pings_loop net env target (Suc k) i results =
     (if pe_done (env i) then results @ [\<lparr>pr_RTT = 0, pr_Peer = target, pr_Err = Some PingContext\<rparr>]
      else pings_loop net env target k (Suc i)
             (results @ [SendPing net (pe_ts (env i)) (pe_elapsed (env i)) target]))"

definition SendPings :: "network \<Rightarrow> (nat \<Rightarrow> ping_env) \<Rightarrow> peer_id \<Rightarrow> int \<Rightarrow> PingResult list" where
  "SendPings net env target cnt = pings_loop net env target (nat cnt) 0 []"

section \<open>Path probes\<close>

definition probePayloadSize :: nat where
  "probePayloadSize = 53"

definition Probe_handleStream :: "bytes \<Rightarrow> bytes" where
  "Probe_handleStream s =
     (case ReadFull probePayloadSize s of
        None \<Rightarrow> []
      | Some (buf, _) \<Rightarrow> buf[12 := buf ! 12 + 1])"

datatype probe_error = ProbeStream | NonceError | WriteProbe | ReadProbe | NonceMismatch nat | PathIDMismatch u32 u32

record ProbeResult =
  rr_RTT :: duration
  rr_HopCount :: int
  rr_PathID :: u32
  rr_Target :: peer_id
  rr_RelayPeers :: "peer_id list"
  rr_Err :: "probe_error option"

record PathInfo =
  pi_ID :: u32
  pi_Target :: peer_id
  pi_RelayChain :: "peer_id list"

text \<open>What the clock and \<^verbatim>\<open>crypto/rand\<close> give one probe; \<open>None\<close> is a failing random source.\<close>

record probe_env =
  be_now :: u64
  be_nonce :: "bytes option"
  be_elapsed :: duration

definition probe_payload :: "u64 \<Rightarrow> u32 \<Rightarrow> bytes \<Rightarrow> bytes" where
  "probe_payload now pid nonce = word_be_enc now @ word_be_enc pid @ [0] @ replicate 8 0 @ nonce"

text \<open>The first position from \<open>i\<close> on at which the echo differs from the payload.\<close>

fun nonce_mismatch :: "bytes \<Rightarrow> bytes \<Rightarrow> nat \<Rightarrow> nat \<Rightarrow> nat option" where
  "nonce_mismatch echo payload i 0 = None"
| "nonce_mismatch echo payload i (Suc k) =
     (if echo ! i \<noteq> payload ! i then Some i else nonce_mismatch echo payload (Suc i) k)"

definition SendProbe :: "network \<Rightarrow> probe_env \<Rightarrow> PathInfo \<Rightarrow> ProbeResult" where
  "SendProbe net env path =
     (let result = \<lparr>rr_RTT = 0, rr_HopCount = 0, rr_PathID = pi_ID path, rr_Target = pi_Target path,
                    rr_RelayPeers = pi_RelayChain path, rr_Err = None\<rparr>;
          streamTarget = (case pi_RelayChain path of [] \<Rightarrow> pi_Target path | r # _ \<Rightarrow> r)
      in case net streamTarget of
           None \<Rightarrow> result\<lparr>rr_Err := Some ProbeStream\<rparr>
         | Some stream \<Rightarrow>
        (case be_nonce env of
           None \<Rightarrow> result\<lparr>rr_Err := Some NonceError\<rparr>
         | Some nonce \<Rightarrow>
             (let payload = probe_payload (be_now env) (pi_ID path) nonce in
              case stream payload of
                None \<Rightarrow> result\<lparr>rr_Err := Some WriteProbe\<rparr>
              | Some resp \<Rightarrow>
                  (case ReadFull probePayloadSize resp of
                     None \<Rightarrow> result\<lparr>rr_Err := Some ReadProbe\<rparr>
                   | Some (echo, _) \<Rightarrow>
                       (let result1 = result\<lparr>rr_RTT := be_elapsed env\<rparr> in
                        case nonce_mismatch echo payload 21 (probePayloadSize - 21) of
                          Some i \<Rightarrow> result1\<lparr>rr_Err := Some (NonceMismatch i)\<rparr>
                        | None \<Rightarrow>
                            (let result2 = result1\<lparr>rr_HopCount := int (unat (echo ! 12))\<rparr>;
                                 echoPathID = word_be_dec (take 4 (drop 8 echo))
                             in if echoPathID \<noteq> pi_ID path
                                then result2\<lparr>rr_Err := Some (PathIDMismatch (pi_ID path) echoPathID)\<rparr>
                                else result2))))))"

text \<open>
  Probes run in parallel, one goroutine per path, each writing its own slot of the results; \<open>sched\<close>
  is the order in which the goroutines finish.
\<close>

definition zero_ProbeResult :: ProbeResult where
  "zero_ProbeResult = \<lparr>rr_RTT = 0, rr_HopCount = 0, rr_PathID = 0, rr_Target = [], rr_RelayPeers = [], rr_Err = None\<rparr>"

definition SendProbes :: "network \<Rightarrow> (nat \<Rightarrow> probe_env) \<Rightarrow> nat list \<Rightarrow> PathInfo list \<Rightarrow> ProbeResult list" where
  "SendProbes net env sched paths =
     foldl (\<lambda>results i. results[i := SendProbe net (env i) (paths ! i)])
       (replicate (length paths) zero_ProbeResult) sched"

section \<open>Lemmas\<close>

lemma length_probe_payload: "length nonce = 32 \<Longrightarrow> length (probe_payload now pid nonce) = 53"
  by (simp add: probe_payload_def)

lemma nonce_mismatch_None:
  "nonce_mismatch echo payload i k = None \<longleftrightarrow> (\<forall>j<k. echo ! (i + j) = payload ! (i + j))"
proof (induction k arbitrary: i)
  case (Suc k)
  have "(\<forall>j<Suc k. echo ! (i + j) = payload ! (i + j)) \<longleftrightarrow>
      echo ! i = payload ! i \<and> (\<forall>j<k. echo ! (Suc i + j) = payload ! (Suc i + j))"
    by (auto simp: less_Suc_eq_0_disj)
  with Suc show ?case by simp
qed simp

lemma Probe_echo:
  assumes "length s = 53"
  shows "Probe_handleStream s = s[12 := s ! 12 + 1]"
  using assms by (simp add: Probe_handleStream_def probePayloadSize_def)

lemma probe_payload_ID: "take 4 (drop 8 (probe_payload now pid nonce)) = word_be_enc pid"
  by (simp add: probe_payload_def)

lemma probe_payload_hop: "probe_payload now pid nonce ! 12 = 0"
  by (simp add: probe_payload_def nth_append)

lemma pings_loop_append:
  "pings_loop net env t k i rs = rs @ pings_loop net env t k i []"
proof (induction k arbitrary: i rs)
  case (Suc k)
  show ?case
    using Suc [of "Suc i" "rs @ [SendPing net (pe_ts (env i)) (pe_elapsed (env i)) t]"]
      Suc [of "Suc i" "[SendPing net (pe_ts (env i)) (pe_elapsed (env i)) t]"] by auto
qed simp

lemma foldl_slots:
  "length (foldl (\<lambda>rs i. rs[i := f i]) rs sched) = length rs
   \<and> (i < length rs \<longrightarrow> foldl (\<lambda>rs i. rs[i := f i]) rs sched ! i = (if i \<in> set sched then f i else rs ! i))"
  by (induction sched arbitrary: rs) (auto simp: nth_list_update)

lemma pings_loop_eq:
  "pings_loop net env t k i [] =
     map (\<lambda>j. SendPing net (pe_ts (env j)) (pe_elapsed (env j)) t) (takeWhile (\<lambda>j. \<not> pe_done (env j)) [i..<i + k])
     @ (if \<exists>j\<in>{i..<i + k}. pe_done (env j) then [\<lparr>pr_RTT = 0, pr_Peer = t, pr_Err = Some PingContext\<rparr>] else [])"
proof (induction k arbitrary: i)
  case (Suc k)
  have up: "[i..<i + Suc k] = i # [Suc i..<Suc i + k]" by (simp add: upt_conv_Cons)
  have ran: "{i..<i + Suc k} = insert i {Suc i..<Suc i + k}" by auto
  show ?case
    using Suc [of "Suc i"] pings_loop_append [of net env t k "Suc i" "[SendPing net (pe_ts (env i)) (pe_elapsed (env i)) t]"]
    unfolding up ran by simp
qed simp

lemma length_SendPings: "length (SendPings net env t cnt) \<le> nat cnt"
proof -
  have "length (pings_loop net env t k i rs) \<le> length rs + k" for k i rs
  proof (induction k arbitrary: i rs)
    case (Suc k)
    show ?case using Suc [of "Suc i" "rs @ [SendPing net (pe_ts (env i)) (pe_elapsed (env i)) t]"] by simp
  qed simp
  from this [of "nat cnt" 0 "[]"] show ?thesis by (simp add: SendPings_def)
qed

lemma SendProbe_honest:
  assumes "be_nonce env = Some nonce" and "length nonce = 32"
    and "hop = (case pi_RelayChain path of [] \<Rightarrow> pi_Target path | r # _ \<Rightarrow> r)"
    and "net hop = Some (\<lambda>req. Some (Probe_handleStream req))"
  shows "SendProbe net env path =
    \<lparr>rr_RTT = be_elapsed env, rr_HopCount = 1, rr_PathID = pi_ID path, rr_Target = pi_Target path,
     rr_RelayPeers = pi_RelayChain path, rr_Err = None\<rparr>"
proof -
  let ?p = "probe_payload (be_now env) (pi_ID path) nonce"
  have len: "length ?p = 53" using assms(2) by (rule length_probe_payload)
  have echo: "Probe_handleStream ?p = ?p[12 := 1]" by (simp add: Probe_echo [OF len] probe_payload_hop)
  have "take 4 (drop 8 (?p[12 := 1])) = take 4 (drop 8 ?p)" by (simp add: take_drop take_update_cancel)
  then have ID: "(word_be_dec (take 4 (drop 8 (?p[12 := 1]))) :: u32) = pi_ID path"
    by (simp add: probe_payload_ID)
  have "nonce_mismatch (?p[12 := 1]) ?p 21 32 = None" by (simp add: nonce_mismatch_None)
  then show ?thesis
    using assms len by (simp add: SendProbe_def echo ID probePayloadSize_def)
qed

section \<open>Properties\<close>

text \<open>
  A ping over a stream that answers succeeds, with the measured time, exactly when the answer
  starts with the eight bytes that were sent; the handler's answer does.
\<close>

lemma ping_correct:
  assumes "net target = Some stream" and "stream (word_be_enc ts) = Some resp"
  shows "(pr_Err (SendPing net ts elapsed target) = None \<longleftrightarrow> (\<exists>rest. resp = word_be_enc ts @ rest))
    \<and> (resp = Ping_handleStream (word_be_enc ts) \<longrightarrow>
         SendPing net ts elapsed target = \<lparr>pr_RTT = elapsed, pr_Peer = target, pr_Err = None\<rparr>)"
proof -
  have "pr_Err (SendPing net ts elapsed target) = None \<longleftrightarrow>
      (\<exists>b rest. ReadFull 8 resp = Some (b, rest) \<and> word_be_dec b = ts)"
    using assms by (auto simp: SendPing_def Let_def split: option.splits)
  also have "\<dots> \<longleftrightarrow> (\<exists>rest. resp = word_be_enc ts @ rest)"
    by (metis be64.read_enc be64.read_inverse be64.dec_enc)
  finally show ?thesis using assms by (auto simp: SendPing_def Ping_handleStream_def Let_def)
qed

text \<open>
  The probe handler echoes a 53-byte probe with the hop count, byte 12, incremented modulo 256
  and every other byte unchanged (the throughput and jitter fields stay as the prober sent them),
  and it answers a shorter request with nothing.
\<close>

lemma probe_handler_echo:
  "(length s < 53 \<longrightarrow> Probe_handleStream s = [])
   \<and> (53 \<le> length s \<longrightarrow> length (Probe_handleStream s) = 53
      \<and> unat (Probe_handleStream s ! 12) = (unat (s ! 12) + 1) mod 256
      \<and> (\<forall>i<53. i \<noteq> 12 \<longrightarrow> Probe_handleStream s ! i = s ! i))"
  by (auto simp: Probe_handleStream_def probePayloadSize_def ReadFull_def unat_word_ariths)

text \<open>
  A probe along a path whose first hop (the relay, or the target when there is none) runs the
  handler succeeds and reports the measured time and one hop.
\<close>

lemma probe_roundtrip:
  assumes "be_nonce env = Some nonce" and "length nonce = 32"
    and "hop = (case pi_RelayChain path of [] \<Rightarrow> pi_Target path | r # _ \<Rightarrow> r)"
    and "net hop = Some (\<lambda>req. Some (Probe_handleStream req))"
  shows "SendProbe net env path =
    \<lparr>rr_RTT = be_elapsed env, rr_HopCount = 1, rr_PathID = pi_ID path, rr_Target = pi_Target path,
     rr_RelayPeers = pi_RelayChain path, rr_Err = None\<rparr>"
  using assms by (rule SendProbe_honest)

definition wit_net :: network where
  "wit_net p = Some (\<lambda>req. Some (Probe_handleStream req))"

definition wit_env :: probe_env where
  "wit_env = \<lparr>be_now = 5, be_nonce = Some (replicate 32 9), be_elapsed = 40\<rparr>"

definition wit_path :: PathInfo where
  "wit_path = \<lparr>pi_ID = 3, pi_Target = ''t'', pi_RelayChain = [''r'']\<rparr>"

text \<open>
  C25. Whatever a peer answers, a probe without error means that the answer carries the nonce and the
  path identifier of this probe, and the hop count reported is byte 12 of the answer.
\<close>

theorem probe_authentic:
  assumes "rr_Err (SendProbe net env path) = None" and "be_nonce env = Some nonce" and "length nonce = 32"
  shows "\<exists>hop stream resp. net hop = Some stream \<and> stream (probe_payload (be_now env) (pi_ID path) nonce) = Some resp
    \<and> 53 \<le> length resp \<and> take 32 (drop 21 resp) = nonce \<and> take 4 (drop 8 resp) = word_be_enc (pi_ID path)
    \<and> rr_HopCount (SendProbe net env path) = int (unat (resp ! 12))"
proof -
  let ?p = "probe_payload (be_now env) (pi_ID path) nonce"
  let ?hop = "case pi_RelayChain path of [] \<Rightarrow> pi_Target path | r # _ \<Rightarrow> r"
  from assms(1,2) obtain stream resp echo rest where r: "net ?hop = Some stream" "stream ?p = Some resp"
      "ReadFull 53 resp = Some (echo, rest)" "nonce_mismatch echo ?p 21 32 = None"
      "word_be_dec (take 4 (drop 8 echo)) = pi_ID path"
      "rr_HopCount (SendProbe net env path) = int (unat (echo ! 12))"
    by (auto simp: SendProbe_def Let_def probePayloadSize_def split: option.splits if_splits)
  from r(3) have e: "length echo = 53" "resp = echo @ rest" by (auto simp: ReadFull_Some_iff)
  have "take 32 (drop 21 echo) = drop 21 ?p"
    using r(4) e(1) length_probe_payload [OF assms(3)] by (intro nth_equalityI) (auto simp: nonce_mismatch_None)
  also have "\<dots> = nonce" using assms(3) by (simp add: probe_payload_def)
  finally have "take 32 (drop 21 resp) = nonce" using e assms(3) by simp
  moreover have "take 4 (drop 8 resp) = word_be_enc (pi_ID path)"
    using be32.enc_dec [of "take 4 (drop 8 echo)"] r(5) e by simp
  ultimately show ?thesis using r e by (intro exI [of _ ?hop] exI [of _ stream] exI [of _ resp]) (simp add: nth_append assms(3))
qed

theorem probe_authentic_witness:
  "\<exists>hop stream resp. wit_net hop = Some stream \<and> stream (probe_payload 5 3 (replicate 32 9)) = Some resp
     \<and> take 32 (drop 21 resp) = replicate 32 9"
proof -
  have "rr_Err (SendProbe wit_net wit_env wit_path) = None"
    by (subst SendProbe_honest [where hop = "''r''" and nonce = "replicate 32 9"])
       (simp_all add: wit_net_def wit_env_def wit_path_def)
  from probe_authentic [OF this, of "replicate 32 9"] show ?thesis
    by (auto simp: wit_env_def wit_path_def)
qed

text \<open>
  A probe of a relayed path contacts only the first relay, which answers it itself: the outcome
  does not depend on the target at all, not even on whether it can be reached.
\<close>

lemma relay_probe_ignores_target:
  assumes "pi_RelayChain path = r # rs" and "r \<noteq> pi_Target path"
  shows "SendProbe (net(pi_Target path := x)) env path = SendProbe (net(pi_Target path := y)) env path"
  using assms by (simp add: SendProbe_def)

text \<open>
  The parallel probes give the same results in the order of the paths however the goroutines are
  scheduled: one result per path, that of its own probe.
\<close>

lemma SendProbes_schedule:
  assumes "set sched = {0..<length paths}"
  shows "SendProbes net env sched paths = map (\<lambda>i. SendProbe net (env i) (paths ! i)) [0..<length paths]"
  using assms foldl_slots [where f = "\<lambda>i. SendProbe net (env i) (paths ! i)"
      and rs = "replicate (length paths) zero_ProbeResult" and sched = sched]
  by (intro nth_equalityI) (auto simp: SendProbes_def)

end
