(* ===== verification/Path_Metrics.thy ===== *)
theory Path_Metrics
  imports Probing
begin

text \<open>
  Paths, their measured metrics and path sets (\<^verbatim>\<open>internal/pathpolicy/path.go\<close>). Durations and times
  are nanoseconds as integers with Go's truncating division; \<^verbatim>\<open>float64\<close> is modelled by exact reals.
  A path set is a map from path identifiers; the order in which Go ranges over it is the argument
  \<open>iter\<close>.
\<close>

section \<open>Metrics\<close>

record PathMetrics =
  AvgRTT :: duration
  P95RTT :: duration
  Jitter :: duration
  ThroughputEstimate :: real
  HopCount :: int
  SuccessRate :: real
  LastProbed :: int
  SampleCount :: int
  rttSamples :: "duration list"

definition zero_metrics :: PathMetrics where
  "zero_metrics = \<lparr>AvgRTT = 0, P95RTT = 0, Jitter = 0, ThroughputEstimate = 0, HopCount = 0, SuccessRate = 0,
     LastProbed = 0, SampleCount = 0, rttSamples = []\<rparr>"

definition Seconds :: "duration \<Rightarrow> real" where
  "Seconds d = real_of_int d / 10 ^ 9"

definition maxRTTSamples :: nat where
  "maxRTTSamples = 20"

fun max_loop :: "duration list \<Rightarrow> duration \<Rightarrow> duration" where
  "max_loop [] m = m"
| "max_loop (s # ss) m = max_loop ss (if s > m then s else m)"

definition RecordProbe :: "int \<Rightarrow> duration \<Rightarrow> bool \<Rightarrow> PathMetrics \<Rightarrow> PathMetrics" where
  "RecordProbe now rtt success m0 =
     (let m1 = m0\<lparr>LastProbed := now, SampleCount := SampleCount m0 + 1\<rparr>;
          m2 = (if success then
            (let s0 = rttSamples m1 @ [rtt];
                 samples = (if length s0 > maxRTTSamples then drop 1 s0 else s0);
                 total = sum_list samples;
                 avg = total sdiv int (length samples);
                 p95 = max_loop samples (samples ! 0);
                 jitter = (if length samples > 1
                   then \<lfloor>sqrt ((\<Sum>s\<leftarrow>samples. (real_of_int s - real_of_int avg) * (real_of_int s - real_of_int avg))
                        / real (length samples))\<rfloor>
                   else Jitter m1);
                 thr = (if rtt > 0 then 53 / Seconds rtt * 2 else ThroughputEstimate m1)
             in m1\<lparr>rttSamples := samples, AvgRTT := avg, P95RTT := p95, Jitter := jitter, ThroughputEstimate := thr\<rparr>)
            else m1);
          alpha = 3 / 10;
          observed = (if success then 1 else 0);
          rate = (if SampleCount m2 = 1 then observed else alpha * observed + (1 - alpha) * SuccessRate m2)
      in m2\<lparr>SuccessRate := rate\<rparr>)"

section \<open>Paths and path sets\<close>

datatype PathType = PathDirect | PathRelay

record Path =
  p_ID :: string
  p_Target :: peer_id
  p_Type :: PathType
  p_RelayChain :: "peer_id list"
  p_Metrics :: PathMetrics

type_synonym PathSet = "string \<Rightarrow> Path option"

definition NewPathSet :: PathSet where
  "NewPathSet = (\<lambda>_. None)"

definition PathSet_Add :: "PathSet \<Rightarrow> Path \<Rightarrow> PathSet" where
  "PathSet_Add ps p = ps(p_ID p \<mapsto> p)"

definition PathSet_Remove :: "PathSet \<Rightarrow> string \<Rightarrow> PathSet" where
  "PathSet_Remove ps i = ps(i := None)"

definition PathSet_Get :: "PathSet \<Rightarrow> string \<Rightarrow> Path option" where
  "PathSet_Get ps i = ps i"

definition PathSet_All :: "string list \<Rightarrow> PathSet \<Rightarrow> Path list" where
  "PathSet_All iter ps = map (\<lambda>i. the (ps i)) (map_range iter ps)"

definition PathSet_Len :: "string list \<Rightarrow> PathSet \<Rightarrow> nat" where
  "PathSet_Len iter ps = length (map_range iter ps)"

text \<open>
  The selection loop the code uses wherever it picks the best of a list: a candidate replaces the best
  so far only when its score is strictly larger. Candidates carry their scores.
\<close>

fun best_loop :: "('a \<times> real) list \<Rightarrow> 'a option \<Rightarrow> real \<Rightarrow> 'a option" where
  "best_loop [] best bestScore = best"
| "best_loop ((p, score) # xs) best bestScore =
     (if score > bestScore then best_loop xs (Some p) score else best_loop xs best bestScore)"

text \<open>
  \<open>score i p\<close> is the policy's score of \<open>p\<close> on its \<open>i\<close>-th call (the random policy draws anew each time).
\<close>

definition PathSet_Best :: "string list \<Rightarrow> (nat \<Rightarrow> Path \<Rightarrow> real) \<Rightarrow> PathSet \<Rightarrow> Path option" where
  "PathSet_Best iter score ps =
     best_loop (map (\<lambda>(i, p). (p, score i p)) (enumerate 0 (PathSet_All iter ps))) None (- 1)"

section \<open>Invariants\<close>

definition metrics_ok :: "PathMetrics \<Rightarrow> bool" where
  "metrics_ok m \<longleftrightarrow> 0 \<le> SuccessRate m \<and> SuccessRate m \<le> 1 \<and> 0 \<le> HopCount m \<and> HopCount m \<le> 255
     \<and> 0 \<le> AvgRTT m \<and> AvgRTT m \<le> P95RTT m \<and> 0 \<le> Jitter m \<and> 0 \<le> ThroughputEstimate m
     \<and> 0 \<le> SampleCount m \<and> length (rttSamples m) \<le> 20 \<and> int (length (rttSamples m)) \<le> SampleCount m
     \<and> (\<forall>s\<in>set (rttSamples m). 0 \<le> s \<and> s \<le> P95RTT m)"

definition path_ok :: "Path \<Rightarrow> bool" where
  "path_ok p \<longleftrightarrow> metrics_ok (p_Metrics p)"

definition pathset_ok :: "PathSet \<Rightarrow> bool" where
  "pathset_ok ps \<longleftrightarrow> (\<forall>i p. ps i = Some p \<longrightarrow> p_ID p = i \<and> path_ok p)"

definition viable :: "Path \<Rightarrow> bool" where
  "viable p \<longleftrightarrow> SampleCount (p_Metrics p) > 0"

section \<open>Lemmas\<close>

lemma max_loop_eq: "max_loop ss m = (if ss = [] then m else max m (Max (set ss)))"
proof (induction ss arbitrary: m)
  case (Cons s ss)
  then show ?case by (cases ss) (auto simp: max_def)
qed simp

lemma max_loop_Max: "ss \<noteq> [] \<Longrightarrow> max_loop ss (ss ! 0) = Max (set ss)"
  by (cases ss) (auto simp: max_loop_eq max_def)

lemma sum_list_bounds:
  fixes xs :: "int list"
  assumes "\<forall>x\<in>set xs. a \<le> x \<and> x \<le> b"
  shows "a * int (length xs) \<le> sum_list xs \<and> sum_list xs \<le> b * int (length xs)"
  using assms by (induction xs) (auto simp: algebra_simps)

lemma mean_bounds:
  fixes xs :: "int list"
  assumes "xs \<noteq> []" "\<forall>x\<in>set xs. 0 \<le> x \<and> x \<le> b"
  shows "0 \<le> sum_list xs sdiv int (length xs)" "sum_list xs sdiv int (length xs) \<le> b"
proof -
  have l: "0 < int (length xs)" using assms(1) by simp
  have s: "0 \<le> sum_list xs" "sum_list xs \<le> b * int (length xs)"
    using sum_list_bounds [of xs 0 b] assms(2) by auto
  have "sum_list xs sdiv int (length xs) = sum_list xs div int (length xs)"
    using s(1) l by (rule sdiv_eq_div)
  then show "0 \<le> sum_list xs sdiv int (length xs)" "sum_list xs sdiv int (length xs) \<le> b"
    using zdiv_mono1 [OF s(2) l] s(1) l by (simp_all add: pos_imp_zdiv_nonneg_iff)
qed

lemma metrics_ok_zero: "metrics_ok zero_metrics"
  by (simp add: metrics_ok_def zero_metrics_def)

lemma sqrt_sum_nonneg: "0 \<le> \<lfloor>sqrt ((\<Sum>s\<leftarrow>xs. (f s :: real) * f s) / real n)\<rfloor>"
proof -
  have "0 \<le> (\<Sum>s\<leftarrow>xs. f s * f s)" by (rule sum_list_nonneg) auto
  then show ?thesis by simp
qed

lemma RecordProbe_samples:
  "rttSamples (RecordProbe now rtt success m) =
     (if success then (if length (rttSamples m) \<ge> 20 then drop 1 (rttSamples m @ [rtt]) else rttSamples m @ [rtt])
      else rttSamples m)"
  by (simp add: RecordProbe_def Let_def maxRTTSamples_def)

lemma RecordProbe_simps:
  "LastProbed (RecordProbe now rtt success m) = now"
  "SampleCount (RecordProbe now rtt success m) = SampleCount m + 1"
  "HopCount (RecordProbe now rtt success m) = HopCount m"
  "SuccessRate (RecordProbe now rtt success m) = (let o1 = (if success then 1 else 0) in
     if SampleCount m = 0 then o1 else 3 / 10 * o1 + 7 / 10 * SuccessRate m)"
  by (simp_all add: RecordProbe_def Let_def)

lemma RecordProbe_rtt:
  assumes "success" "samples = rttSamples (RecordProbe now rtt success m)"
  shows "AvgRTT (RecordProbe now rtt success m) = sum_list samples sdiv int (length samples)"
    "P95RTT (RecordProbe now rtt success m) = Max (set samples)" "samples \<noteq> []"
    "last samples = rtt"
proof -
  show ne: "samples \<noteq> []" and "last samples = rtt"
    using assms by (auto simp: RecordProbe_samples split: if_splits dest!: arg_cong [of _ _ length])
  show "AvgRTT (RecordProbe now rtt success m) = sum_list samples sdiv int (length samples)"
    "P95RTT (RecordProbe now rtt success m) = Max (set samples)"
    using assms ne by (simp_all add: RecordProbe_def Let_def max_loop_Max)
qed

lemma RecordProbe_keep:
  "\<not> success \<Longrightarrow> AvgRTT (RecordProbe now rtt success m) = AvgRTT m"
  "\<not> success \<Longrightarrow> P95RTT (RecordProbe now rtt success m) = P95RTT m"
  "\<not> success \<Longrightarrow> Jitter (RecordProbe now rtt success m) = Jitter m"
  "\<not> success \<Longrightarrow> ThroughputEstimate (RecordProbe now rtt success m) = ThroughputEstimate m"
  by (simp_all add: RecordProbe_def Let_def)

lemma RecordProbe_jitter:
  assumes "success" "samples = rttSamples (RecordProbe now rtt success m)"
    "avg = AvgRTT (RecordProbe now rtt success m)"
  shows "Jitter (RecordProbe now rtt success m) =
    (if length samples > 1
     then \<lfloor>sqrt ((\<Sum>s\<leftarrow>samples. (real_of_int s - real_of_int avg) * (real_of_int s - real_of_int avg)) / real (length samples))\<rfloor>
     else Jitter m)"
  using assms by (simp add: RecordProbe_def Let_def)

lemma RecordProbe_nonneg:
  "0 \<le> Jitter m \<Longrightarrow> 0 \<le> Jitter (RecordProbe now rtt success m)"
  "0 \<le> ThroughputEstimate m \<Longrightarrow> 0 \<le> ThroughputEstimate (RecordProbe now rtt success m)"
proof -
  assume j: "0 \<le> Jitter m"
  show "0 \<le> Jitter (RecordProbe now rtt success m)"
  proof (cases success)
    case True
    show ?thesis unfolding RecordProbe_jitter [OF True refl refl] 
      by (rule if_split [THEN iffD2], intro conjI impI sqrt_sum_nonneg j)
  qed (use j in \<open>simp add: RecordProbe_keep\<close>)
qed (simp add: RecordProbe_def Let_def Seconds_def)

lemma metrics_ok_RecordProbe [wf_intros]:
  assumes ok: "metrics_ok m" and rtt: "0 \<le> rtt"
  shows "metrics_ok (RecordProbe now rtt success m)"
proof -
  let ?m = "RecordProbe now rtt success m"
  have rate: "0 \<le> SuccessRate ?m" "SuccessRate ?m \<le> 1"
    using ok by (auto simp: RecordProbe_simps(4) metrics_ok_def Let_def)
  have len: "length (rttSamples ?m) \<le> 20" "int (length (rttSamples ?m)) \<le> SampleCount ?m"
    using ok by (auto simp: RecordProbe_samples RecordProbe_simps metrics_ok_def)
  have rtts: "0 \<le> AvgRTT ?m \<and> AvgRTT ?m \<le> P95RTT ?m \<and> (\<forall>s\<in>set (rttSamples ?m). 0 \<le> s \<and> s \<le> P95RTT ?m)"
  proof (cases success)
    case True
    note r = RecordProbe_rtt [OF True refl, of now rtt m]
    have "set (rttSamples ?m) \<subseteq> insert rtt (set (rttSamples m))"
      by (auto simp: RecordProbe_samples dest: in_set_dropD)
    then have "\<forall>s\<in>set (rttSamples ?m). 0 \<le> s \<and> s \<le> P95RTT ?m"
      using ok rtt r(2) by (auto simp: metrics_ok_def)
    with mean_bounds [OF r(3) this] r(1) show ?thesis by simp
  next
    case False
    then show ?thesis using ok by (simp add: RecordProbe_keep RecordProbe_samples metrics_ok_def)
  qed
  show ?thesis
    using ok rate len rtts RecordProbe_nonneg [of m now rtt success]
    by (simp add: metrics_ok_def [of ?m] RecordProbe_simps(2,3)) (simp add: metrics_ok_def)
qed

section \<open>Choosing the best\<close>

text \<open>The loop returns the first candidate of maximal score, if any beats the initial bound.\<close>

lemma best_loop_spec:
  "(\<forall>x\<in>set xs. snd x \<le> b) \<and> best_loop xs best b = best
   \<or> (\<exists>p sc ys zs. xs = ys @ (p, sc) # zs \<and> best_loop xs best b = Some p \<and> sc > b
        \<and> (\<forall>y\<in>set ys. snd y < sc) \<and> (\<forall>z\<in>set zs. snd z \<le> sc))"
proof (induction xs best b rule: best_loop.induct)
  case (2 p sc xs best b)
  show ?case
  proof (cases "sc > b")
    case True
    with 2(1) consider "\<forall>x\<in>set xs. snd x \<le> sc" "best_loop xs (Some p) sc = Some p"
      | q t ys zs where "xs = ys @ (q, t) # zs" "best_loop xs (Some p) sc = Some q" "t > sc"
        "\<forall>y\<in>set ys. snd y < t" "\<forall>z\<in>set zs. snd z \<le> t" by blast
    then show ?thesis
    proof cases
      case 1
      with True show ?thesis
        by (intro disjI2 exI [of _ p] exI [of _ sc] exI [of _ "[]"] exI [of _ xs]) simp
    next
      case 2
      with True show ?thesis
        by (intro disjI2 exI [of _ q] exI [of _ t] exI [of _ "(p, sc) # ys"] exI [of _ zs]) auto
    qed
  next
    case False
    with 2(2) consider "\<forall>x\<in>set xs. snd x \<le> b" "best_loop xs best b = best"
      | q t ys zs where "xs = ys @ (q, t) # zs" "best_loop xs best b = Some q" "t > b"
        "\<forall>y\<in>set ys. snd y < t" "\<forall>z\<in>set zs. snd z \<le> t" by blast
    then show ?thesis
    proof cases
      case 1
      with False show ?thesis by auto
    next
      case 2
      with False show ?thesis
        by (intro disjI2 exI [of _ q] exI [of _ t] exI [of _ "(p, sc) # ys"] exI [of _ zs]) auto
    qed
  qed
qed simp

lemma best_loop_argmax:
  assumes "xs \<noteq> []" and "\<forall>x\<in>set xs. 0 \<le> snd x"
  shows "\<exists>p sc. best_loop xs None (- 1) = Some p \<and> (p, sc) \<in> set xs \<and> (\<forall>x\<in>set xs. snd x \<le> sc)"
proof -
  from best_loop_spec [of xs "- 1" None] show ?thesis
  proof
    assume a: "(\<forall>x\<in>set xs. snd x \<le> - 1) \<and> best_loop xs None (- 1) = None"
    obtain x where "x \<in> set xs" using assms(1) by (cases xs) auto
    with a assms(2) show ?thesis by fastforce
  next
    assume "\<exists>p sc ys zs. xs = ys @ (p, sc) # zs \<and> best_loop xs None (- 1) = Some p \<and> sc > - 1
        \<and> (\<forall>y\<in>set ys. snd y < sc) \<and> (\<forall>z\<in>set zs. snd z \<le> sc)"
    then obtain p sc ys zs where "xs = ys @ (p, sc) # zs" "best_loop xs None (- 1) = Some p"
      "\<forall>y\<in>set ys. snd y < sc" "\<forall>z\<in>set zs. snd z \<le> sc" by blast
    then show ?thesis by (intro exI [of _ p] exI [of _ sc]) (auto simp: less_imp_le)
  qed
qed

lemma set_PathSet_All: "enumerates iter ps \<Longrightarrow> set (PathSet_All iter ps) = ran ps"
  by (force simp: PathSet_All_def set_map_range ran_def dom_def)

section \<open>Histories of probes\<close>

text \<open>A probe's time, round-trip time and outcome; the metrics after a history, oldest first.\<close>

type_synonym probe_event = "int \<times> duration \<times> bool"

definition run_probes :: "probe_event list \<Rightarrow> PathMetrics" where
  "run_probes es = foldl (\<lambda>m (now, rtt, success). RecordProbe now rtt success m) zero_metrics es"

definition successes :: "probe_event list \<Rightarrow> duration list" where
  "successes es = map (\<lambda>(now, rtt, s). rtt) (filter (\<lambda>(now, rtt, s). s) es)"

definition last_n :: "nat \<Rightarrow> 'a list \<Rightarrow> 'a list" where
  "last_n n xs = drop (length xs - n) xs"

lemma last_n_snoc:
  "0 < n \<Longrightarrow> last_n n (xs @ [x]) =
     (if length (last_n n xs) \<ge> n then drop 1 (last_n n xs @ [x]) else last_n n xs @ [x])"
  by (auto simp: last_n_def Suc_diff_le)

lemma run_probes_snoc: "run_probes (es @ [(now, rtt, s)]) = RecordProbe now rtt s (run_probes es)"
  by (simp add: run_probes_def)

lemma run_probes_count: "SampleCount (run_probes es) = int (length es)"
proof (induction es rule: rev_induct)
  case (snoc e es)
  then show ?case by (cases e) (simp add: run_probes_snoc RecordProbe_simps)
qed (simp add: run_probes_def zero_metrics_def)

lemma run_probes_samples: "rttSamples (run_probes es) = last_n 20 (successes es)"
proof (induction es rule: rev_induct)
  case (snoc e es)
  obtain now rtt s where e: "e = (now, rtt, s)" by (cases e)
  show ?case
    using snoc last_n_snoc [of 20 "successes es" rtt]
    by (simp add: e run_probes_snoc RecordProbe_samples successes_def)
qed (simp add: run_probes_def zero_metrics_def successes_def last_n_def)

lemma run_probes_rtt:
  "successes es \<noteq> [] \<Longrightarrow> AvgRTT (run_probes es) = sum_list (rttSamples (run_probes es)) sdiv int (length (rttSamples (run_probes es)))
     \<and> P95RTT (run_probes es) = Max (set (rttSamples (run_probes es)))"
proof (induction es rule: rev_induct)
  case (snoc e es)
  obtain now rtt s where e: "e = (now, rtt, s)" by (cases e)
  show ?case
  proof (cases s)
    case True
    then show ?thesis using RecordProbe_rtt(1,2) [OF True refl] by (simp add: e run_probes_snoc)
  next
    case False
    with snoc.prems have "successes es \<noteq> []" by (simp add: successes_def e)
    with snoc.IH False show ?thesis by (simp add: e run_probes_snoc RecordProbe_keep RecordProbe_samples)
  qed
qed (simp add: successes_def)

lemma run_probes_ok: "\<forall>(now, rtt, s)\<in>set es. 0 \<le> rtt \<Longrightarrow> metrics_ok (run_probes es)"
proof (induction es rule: rev_induct)
  case (snoc e es)
  then show ?case by (cases e) (auto simp: run_probes_snoc intro: metrics_ok_RecordProbe)
qed (simp add: run_probes_def metrics_ok_zero)

section \<open>Properties\<close>



end
