(* ===== verification/Policies.thy ===== *)
theory Policies
  imports Path_Metrics
begin

text \<open>
  The path-selection policies (\<^verbatim>\<open>internal/pathpolicy/policy.go\<close>). What the random source delivers to a
  call is an argument: \<open>rf\<close> for \<^verbatim>\<open>rand.Float64()\<close>, \<open>ri\<close> for the raw number behind \<^verbatim>\<open>rand.IntN\<close>. The
  Beta sampler and the matrix operations of gonum are arguments as well. Scores are exact reals.
  The interface between the scoring policies and the selection loops is the locale \<open>scorer\<close>, that
  between the selection strategies and the path manager the locale \<open>selector\<close>.
\<close>

section \<open>Scoring policies\<close>

definition LatencyPolicy_Score :: "Path \<Rightarrow> real" where
  "LatencyPolicy_Score p =
     (if AvgRTT (p_Metrics p) \<le> 0 \<or> SampleCount (p_Metrics p) = 0 then 0
      else 1 / Seconds (AvgRTT (p_Metrics p)))"

definition HopCountPolicy_Score :: "Path \<Rightarrow> real" where
  "HopCountPolicy_Score p =
     (if SampleCount (p_Metrics p) = 0 then 0 else 1 / real_of_int (HopCount (p_Metrics p) + 1))"

definition ReliabilityPolicy_Score :: "Path \<Rightarrow> real" where
  "ReliabilityPolicy_Score p = (if SampleCount (p_Metrics p) = 0 then 0 else SuccessRate (p_Metrics p))"

record BalancedPolicy =
  LatencyWeight :: real
  ReliabilityWeight :: real
  HopCountWeight :: real
  JitterWeight :: real

definition DefaultBalancedPolicy :: BalancedPolicy where
  "DefaultBalancedPolicy = \<lparr>LatencyWeight = 35 / 100, ReliabilityWeight = 25 / 100, HopCountWeight = 25 / 100,
     JitterWeight = 15 / 100\<rparr>"

definition Log1p :: "real \<Rightarrow> real" where
  "Log1p x = ln (1 + x)"

definition BalancedPolicy_Score :: "BalancedPolicy \<Rightarrow> Path \<Rightarrow> real" where
  "BalancedPolicy_Score b p =
     (let m = p_Metrics p in
      if SampleCount m = 0 then 0
      else let latencyScore = (if AvgRTT m > 0 then 1 / (1 + Log1p (Seconds (AvgRTT m) * 1000)) else 0);
               hopScore = 1 / real_of_int (HopCount m + 1);
               reliabilityScore = SuccessRate m;
               jitterScore = (if Jitter m > 0 then 1 / (1 + Log1p (Seconds (Jitter m) * 1000)) else 1)
           in LatencyWeight b * latencyScore + ReliabilityWeight b * reliabilityScore
              + HopCountWeight b * hopScore + JitterWeight b * jitterScore)"

definition RandomPolicy_Score :: "real \<Rightarrow> Path \<Rightarrow> real" where
  "RandomPolicy_Score rf p = (if SampleCount (p_Metrics p) = 0 then 0 else rf)"

section \<open>Selection strategies\<close>

text \<open>The loops that keep the probed paths and that pick the best-scored of them.\<close>

definition viable_paths :: "Path list \<Rightarrow> Path list" where
  "viable_paths paths = filter (\<lambda>p. SampleCount (p_Metrics p) > 0) paths"

definition exploit :: "(Path \<Rightarrow> real) \<Rightarrow> Path list \<Rightarrow> Path option" where
  "exploit score vs = best_loop (map (\<lambda>p. (p, score p)) vs) None (- 1)"

definition EpsilonGreedy_SelectPath ::
  "(Path \<Rightarrow> real) \<Rightarrow> real \<Rightarrow> nat \<Rightarrow> real \<Rightarrow> Path list \<Rightarrow> Path option" where
  "EpsilonGreedy_SelectPath score rf ri eps paths =
     (if length paths = 0 then None
      else let vs = viable_paths paths in
           if length vs = 0 then Some (paths ! 0)
           else if length vs > 1 \<and> rf < eps then Some (vs ! (ri mod length vs))
           else exploit score vs)"

record DecayingEpsilonGreedyPolicy =
  EpsilonStart :: real
  EpsilonMin :: real
  DecayRate :: real
  selections :: nat

definition DefaultDecayingEpsilonGreedyPolicy :: DecayingEpsilonGreedyPolicy where
  "DefaultDecayingEpsilonGreedyPolicy =
     \<lparr>EpsilonStart = 3 / 10, EpsilonMin = 5 / 100, DecayRate = 995 / 1000, selections = 0\<rparr>"

definition CurrentEpsilon :: "DecayingEpsilonGreedyPolicy \<Rightarrow> real" where
  "CurrentEpsilon d =
     (let eps = EpsilonStart d * DecayRate d ^ selections d
      in if eps < EpsilonMin d then EpsilonMin d else eps)"

definition DecayingEpsilon_SelectPath ::
  "(Path \<Rightarrow> real) \<Rightarrow> real \<times> nat \<Rightarrow> DecayingEpsilonGreedyPolicy \<Rightarrow> Path list \<Rightarrow> Path option \<times> DecayingEpsilonGreedyPolicy" where
  "DecayingEpsilon_SelectPath score r d paths =
     (if length paths = 0 then (None, d)
      else let d' = d\<lparr>selections := selections d + 1\<rparr>; eps = CurrentEpsilon d'; vs = viable_paths paths in
           if length vs = 0 then (Some (paths ! 0), d')
           else if length vs > 1 \<and> fst r < eps then (Some (vs ! (snd r mod length vs)), d')
           else (exploit score vs, d'))"

record UCB1Policy =
  ucb_C :: real
  totalSelections :: nat
  pathSelections :: "string \<Rightarrow> nat"

definition DefaultUCB1Policy :: UCB1Policy where
  "DefaultUCB1Policy = \<lparr>ucb_C = sqrt 2, totalSelections = 0, pathSelections = (\<lambda>_. 0)\<rparr>"

definition UCB1_SelectPath ::
  "(Path \<Rightarrow> real) \<Rightarrow> UCB1Policy \<Rightarrow> Path list \<Rightarrow> Path option \<times> UCB1Policy" where
  "UCB1_SelectPath score u paths =
     (if length paths = 0 then (None, u)
      else let vs = viable_paths paths in
           if length vs = 0 then (Some (paths ! 0), u)
           else let u1 = u\<lparr>totalSelections := totalSelections u + 1\<rparr> in
             case find (\<lambda>p. pathSelections u1 (p_ID p) = 0) vs of
               Some p \<Rightarrow> (Some p, u1\<lparr>pathSelections := (pathSelections u1)(p_ID p := 1)\<rparr>)
             | None \<Rightarrow>
                 (let logN = ln (real (totalSelections u1));
                      best = best_loop (map (\<lambda>p. (p, score p + ucb_C u1 * sqrt (logN / real (pathSelections u1 (p_ID p))))) vs)
                               None (- 1)
                  in case best of
                       None \<Rightarrow> (None, u1)
                     | Some b \<Rightarrow> (Some b, u1\<lparr>pathSelections := (pathSelections u1)(p_ID b := pathSelections u1 (p_ID b) + 1)\<rparr>)))"

record ThompsonSamplingPolicy =
  th_alpha :: "string \<Rightarrow> real option"
  th_beta :: "string \<Rightarrow> real option"

definition DefaultThompsonSamplingPolicy :: ThompsonSamplingPolicy where
  "DefaultThompsonSamplingPolicy = \<lparr>th_alpha = (\<lambda>_. None), th_beta = (\<lambda>_. None)\<rparr>"

text \<open>Reading a \<^verbatim>\<open>map[string]float64\<close>: a missing key reads as 0.\<close>

definition mget :: "(string \<Rightarrow> real option) \<Rightarrow> string \<Rightarrow> real" where
  "mget m k = (case m k of Some v \<Rightarrow> v | None \<Rightarrow> 0)"

definition th_init :: "ThompsonSamplingPolicy \<Rightarrow> Path \<Rightarrow> ThompsonSamplingPolicy" where
  "th_init t p =
     (if th_alpha t (p_ID p) = None
      then t\<lparr>th_alpha := (th_alpha t)(p_ID p \<mapsto> 1), th_beta := (th_beta t)(p_ID p \<mapsto> 1)\<rparr> else t)"

definition th_update :: "(Path \<Rightarrow> real) \<Rightarrow> Path list \<Rightarrow> Path \<Rightarrow> ThompsonSamplingPolicy \<Rightarrow> ThompsonSamplingPolicy" where
  "th_update score vs best t =
     (let meanScore = sum_list (map score vs) / real (length vs);
          k = p_ID best;
          t1 = (if score best \<ge> meanScore
                then t\<lparr>th_alpha := (th_alpha t)(k \<mapsto> mget (th_alpha t) k + 1)\<rparr>
                else t\<lparr>th_beta := (th_beta t)(k \<mapsto> mget (th_beta t) k + 1)\<rparr>);
          total = mget (th_alpha t1) k + mget (th_beta t1) k
      in if total > 100
         then t1\<lparr>th_alpha := (th_alpha t1)(k \<mapsto> mget (th_alpha t1) k * (95 / 100)),
                 th_beta := (th_beta t1)(k \<mapsto> mget (th_beta t1) k * (95 / 100))\<rparr>
         else t1)"

text \<open>\<open>beta_rand i a b\<close> is the \<open>i\<close>-th sample this call draws from Beta(a, b).\<close>

definition Thompson_SelectPath ::
  "(Path \<Rightarrow> real) \<Rightarrow> (nat \<Rightarrow> real \<Rightarrow> real \<Rightarrow> real) \<Rightarrow> ThompsonSamplingPolicy \<Rightarrow> Path list \<Rightarrow>
     Path option \<times> ThompsonSamplingPolicy" where
  "Thompson_SelectPath score beta_rand t paths =
     (if length paths = 0 then (None, t)
      else let vs = viable_paths paths in
           if length vs = 0 then (Some (paths ! 0), t)
           else let t1 = foldl th_init t vs;
                    best = best_loop (map (\<lambda>(i, p). (p, beta_rand i (mget (th_alpha t1) (p_ID p)) (mget (th_beta t1) (p_ID p))))
                             (enumerate 0 vs)) None (- 1)
                in case best of
                     None \<Rightarrow> (None, t1)
                   | Some b \<Rightarrow> (Some b, th_update score vs b t1))"

section \<open>The contextual bandit\<close>

text \<open>
  LinUCB on five features. Vectors and matrices are lists of reals and of rows; the operations of
  \<^verbatim>\<open>gonum/mat\<close> the code calls are the record \<open>gonum\<close> (an inverse may not exist).
\<close>

type_synonym vec = "real list"
type_synonym matrix = "real list list"

record gonum =
  g_Inverse :: "matrix \<Rightarrow> matrix option"
  g_MulVec :: "matrix \<Rightarrow> vec \<Rightarrow> vec"
  g_Dot :: "vec \<Rightarrow> vec \<Rightarrow> real"
  g_Outer :: "real \<Rightarrow> vec \<Rightarrow> vec \<Rightarrow> matrix"
  g_Add :: "matrix \<Rightarrow> matrix \<Rightarrow> matrix"
  g_ScaleVec :: "real \<Rightarrow> vec \<Rightarrow> vec"
  g_AddVec :: "vec \<Rightarrow> vec \<Rightarrow> vec"

definition contextDim :: nat where
  "contextDim = 5"

record PathContext =
  PeerCount :: int
  ContentSizeKB :: int
  HourOfDay :: int
  AvgNetworkRTT :: real

definition featureVector :: "PathContext \<Rightarrow> vec" where
  "featureVector c = [real_of_int (PeerCount c) / 100, real_of_int (ContentSizeKB c) / 1024,
     real_of_int (HourOfDay c) / 24, AvgNetworkRTT c / 1000, 1]"

text \<open>\<^verbatim>\<open>NewDense(dim, dim, nil)\<close> followed by \<^verbatim>\<open>Set(i, i, 1.0)\<close>.\<close>

definition identity_matrix :: matrix where
  "identity_matrix = map (\<lambda>i. (replicate contextDim 0)[i := 1]) [0..<contextDim]"

record ContextualBanditPolicy =
  cb_Alpha :: real
  pathA :: "string \<Rightarrow> matrix option"
  pathB :: "string \<Rightarrow> vec option"

definition DefaultContextualBanditPolicy :: ContextualBanditPolicy where
  "DefaultContextualBanditPolicy = \<lparr>cb_Alpha = 1, pathA = (\<lambda>_. None), pathB = (\<lambda>_. None)\<rparr>"

definition initPath :: "ContextualBanditPolicy \<Rightarrow> string \<Rightarrow> ContextualBanditPolicy" where
  "initPath cb i =
     (if pathA cb i = None
      then cb\<lparr>pathA := (pathA cb)(i \<mapsto> identity_matrix), pathB := (pathB cb)(i \<mapsto> replicate contextDim 0)\<rparr>
      else cb)"

definition linucb :: "gonum \<Rightarrow> ContextualBanditPolicy \<Rightarrow> vec \<Rightarrow> string \<Rightarrow> real" where
  "linucb g cb x i =
     (let aInv = (case g_Inverse g (the (pathA cb i)) of Some m \<Rightarrow> m | None \<Rightarrow> identity_matrix);
          theta = g_MulVec g aInv (the (pathB cb i));
          predicted = g_Dot g theta x;
          tmp = g_MulVec g aInv x;
          uncertainty = sqrt \<bar>g_Dot g x tmp\<bar>
      in predicted + cb_Alpha cb * uncertainty)"

text \<open>The loop over the viable paths; \<open>None\<close> stands for the initial bound of minus infinity.\<close>

fun linucb_loop ::
  "gonum \<Rightarrow> vec \<Rightarrow> Path list \<Rightarrow> ContextualBanditPolicy \<Rightarrow> (Path \<times> real) option \<Rightarrow> Path option \<times> ContextualBanditPolicy" where
  "linucb_loop g x [] cb best = (map_option fst best, cb)"
| "linucb_loop g x (p # ps) cb best =
     (let cb' = initPath cb (p_ID p); ucb = linucb g cb' x (p_ID p) in
      linucb_loop g x ps cb'
        (case best of None \<Rightarrow> Some (p, ucb) | Some (b, bestUCB) \<Rightarrow> if ucb > bestUCB then Some (p, ucb) else best))"

definition SelectPathWithContext ::
  "gonum \<Rightarrow> ContextualBanditPolicy \<Rightarrow> Path list \<Rightarrow> PathContext \<Rightarrow> Path option \<times> ContextualBanditPolicy" where
  "SelectPathWithContext g cb paths pctx =
     (if length paths = 0 then (None, cb)
      else let vs = viable_paths paths in
           if length vs = 0 then (Some (paths ! 0), cb)
           else linucb_loop g (featureVector pctx) vs cb None)"

definition UpdateContext :: "gonum \<Rightarrow> ContextualBanditPolicy \<Rightarrow> string \<Rightarrow> PathContext \<Rightarrow> real \<Rightarrow> ContextualBanditPolicy" where
  "UpdateContext g cb pathID pctx reward =
     (let cb1 = initPath cb pathID; x = featureVector pctx in
      cb1\<lparr>pathA := (pathA cb1)(pathID \<mapsto> g_Add g (the (pathA cb1 pathID)) (g_Outer g 1 x x)),
          pathB := (pathB cb1)(pathID \<mapsto> g_AddVec g (the (pathB cb1 pathID)) (g_ScaleVec g reward x))\<rparr>)"

definition default_context :: "int \<Rightarrow> Path list \<Rightarrow> PathContext" where
  "default_context hour paths =
     (let rtts = map (\<lambda>p. real_of_int (AvgRTT (p_Metrics p) sdiv 1000000)) (filter (\<lambda>p. AvgRTT (p_Metrics p) > 0) paths)
      in \<lparr>PeerCount = int (length paths), ContentSizeKB = 0, HourOfDay = hour,
          AvgNetworkRTT = (if length rtts > 0 then sum_list rtts / real (length rtts) else 0)\<rparr>)"

definition Contextual_SelectPath ::
  "gonum \<Rightarrow> (Path \<Rightarrow> real) \<Rightarrow> int \<Rightarrow> ContextualBanditPolicy \<Rightarrow> Path list \<Rightarrow> Path option \<times> ContextualBanditPolicy" where
  "Contextual_SelectPath g score hour cb paths =
     (let pctx = default_context hour paths
      in case SelectPathWithContext g cb paths pctx of
           (None, cb1) \<Rightarrow> (None, cb1)
         | (Some best, cb1) \<Rightarrow>
             (let meanScore = sum_list (map score (viable_paths paths)) / real (max (length paths) 1);
                  reward = (if score best \<ge> meanScore then 1 else 0)
              in (Some best, UpdateContext g cb1 (p_ID best) pctx reward)))"

section \<open>Policies by name\<close>

datatype Policy =
    LatencyPolicy | HopCountPolicy | ReliabilityPolicy | BalancedPol BalancedPolicy
  | EpsilonGreedy real BalancedPolicy | DecayingEpsilon DecayingEpsilonGreedyPolicy BalancedPolicy
  | UCB1 UCB1Policy BalancedPolicy | RandomPolicy | Thompson ThompsonSamplingPolicy BalancedPolicy
  | Contextual ContextualBanditPolicy BalancedPolicy

definition ascii_lower :: "char \<Rightarrow> char" where
  "ascii_lower c = (let n = (of_char c :: nat) in if 65 \<le> n \<and> n \<le> 90 then char_of (n + 32) else c)"

definition ToLower :: "string \<Rightarrow> string" where
  "ToLower s = map ascii_lower s"

definition PolicyFromNameWithEpsilon :: "string \<Rightarrow> real \<Rightarrow> string + Policy" where
  "PolicyFromNameWithEpsilon name epsilon =
     (let l = ToLower name in
      if l = ''latency'' then Inr LatencyPolicy
      else if l = ''hop-count'' then Inr HopCountPolicy
      else if l = ''reliability'' then Inr ReliabilityPolicy
      else if l = ''balanced'' then Inr (BalancedPol DefaultBalancedPolicy)
      else if l = ''epsilon-greedy'' then Inr (EpsilonGreedy epsilon DefaultBalancedPolicy)
      else if l = ''decaying-epsilon'' then Inr (DecayingEpsilon DefaultDecayingEpsilonGreedyPolicy DefaultBalancedPolicy)
      else if l = ''ucb1'' then Inr (UCB1 DefaultUCB1Policy DefaultBalancedPolicy)
      else if l = ''random'' then Inr RandomPolicy
      else if l = ''thompson'' then Inr (Thompson DefaultThompsonSamplingPolicy DefaultBalancedPolicy)
      else if l = ''contextual'' then Inr (Contextual DefaultContextualBanditPolicy DefaultBalancedPolicy)
      else Inl name)"

definition PolicyFromName :: "string \<Rightarrow> string + Policy" where
  "PolicyFromName name = PolicyFromNameWithEpsilon name (1 / 10)"

fun Policy_Name :: "Policy \<Rightarrow> string" where
  "Policy_Name LatencyPolicy = ''latency''"
| "Policy_Name HopCountPolicy = ''hop-count''"
| "Policy_Name ReliabilityPolicy = ''reliability''"
| "Policy_Name (BalancedPol b) = ''balanced''"
| "Policy_Name (EpsilonGreedy e b) = ''epsilon-greedy''"
| "Policy_Name (DecayingEpsilon d b) = ''decaying-epsilon''"
| "Policy_Name (UCB1 u b) = ''ucb1''"
| "Policy_Name RandomPolicy = ''random''"
| "Policy_Name (Thompson t b) = ''thompson''"
| "Policy_Name (Contextual cb b) = ''contextual''"

text \<open>\<open>rf\<close> is the draw of this call, used by the random policy only.\<close>

fun Policy_Score :: "Policy \<Rightarrow> real \<Rightarrow> Path \<Rightarrow> real" where
  "Policy_Score LatencyPolicy rf p = LatencyPolicy_Score p"
| "Policy_Score HopCountPolicy rf p = HopCountPolicy_Score p"
| "Policy_Score ReliabilityPolicy rf p = ReliabilityPolicy_Score p"
| "Policy_Score (BalancedPol b) rf p = BalancedPolicy_Score b p"
| "Policy_Score (EpsilonGreedy e b) rf p = BalancedPolicy_Score b p"
| "Policy_Score (DecayingEpsilon d b) rf p = BalancedPolicy_Score b p"
| "Policy_Score (UCB1 u b) rf p = BalancedPolicy_Score b p"
| "Policy_Score RandomPolicy rf p = RandomPolicy_Score rf p"
| "Policy_Score (Thompson t b) rf p = BalancedPolicy_Score b p"
| "Policy_Score (Contextual cb b) rf p = BalancedPolicy_Score b p"

section \<open>Lemmas\<close>

lemma map_enumerate_snd: "map (\<lambda>(i, p). f p) (enumerate n xs) = map f xs"
  by (induction xs arbitrary: n) auto

lemma set_viable_paths: "set (viable_paths paths) = {p \<in> set paths. viable p}"
  by (auto simp: viable_paths_def viable_def)

lemma viable_paths_Nil: "viable_paths paths = [] \<longleftrightarrow> (\<forall>p\<in>set paths. \<not> viable p)"
  by (auto simp: viable_paths_def viable_def filter_empty_conv)

lemma log_score_bounds:
  assumes "0 \<le> x"
  shows "0 < 1 / (1 + Log1p x)" "1 / (1 + Log1p x) \<le> 1"
proof -
  have "0 \<le> Log1p x" unfolding Log1p_def using assms by (intro ln_ge_zero) simp
  then show "0 < 1 / (1 + Log1p x)" "1 / (1 + Log1p x) \<le> 1" by (simp_all add: add_pos_nonneg)
qed

section \<open>The scorer interface\<close>

text \<open>
  What the selection loops rely on: a probed path with sound metrics has a score that is not
  negative, so it beats the loops' initial bound of -1.
\<close>

locale scorer =
  fixes score :: "Path \<Rightarrow> real"
  assumes score_nonneg: "path_ok p \<Longrightarrow> 0 \<le> score p"
begin

lemma exploit_argmax:
  assumes "vs \<noteq> []" "\<forall>p\<in>set vs. path_ok p"
  shows "\<exists>b\<in>set vs. exploit score vs = Some b \<and> (\<forall>p\<in>set vs. score p \<le> score b)"
proof -
  have "map (\<lambda>p. (p, score p)) vs \<noteq> []" "\<forall>x\<in>set (map (\<lambda>p. (p, score p)) vs). 0 \<le> snd x"
    using assms by (auto intro: score_nonneg)
  from best_loop_argmax [OF this] show ?thesis by (auto simp: exploit_def)
qed

lemma Best_argmax:
  assumes "enumerates iter ps" "pathset_ok ps" "ps \<noteq> (\<lambda>_. None)"
  shows "\<exists>b\<in>ran ps. PathSet_Best iter (\<lambda>_. score) ps = Some b \<and> (\<forall>p\<in>ran ps. score p \<le> score b)"
proof -
  have r: "set (PathSet_All iter ps) = ran ps" using assms(1) by (rule set_PathSet_All)
  have "PathSet_All iter ps \<noteq> []"
  proof
    assume "PathSet_All iter ps = []"
    with r have "ran ps = {}" by simp
    then show False using assms(3) by (auto simp: ran_def fun_eq_iff)
  qed
  moreover have "\<forall>p\<in>set (PathSet_All iter ps). path_ok p"
    unfolding r using assms(2) by (auto simp: ran_def pathset_ok_def)
  ultimately have "\<exists>b\<in>set (PathSet_All iter ps). exploit score (PathSet_All iter ps) = Some b
      \<and> (\<forall>p\<in>set (PathSet_All iter ps). score p \<le> score b)"
    by (rule exploit_argmax)
  then show ?thesis by (simp add: r PathSet_Best_def exploit_def map_enumerate_snd)
qed

end

section \<open>The selector interface\<close>

text \<open>
  What the path manager relies on: a strategy with state \<open>p\<close> and random input \<open>r\<close> picks a member of
  any non-empty list of paths with sound metrics, a probed one whenever there is one, and keeps its
  own invariant.
\<close>

locale selector =
  fixes inv :: "'p \<Rightarrow> bool"
    and okr :: "'r \<Rightarrow> bool"
    and select :: "'r \<Rightarrow> 'p \<Rightarrow> Path list \<Rightarrow> Path option \<times> 'p"
  assumes select_empty: "select r s [] = (None, s)"
    and select_inv: "inv s \<Longrightarrow> okr r \<Longrightarrow> \<forall>p\<in>set ps. path_ok p \<Longrightarrow> inv (snd (select r s ps))"
    and select_some: "inv s \<Longrightarrow> okr r \<Longrightarrow> ps \<noteq> [] \<Longrightarrow> \<forall>p\<in>set ps. path_ok p \<Longrightarrow>
      \<exists>x\<in>set ps. fst (select r s ps) = Some x \<and> ((\<exists>y\<in>set ps. viable y) \<longrightarrow> viable x)"
begin

text \<open>A sequence of selections, each from its own list with its own random input.\<close>

lemma run_inv:
  "inv s \<Longrightarrow> \<forall>(r, ps)\<in>set steps. okr r \<and> (\<forall>p\<in>set ps. path_ok p) \<Longrightarrow>
   inv (foldl (\<lambda>s (r, ps). snd (select r s ps)) s steps)"
proof (induction steps arbitrary: s)
  case (Cons step steps)
  obtain r ps where step: "step = (r, ps)" by fastforce
  have "inv (snd (select r s ps))" using Cons.prems step by (intro select_inv) auto
  with Cons.IH [of "snd (select r s ps)"] Cons.prems step show ?case by simp
qed simp

lemma select_None_iff:
  "inv s \<Longrightarrow> okr r \<Longrightarrow> \<forall>p\<in>set ps. path_ok p \<Longrightarrow> fst (select r s ps) = None \<longleftrightarrow> ps = []"
  using select_some [of s r ps] select_empty by (cases "ps = []") auto

lemma select_after_run:
  assumes "inv s" "\<forall>(r, ps)\<in>set steps. okr r \<and> (\<forall>p\<in>set ps. path_ok p)"
    and "okr r" "ps \<noteq> []" "\<forall>p\<in>set ps. path_ok p"
  shows "\<exists>x\<in>set ps. fst (select r (foldl (\<lambda>s (r, ps). snd (select r s ps)) s steps) ps) = Some x
    \<and> ((\<exists>y\<in>set ps. viable y) \<longrightarrow> viable x)"
  using select_some [OF run_inv [OF assms(1,2)] assms(3,4,5)] .

end

text \<open>Every strategy over a sound scorer is a sound selector.\<close>

sublocale scorer \<subseteq> eps: selector "\<lambda>_. True" "\<lambda>_. True"
  "\<lambda>r e ps. (EpsilonGreedy_SelectPath score (fst r) (snd r) e ps, e)"
proof
  fix r :: "real \<times> nat" and e :: real and ps
  assume ps: "ps \<noteq> []" "\<forall>p\<in>set ps. path_ok p"
  show "\<exists>x\<in>set ps. fst (EpsilonGreedy_SelectPath score (fst r) (snd r) e ps, e) = Some x
      \<and> ((\<exists>y\<in>set ps. viable y) \<longrightarrow> viable x)"
  proof (cases "viable_paths ps = []")
    case True
    then show ?thesis using ps
      by (auto simp: EpsilonGreedy_SelectPath_def viable_paths_Nil Let_def intro: nth_mem)
  next
    case False
    obtain b where b: "b \<in> set (viable_paths ps)" "exploit score (viable_paths ps) = Some b"
      using exploit_argmax [OF False] ps by (auto simp: set_viable_paths)
    have "viable_paths ps ! (snd r mod length (viable_paths ps)) \<in> set (viable_paths ps)"
      using False by (intro nth_mem) simp
    with b show ?thesis using ps(1) False
      by (auto simp: EpsilonGreedy_SelectPath_def Let_def set_viable_paths)
  qed
qed (simp_all add: EpsilonGreedy_SelectPath_def)

sublocale scorer \<subseteq> decay: selector "\<lambda>_. True" "\<lambda>_. True" "DecayingEpsilon_SelectPath score"
proof
  fix r :: "real \<times> nat" and d and ps
  assume ps: "ps \<noteq> []" "\<forall>p\<in>set ps. path_ok p"
  have "fst (DecayingEpsilon_SelectPath score r d ps) =
      EpsilonGreedy_SelectPath score (fst r) (snd r) (CurrentEpsilon (d\<lparr>selections := selections d + 1\<rparr>)) ps"
    by (simp add: DecayingEpsilon_SelectPath_def EpsilonGreedy_SelectPath_def Let_def)
  with eps.select_some [where s = "CurrentEpsilon (d\<lparr>selections := selections d + 1\<rparr>)" and r = r, OF _ _ ps]
  show "\<exists>x\<in>set ps. fst (DecayingEpsilon_SelectPath score r d ps) = Some x \<and> ((\<exists>y\<in>set ps. viable y) \<longrightarrow> viable x)"
    by simp
qed (simp_all add: DecayingEpsilon_SelectPath_def)

lemma ucb_step:
  assumes "0 \<le> ucb_C u" "vs \<noteq> []" "\<forall>p\<in>set vs. 0 \<le> score p" "1 \<le> N"
  shows "\<exists>b\<in>set vs. best_loop (map (\<lambda>p. (p, score p + ucb_C u * sqrt (ln (real N) / real (n (p_ID p))))) vs) None (- 1) = Some b
    \<and> (\<forall>p\<in>set vs. score p + ucb_C u * sqrt (ln (real N) / real (n (p_ID p)))
         \<le> score b + ucb_C u * sqrt (ln (real N) / real (n (p_ID b))))"
proof -
  have "0 \<le> ln (real N) / real k" for k using assms(4) by (intro divide_nonneg_nonneg ln_ge_zero) auto
  then have "0 \<le> score p + ucb_C u * sqrt (ln (real N) / real k)" if "p \<in> set vs" for p k
    using that assms(1,3) by (intro add_nonneg_nonneg mult_nonneg_nonneg) auto
  then have "\<forall>x\<in>set (map (\<lambda>p. (p, score p + ucb_C u * sqrt (ln (real N) / real (n (p_ID p))))) vs). 0 \<le> snd x"
    by auto
  moreover have "map (\<lambda>p. (p, score p + ucb_C u * sqrt (ln (real N) / real (n (p_ID p))))) vs \<noteq> []" using assms(2) by simp
  ultimately show ?thesis using best_loop_argmax [of "map (\<lambda>p. (p, score p + ucb_C u * sqrt (ln (real N) / real (n (p_ID p))))) vs"]
    by auto
qed

sublocale scorer \<subseteq> ucb: selector "\<lambda>u. 0 \<le> ucb_C u" "\<lambda>_::unit. True" "\<lambda>_. UCB1_SelectPath score"
proof
  fix u :: UCB1Policy and ps
  assume u: "0 \<le> ucb_C u" and ps: "ps \<noteq> []" "\<forall>p\<in>set ps. path_ok p"
  let ?vs = "viable_paths ps"
  show "\<exists>x\<in>set ps. fst (UCB1_SelectPath score u ps) = Some x \<and> ((\<exists>y\<in>set ps. viable y) \<longrightarrow> viable x)"
  proof (cases "?vs = []")
    case True
    then show ?thesis using ps by (auto simp: UCB1_SelectPath_def viable_paths_Nil Let_def intro: nth_mem)
  next
    case False
    show ?thesis
    proof (cases "find (\<lambda>p. pathSelections u (p_ID p) = 0) ?vs")
      case None
      have "\<forall>p\<in>set ?vs. 0 \<le> score p" using ps(2) by (auto simp: set_viable_paths intro: score_nonneg)
      from ucb_step [of "u\<lparr>totalSelections := totalSelections u + 1\<rparr>" ?vs score "totalSelections u + 1"
          "pathSelections u", OF _ False this]
      obtain b where "b \<in> set ?vs" "fst (UCB1_SelectPath score u ps) = Some b"
        using u ps(1) False None by (auto simp: UCB1_SelectPath_def Let_def)
      then show ?thesis by (auto simp: set_viable_paths)
    next
      case (Some b)
      then have "b \<in> set ?vs" by (auto simp: find_Some_iff)
      then show ?thesis using Some ps(1) False by (auto simp: UCB1_SelectPath_def Let_def set_viable_paths)
    qed
  qed
qed (auto simp: UCB1_SelectPath_def Let_def split: option.split)

text \<open>Thompson sampling: the priors are positive and their sum is at most 100.\<close>

fun prior_ok :: "real option \<Rightarrow> real option \<Rightarrow> bool" where
  "prior_ok None b = (b = None)"
| "prior_ok (Some a) None = False"
| "prior_ok (Some a) (Some b) = (0 < a \<and> 0 < b \<and> a + b \<le> 100)"

definition th_ok :: "ThompsonSamplingPolicy \<Rightarrow> bool" where
  "th_ok t \<longleftrightarrow> (\<forall>k. prior_ok (th_alpha t k) (th_beta t k))"

lemma th_ok_upd:
  assumes "th_ok t" "0 < a" "0 < b" "a + b \<le> 100"
  shows "th_ok (t\<lparr>th_alpha := (th_alpha t)(k \<mapsto> a), th_beta := (th_beta t)(k \<mapsto> b)\<rparr>)"
  using assms by (simp add: th_ok_def)

lemma th_ok_init: "th_ok t \<Longrightarrow> th_ok (th_init t p)"
  using th_ok_upd [of t 1 1] by (simp add: th_init_def)

lemma th_init_known: "th_alpha (th_init t p) k \<noteq> None \<longleftrightarrow> k = p_ID p \<or> th_alpha t k \<noteq> None"
  by (auto simp: th_init_def)

lemma th_ok_inits: "th_ok t \<Longrightarrow> th_ok (foldl th_init t vs)"
  by (induction vs arbitrary: t) (auto intro: th_ok_init)

lemma th_inits_known: "th_alpha (foldl th_init t vs) k \<noteq> None \<longleftrightarrow> k \<in> p_ID ` set vs \<or> th_alpha t k \<noteq> None"
proof (induction vs arbitrary: t)
  case (Cons v vs)
  then show ?case using th_init_known [of t v k] by auto
qed simp

lemma th_ok_D:
  assumes "th_ok t" "th_alpha t k \<noteq> None"
  shows "\<exists>a b. th_alpha t k = Some a \<and> th_beta t k = Some b \<and> 0 < a \<and> 0 < b \<and> a + b \<le> 100"
proof -
  have "prior_ok (th_alpha t k) (th_beta t k)" using assms(1) by (simp add: th_ok_def)
  with assms(2) show ?thesis by (cases "th_alpha t k"; cases "th_beta t k") auto
qed

lemma th_update_eq:
  assumes "th_beta t (p_ID best) = Some b" "th_alpha t (p_ID best) = Some a"
  shows "\<exists>a' b'. th_update score vs best t =
      t\<lparr>th_alpha := (th_alpha t)(p_ID best \<mapsto> a'), th_beta := (th_beta t)(p_ID best \<mapsto> b')\<rparr>
    \<and> (\<exists>x y. {x, y} = {0, 1} \<and> a' = (if a + b + 1 > 100 then (a + x) * (95 / 100) else a + x)
         \<and> b' = (if a + b + 1 > 100 then (b + y) * (95 / 100) else b + y))"
proof (cases "score best \<ge> sum_list (map score vs) / real (length vs)")
  case True
  have "(th_beta t)(p_ID best \<mapsto> b) = th_beta t" using assms(1) by (simp add: fun_upd_idem)
  with True assms show ?thesis
    by (intro exI [of _ "if a + b + 1 > 100 then (a + 1) * (95 / 100) else a + 1"]
          exI [of _ "if a + b + 1 > 100 then b * (95 / 100) else b"] conjI exI [of _ 1] exI [of _ 0])
       (auto simp: th_update_def Let_def mget_def algebra_simps)
next
  case False
  have "(th_alpha t)(p_ID best \<mapsto> a) = th_alpha t" using assms(2) by (simp add: fun_upd_idem)
  with False assms show ?thesis
    by (intro exI [of _ "if a + b + 1 > 100 then a * (95 / 100) else a"]
          exI [of _ "if a + b + 1 > 100 then (b + 1) * (95 / 100) else b + 1"] conjI exI [of _ 0] exI [of _ 1])
       (auto simp: th_update_def Let_def mget_def algebra_simps)
qed

lemma th_ok_update:
  assumes "th_ok t" "th_alpha t (p_ID best) \<noteq> None"
  shows "th_ok (th_update score vs best t)"
proof -
  obtain a b where ab: "th_alpha t (p_ID best) = Some a" "th_beta t (p_ID best) = Some b"
    and pos: "0 < a" "0 < b" "a + b \<le> 100" using th_ok_D [OF assms] by blast
  obtain a' b' x y where eq: "th_update score vs best t =
      t\<lparr>th_alpha := (th_alpha t)(p_ID best \<mapsto> a'), th_beta := (th_beta t)(p_ID best \<mapsto> b')\<rparr>"
    and xy: "{x, y} = {0, 1 :: real}" and a': "a' = (if a + b + 1 > 100 then (a + x) * (95 / 100) else a + x)"
    and b': "b' = (if a + b + 1 > 100 then (b + y) * (95 / 100) else b + y)"
    using th_update_eq [OF ab(2,1), of score vs] by blast
  have xy': "0 \<le> x" "0 \<le> y" "x + y = 1" using xy by (auto simp: doubleton_eq_iff)
  have "0 < a'" "0 < b'" using pos xy' by (auto simp: a' b')
  moreover have "a' + b' \<le> 100"
  proof (cases "a + b + 1 > 100")
    case True
    then have "a' + b' = (a + x) * (95 / 100) + (b + y) * (95 / 100)" by (simp only: a' b' if_True)
    also have "\<dots> = (a + x + (b + y)) * (95 / 100)" by (rule distrib_right [symmetric])
    also have "\<dots> \<le> 101 * (95 / 100)" using pos xy' by (intro mult_right_mono) linarith+
    finally show ?thesis by simp
  next
    case False
    then have "a' + b' = a + x + (b + y)" by (simp only: a' b' if_False)
    with False xy' show ?thesis by linarith
  qed
  ultimately show ?thesis using th_ok_upd [OF assms(1)] eq by simp
qed

definition beta_ok :: "(nat \<Rightarrow> real \<Rightarrow> real \<Rightarrow> real) \<Rightarrow> bool" where
  "beta_ok beta_rand \<longleftrightarrow> (\<forall>i a b. 0 < a \<longrightarrow> 0 < b \<longrightarrow> 0 \<le> beta_rand i a b \<and> beta_rand i a b \<le> 1)"

lemma Thompson_cases:
  assumes "th_ok t" "beta_ok beta_rand" "viable_paths ps \<noteq> []"
  shows "\<exists>b\<in>set (viable_paths ps). Thompson_SelectPath score beta_rand t ps =
    (Some b, th_update score (viable_paths ps) b (foldl th_init t (viable_paths ps)))"
proof -
  let ?vs = "viable_paths ps" let ?t = "foldl th_init t ?vs"
  let ?xs = "map (\<lambda>(i, p). (p, beta_rand i (mget (th_alpha ?t) (p_ID p)) (mget (th_beta ?t) (p_ID p)))) (enumerate 0 ?vs)"
  have ne: "ps \<noteq> []" using assms(3) by (auto simp: viable_paths_def)
  have "0 \<le> beta_rand i (mget (th_alpha ?t) (p_ID p)) (mget (th_beta ?t) (p_ID p))" if "p \<in> set ?vs" for i p
    using th_ok_D [OF th_ok_inits [OF assms(1)], of ?vs "p_ID p"] th_inits_known [of t ?vs "p_ID p"] that assms(2)
    by (auto simp: beta_ok_def mget_def)
  then have nn: "\<forall>x\<in>set ?xs. 0 \<le> snd x" by (auto simp: in_set_enumerate_eq)
  have "?xs \<noteq> []" using assms(3) by (auto simp: enumerate_eq_zip)
  from best_loop_argmax [OF this nn] obtain b sc where b: "best_loop ?xs None (- 1) = Some b" "(b, sc) \<in> set ?xs"
    by blast
  then have "b \<in> set ?vs" by (auto simp: in_set_enumerate_eq)
  moreover have "Thompson_SelectPath score beta_rand t ps = (Some b, th_update score ?vs b ?t)"
    using b(1) ne assms(3) by (simp add: Thompson_SelectPath_def Let_def)
  ultimately show ?thesis by blast
qed

lemma Thompson_idle: "viable_paths ps = [] \<Longrightarrow>
  Thompson_SelectPath score beta_rand t ps = (if ps = [] then None else Some (ps ! 0), t)"
  by (simp add: Thompson_SelectPath_def)

sublocale scorer \<subseteq> thompson: selector th_ok beta_ok "Thompson_SelectPath score"
proof
  fix t beta_rand ps
  assume t: "th_ok t" and r: "beta_ok beta_rand"
  show "th_ok (snd (Thompson_SelectPath score beta_rand t ps))"
  proof (cases "viable_paths ps = []")
    case False
    from Thompson_cases [OF t r this, of score] obtain b where b: "b \<in> set (viable_paths ps)"
      "Thompson_SelectPath score beta_rand t ps =
        (Some b, th_update score (viable_paths ps) b (foldl th_init t (viable_paths ps)))" by blast
    then show ?thesis
      using th_ok_update [OF th_ok_inits [OF t]] th_inits_known [of t "viable_paths ps" "p_ID b"] by auto
  qed (simp add: Thompson_idle t)
  assume ps: "ps \<noteq> []"
  show "\<exists>x\<in>set ps. fst (Thompson_SelectPath score beta_rand t ps) = Some x \<and> ((\<exists>y\<in>set ps. viable y) \<longrightarrow> viable x)"
  proof (cases "viable_paths ps = []")
    case True
    then show ?thesis using ps by (auto simp: Thompson_idle viable_paths_Nil intro: nth_mem)
  next
    case False
    from Thompson_cases [OF t r this, of score] show ?thesis by (auto simp: set_viable_paths)
  qed
qed (simp add: Thompson_SelectPath_def)

text \<open>The contextual bandit.\<close>

lemma linucb_loop_member:
  "fst (linucb_loop g x ps cb best) = Some b \<Longrightarrow> b \<in> set ps \<or> b \<in> fst ` set_option best"
  by (induction g x ps cb best rule: linucb_loop.induct)
     (auto simp: Let_def split: option.splits if_splits)

lemma linucb_loop_some: "ps \<noteq> [] \<or> best \<noteq> None \<Longrightarrow> fst (linucb_loop g x ps cb best) \<noteq> None"
  by (induction g x ps cb best rule: linucb_loop.induct)
     (auto simp: Let_def split: option.splits if_splits)

lemma fst_Contextual_SelectPath:
  "fst (Contextual_SelectPath g score hour cb ps) = fst (SelectPathWithContext g cb ps (default_context hour ps))"
  by (cases "SelectPathWithContext g cb ps (default_context hour ps)")
     (auto simp: Contextual_SelectPath_def Let_def split: option.split)

sublocale scorer \<subseteq> contextual: selector "\<lambda>_. True" "\<lambda>_. True"
  "\<lambda>r. Contextual_SelectPath (fst r) score (snd r)"
proof
  fix r :: "gonum \<times> int" and cb and ps :: "Path list"
  assume ps: "ps \<noteq> []"
  note eq = fst_Contextual_SelectPath [of "fst r" score "snd r" cb ps]
  show "\<exists>x\<in>set ps. fst (Contextual_SelectPath (fst r) score (snd r) cb ps) = Some x \<and> ((\<exists>y\<in>set ps. viable y) \<longrightarrow> viable x)"
  proof (cases "viable_paths ps = []")
    case True
    then show ?thesis unfolding eq using ps by (auto simp: SelectPathWithContext_def viable_paths_Nil intro: nth_mem)
  next
    case False
    then obtain b where b: "fst (linucb_loop (fst r) (featureVector (default_context (snd r) ps)) (viable_paths ps) cb None) = Some b"
      using linucb_loop_some [of "viable_paths ps" None] by blast
    then have "b \<in> set (viable_paths ps)" using linucb_loop_member [OF b] by simp
    with b False ps show ?thesis unfolding eq by (auto simp: SelectPathWithContext_def Let_def set_viable_paths)
  qed
qed (simp_all add: Contextual_SelectPath_def SelectPathWithContext_def Let_def)

section \<open>Interpretations\<close>

interpretation latency: scorer LatencyPolicy_Score
  by unfold_locales (simp add: LatencyPolicy_Score_def Seconds_def)

interpretation hops: scorer HopCountPolicy_Score
  by unfold_locales (simp add: HopCountPolicy_Score_def path_ok_def metrics_ok_def)

interpretation reliability: scorer ReliabilityPolicy_Score
  by unfold_locales (simp add: ReliabilityPolicy_Score_def path_ok_def metrics_ok_def)

lemma balanced_bounds:
  assumes "path_ok p"
  shows "0 \<le> BalancedPolicy_Score DefaultBalancedPolicy p" "BalancedPolicy_Score DefaultBalancedPolicy p \<le> 1"
proof -
  let ?m = "p_Metrics p"
  define lat where "lat = (if AvgRTT ?m > 0 then 1 / (1 + Log1p (Seconds (AvgRTT ?m) * 1000)) else 0)"
  define jit where "jit = (if Jitter ?m > 0 then 1 / (1 + Log1p (Seconds (Jitter ?m) * 1000)) else 1)"
  define hop where "hop = 1 / real_of_int (HopCount ?m + 1)"
  have m: "0 \<le> SuccessRate ?m" "SuccessRate ?m \<le> 1" "0 \<le> HopCount ?m"
    using assms by (simp_all add: path_ok_def metrics_ok_def)
  have "0 \<le> lat" "lat \<le> 1" using log_score_bounds [of "Seconds (AvgRTT ?m) * 1000"]
    by (auto simp: lat_def Seconds_def)
  moreover have "0 \<le> jit" "jit \<le> 1" using log_score_bounds [of "Seconds (Jitter ?m) * 1000"]
    by (auto simp: jit_def Seconds_def)
  moreover have "0 \<le> hop" "hop \<le> 1" using m(3) by (simp_all add: hop_def)
  moreover have "BalancedPolicy_Score DefaultBalancedPolicy p = (if SampleCount ?m = 0 then 0
      else 35 / 100 * lat + 25 / 100 * SuccessRate ?m + 25 / 100 * hop + 15 / 100 * jit)"
    by (simp add: BalancedPolicy_Score_def DefaultBalancedPolicy_def Let_def lat_def jit_def hop_def)
  ultimately show "0 \<le> BalancedPolicy_Score DefaultBalancedPolicy p" "BalancedPolicy_Score DefaultBalancedPolicy p \<le> 1"
    using m(1,2) by auto
qed

interpretation balanced: scorer "BalancedPolicy_Score DefaultBalancedPolicy"
  by unfold_locales (rule balanced_bounds)

subsection \<open>Runs of the strategies\<close>

abbreviation chosen_from :: "Path option \<Rightarrow> Path list \<Rightarrow> bool" where
  "chosen_from r ps \<equiv> (\<exists>x\<in>set ps. r = Some x \<and> ((\<exists>y\<in>set ps. viable y) \<longrightarrow> viable x))"

text \<open>UCB1: the selections of the paths in a finite set of identifiers add up to the total.\<close>

definition ucb_counts :: "string set \<Rightarrow> UCB1Policy \<Rightarrow> bool" where
  "ucb_counts I u \<longleftrightarrow> finite I \<and> (\<forall>i. i \<notin> I \<longrightarrow> pathSelections u i = 0)
     \<and> (\<Sum>i\<in>I. pathSelections u i) = totalSelections u"

lemma ucb_counts_bump:
  assumes "ucb_counts I u" "i \<in> I"
  shows "ucb_counts I (u\<lparr>totalSelections := totalSelections u + 1, pathSelections := (pathSelections u)(i := pathSelections u i + 1)\<rparr>)"
  using assms by (auto simp: ucb_counts_def sum.remove [of I i] intro!: sum.cong)

lemma UCB1_cases:
  assumes "0 \<le> ucb_C u" "\<forall>p\<in>set ps. 0 \<le> score p" "viable_paths ps \<noteq> []"
  shows "\<exists>b\<in>set (viable_paths ps). UCB1_SelectPath score u ps =
      (Some b, u\<lparr>totalSelections := totalSelections u + 1, pathSelections := (pathSelections u)(p_ID b := pathSelections u (p_ID b) + 1)\<rparr>)
    \<and> ((\<exists>p\<in>set (viable_paths ps). pathSelections u (p_ID p) = 0) \<longrightarrow> pathSelections u (p_ID b) = 0)"
proof (cases "find (\<lambda>p. pathSelections u (p_ID p) = 0) (viable_paths ps)")
  case None
  have ne: "ps \<noteq> []" using assms(3) by (auto simp: viable_paths_def)
  have "\<forall>p\<in>set (viable_paths ps). 0 \<le> score p" using assms(2) by (auto simp: set_viable_paths)
  from ucb_step [of u "viable_paths ps" score "totalSelections u + 1" "pathSelections u", OF assms(1) assms(3) this]
  obtain b where b: "b \<in> set (viable_paths ps)" "best_loop (map (\<lambda>p. (p, score p + ucb_C u
      * sqrt (ln (real (totalSelections u + 1)) / real (pathSelections u (p_ID p))))) (viable_paths ps)) None (- 1) = Some b"
    by auto
  have "UCB1_SelectPath score u ps = (Some b, u\<lparr>totalSelections := totalSelections u + 1,
      pathSelections := (pathSelections u)(p_ID b := pathSelections u (p_ID b) + 1)\<rparr>)"
    using ne assms(3) None b(2) by (simp add: UCB1_SelectPath_def Let_def)
  moreover have "\<forall>p\<in>set (viable_paths ps). pathSelections u (p_ID p) \<noteq> 0"
    using None by (simp add: find_None_iff)
  ultimately show ?thesis using b(1) by blast
next
  case (Some b)
  have ne: "ps \<noteq> []" using assms(3) by (auto simp: viable_paths_def)
  have "b \<in> set (viable_paths ps)" "pathSelections u (p_ID b) = 0" using Some by (auto simp: find_Some_iff)
  then show ?thesis using Some ne assms(3) by (auto simp: UCB1_SelectPath_def Let_def)
qed

lemma UCB1_idle: "viable_paths ps = [] \<Longrightarrow> snd (UCB1_SelectPath score u ps) = u"
  by (simp add: UCB1_SelectPath_def)

section \<open>Properties\<close>

text \<open>
  \<^verbatim>\<open>PathSet.Best\<close> under the latency, hop-count, reliability and default balanced policies returns,
  for every non-empty set of paths with sound metrics and in whatever order the map is traversed, a
  path of the set whose score no other path exceeds.
\<close>

lemma PathSet_Best_argmax:
  assumes "pol \<in> {LatencyPolicy, HopCountPolicy, ReliabilityPolicy, BalancedPol DefaultBalancedPolicy}"
    and "enumerates iter ps" and "pathset_ok ps" and "ps \<noteq> (\<lambda>_. None)"
  shows "\<exists>b\<in>ran ps. PathSet_Best iter (\<lambda>_. Policy_Score pol rf) ps = Some b
    \<and> (\<forall>p\<in>ran ps. Policy_Score pol rf p \<le> Policy_Score pol rf b)"
proof -
  have eq: "Policy_Score LatencyPolicy rf = LatencyPolicy_Score" "Policy_Score HopCountPolicy rf = HopCountPolicy_Score"
    "Policy_Score ReliabilityPolicy rf = ReliabilityPolicy_Score"
    "Policy_Score (BalancedPol DefaultBalancedPolicy) rf = BalancedPolicy_Score DefaultBalancedPolicy" by auto
  from assms(1) consider "pol = LatencyPolicy" | "pol = HopCountPolicy" | "pol = ReliabilityPolicy"
    | "pol = BalancedPol DefaultBalancedPolicy" by blast
  then show ?thesis
    using latency.Best_argmax [OF assms(2-4)] hops.Best_argmax [OF assms(2-4)]
      reliability.Best_argmax [OF assms(2-4)] balanced.Best_argmax [OF assms(2-4)]
    by cases (simp_all only: eq)
qed

definition wit_probed :: "string \<Rightarrow> duration \<Rightarrow> Path" where
  "wit_probed i rtt = \<lparr>p_ID = i, p_Target = ''t'', p_Type = PathDirect, p_RelayChain = [],
     p_Metrics = zero_metrics\<lparr>SampleCount := 1, SuccessRate := 1, AvgRTT := rtt, P95RTT := rtt\<rparr>\<rparr>"

lemma wit_probed_ok: "0 \<le> rtt \<Longrightarrow> path_ok (wit_probed i rtt)"
  by (simp add: path_ok_def metrics_ok_def wit_probed_def zero_metrics_def)

text \<open>
  C22. After any run of selections, each from its own list of paths with sound metrics, every one of
  the five strategies the manager uses (with the default balanced delegate) picks a member of a
  non-empty list, and a probed path whenever there is one, whatever the random source delivers.
\<close>

theorem strategies_sound:
  assumes "ps \<noteq> []" and "\<forall>p\<in>set ps. path_ok p" and "\<forall>(r, qs)\<in>set steps. beta_ok (snd r) \<and> (\<forall>p\<in>set qs. path_ok p)"
    and "beta_ok beta_rand" and "score = BalancedPolicy_Score DefaultBalancedPolicy"
  shows "chosen_from (EpsilonGreedy_SelectPath score rf ri eps ps) ps
    \<and> chosen_from (fst (DecayingEpsilon_SelectPath score (rf, ri) d ps)) ps
    \<and> chosen_from (fst (UCB1_SelectPath score (foldl (\<lambda>u (r, qs). snd (UCB1_SelectPath score u qs)) DefaultUCB1Policy steps) ps)) ps
    \<and> chosen_from (fst (Thompson_SelectPath score beta_rand
        (foldl (\<lambda>t (r, qs). snd (Thompson_SelectPath score (snd r) t qs)) DefaultThompsonSamplingPolicy steps) ps)) ps
    \<and> chosen_from (fst (Contextual_SelectPath g score hour cb ps)) ps"
proof -
  have u0: "0 \<le> ucb_C DefaultUCB1Policy" by (simp add: DefaultUCB1Policy_def)
  have t0: "th_ok DefaultThompsonSamplingPolicy" by (simp add: DefaultThompsonSamplingPolicy_def th_ok_def)
  let ?us = "map (\<lambda>(r, qs). ((), qs)) steps" and ?ts = "map (\<lambda>(r, qs). (snd r, qs)) steps"
  have us: "\<forall>(r, qs)\<in>set ?us. True \<and> (\<forall>p\<in>set qs. path_ok p)"
    and ts: "\<forall>(r, qs)\<in>set ?ts. beta_ok r \<and> (\<forall>p\<in>set qs. path_ok p)"
    using assms(3) by auto
  have 1: "chosen_from (EpsilonGreedy_SelectPath score rf ri eps ps) ps"
    using balanced.eps.select_some [OF _ _ assms(1,2), where r = "(rf, ri)" and s = eps] unfolding assms(5) by simp
  have 2: "chosen_from (fst (DecayingEpsilon_SelectPath score (rf, ri) d ps)) ps"
    unfolding assms(5) by (rule balanced.decay.select_some [OF _ _ assms(1,2)]) simp_all
  have 3: "chosen_from (fst (UCB1_SelectPath score (foldl (\<lambda>u (r, qs). snd (UCB1_SelectPath score u qs)) DefaultUCB1Policy steps) ps)) ps"
    using balanced.ucb.select_after_run [OF u0 us _ assms(1,2)] unfolding assms(5) foldl_map
    by (simp add: case_prod_unfold)
  have 4: "chosen_from (fst (Thompson_SelectPath score beta_rand
      (foldl (\<lambda>t (r, qs). snd (Thompson_SelectPath score (snd r) t qs)) DefaultThompsonSamplingPolicy steps) ps)) ps"
    using balanced.thompson.select_after_run [OF t0 ts assms(4,1,2)] unfolding assms(5) foldl_map
    by (simp add: case_prod_unfold)
  have 5: "chosen_from (fst (Contextual_SelectPath g score hour cb ps)) ps"
    using balanced.contextual.select_some [OF _ _ assms(1,2), where r = "(g, hour)" and s = cb] unfolding assms(5) by simp
  from 1 2 3 4 5 show ?thesis by blast
qed

theorem strategies_sound_witness:
  "\<exists>x. fst (Thompson_SelectPath (BalancedPolicy_Score DefaultBalancedPolicy) (\<lambda>i a b. a / (a + b))
     DefaultThompsonSamplingPolicy [wit_probed ''a'' 5]) = Some x"
proof -
  have "beta_ok (\<lambda>i a b. a / (a + b))" by (simp add: beta_ok_def)
  then show ?thesis
    using strategies_sound [of "[wit_probed ''a'' 5]" "[]" "\<lambda>i a b. a / (a + b)"] wit_probed_ok [of 5] by auto
qed



text \<open>
  The decaying exploration rate starts at most at its initial value, never increases with the
  number of selections, never falls below the minimum, and after finitely many selections equals it
  for good.
\<close>

lemma CurrentEpsilon_decays:
  assumes "0 \<le> EpsilonStart d" and "0 < EpsilonMin d" and "EpsilonMin d \<le> EpsilonStart d" and "0 \<le> DecayRate d" and "DecayRate d < 1"
  shows "(\<forall>t. EpsilonMin d \<le> CurrentEpsilon (d\<lparr>selections := t\<rparr>) \<and> CurrentEpsilon (d\<lparr>selections := t\<rparr>) \<le> EpsilonStart d)
    \<and> (\<forall>t. CurrentEpsilon (d\<lparr>selections := Suc t\<rparr>) \<le> CurrentEpsilon (d\<lparr>selections := t\<rparr>))
    \<and> (\<exists>T. \<forall>t. T \<le> t \<longrightarrow> CurrentEpsilon (d\<lparr>selections := t\<rparr>) = EpsilonMin d)"
proof -
  have pow: "0 \<le> DecayRate d ^ t" "DecayRate d ^ t \<le> 1" "DecayRate d ^ Suc t \<le> DecayRate d ^ t" for t
    using assms(4,5) by (auto simp: power_le_one mult_left_le_one_le)
  have eps: "CurrentEpsilon (d\<lparr>selections := t\<rparr>) = max (EpsilonMin d) (EpsilonStart d * DecayRate d ^ t)" for t
    by (auto simp: CurrentEpsilon_def Let_def max_def)
  have up: "EpsilonStart d * DecayRate d ^ t \<le> EpsilonStart d" for t
    using assms(1) pow(2) by (simp add: mult_left_le)
  have mono: "EpsilonStart d * DecayRate d ^ Suc t \<le> EpsilonStart d * DecayRate d ^ t" for t
    using assms(1) pow(3) by (intro mult_left_mono)
  have "\<exists>T. \<forall>t. T \<le> t \<longrightarrow> EpsilonStart d * DecayRate d ^ t < EpsilonMin d"
  proof -
    have "(\<lambda>t. EpsilonStart d * DecayRate d ^ t) \<longlonglongrightarrow> EpsilonStart d * 0"
      using assms(4,5) by (intro tendsto_mult_left LIMSEQ_realpow_zero)
    then have "eventually (\<lambda>t. EpsilonStart d * DecayRate d ^ t < EpsilonMin d) sequentially"
      using assms(2) by (intro order_tendstoD(2)) simp_all
    then show ?thesis by (simp add: eventually_sequentially)
  qed
  then have 3: "\<exists>T. \<forall>t. T \<le> t \<longrightarrow> CurrentEpsilon (d\<lparr>selections := t\<rparr>) = EpsilonMin d"
    unfolding eps by (meson less_imp_le max.absorb1)
  have 1: "\<forall>t. EpsilonMin d \<le> CurrentEpsilon (d\<lparr>selections := t\<rparr>) \<and> CurrentEpsilon (d\<lparr>selections := t\<rparr>) \<le> EpsilonStart d"
    unfolding eps using up assms(3) by simp
  have 2: "\<forall>t. CurrentEpsilon (d\<lparr>selections := Suc t\<rparr>) \<le> CurrentEpsilon (d\<lparr>selections := t\<rparr>)"
    unfolding eps using mono by (blast intro: max.mono order.refl)
  from 1 2 3 show ?thesis by blast
qed

text \<open>
  A policy is found by its name regardless of the letters' case: the policy returned carries that
  name, and the ten documented names are exactly the ones that are accepted.
\<close>

lemma PolicyFromName_spec:
  "case PolicyFromNameWithEpsilon name eps of
     Inr pol \<Rightarrow> Policy_Name pol = ToLower name
   | Inl n \<Rightarrow> n = name \<and> ToLower name \<notin> {''latency'', ''hop-count'', ''reliability'', ''balanced'', ''epsilon-greedy'',
       ''decaying-epsilon'', ''ucb1'', ''random'', ''thompson'', ''contextual''}"
  by (simp add: PolicyFromNameWithEpsilon_def Let_def)

end
