(* ===== verification/Go_Sort.thy ===== *)
theory Go_Sort
  imports Prelude
begin

text \<open>
  The in-place insertion sort the source writes out twice (path manager and provider ranking):
  \<^verbatim>\<open>for i := 1; i < n; i++ { for j := i; j > 0 && s[j].score > s[j-1].score; j-- { swap } }\<close>.
  It is proved equal to the library's stable sort by descending key.
\<close>

section \<open>The loops\<close>

definition swap_prev :: "nat \<Rightarrow> 'a list \<Rightarrow> 'a list" where
  "swap_prev j xs = xs[j := xs ! (j - 1), j - 1 := xs ! j]"

fun sift :: "('a \<Rightarrow> 'k::linorder) \<Rightarrow> nat \<Rightarrow> 'a list \<Rightarrow> 'a list" where
  "sift key 0 xs = xs"
| "sift key (Suc j) xs =
     (if key (xs ! Suc j) > key (xs ! j) then sift key j (swap_prev (Suc j) xs) else xs)"

fun insertion_loop :: "('a \<Rightarrow> 'k::linorder) \<Rightarrow> nat \<Rightarrow> nat \<Rightarrow> 'a list \<Rightarrow> 'a list" where
  "insertion_loop key 0 i xs = xs"
| "insertion_loop key (Suc k) i xs = insertion_loop key k (Suc i) (sift key i xs)"

definition insertion_sort_desc :: "('a \<Rightarrow> 'k::linorder) \<Rightarrow> 'a list \<Rightarrow> 'a list" where
  "insertion_sort_desc key xs = insertion_loop key (length xs - 1) 1 xs"

section \<open>Correctness\<close>

text \<open>Insertion into a descending list from its right end, after equal keys.\<close>

fun insort_right :: "('a \<Rightarrow> 'k::linorder) \<Rightarrow> 'a \<Rightarrow> 'a list \<Rightarrow> 'a list" where
  "insort_right key x [] = [x]"
| "insort_right key x (y # ys) = (if key x > key y then x # y # ys else y # insort_right key x ys)"

abbreviation desc :: "('a \<Rightarrow> 'k::linorder) \<Rightarrow> 'a list \<Rightarrow> bool" where
  "desc key xs \<equiv> sorted_wrt (\<lambda>x y. key y \<le> key x) xs"

lemma swap_prev_append: "swap_prev (Suc (length xs)) (xs @ y # x # zs) = xs @ x # y # zs"
  by (simp add: swap_prev_def nth_append list_update_append)

lemma insort_right_snoc:
  "desc key (xs @ [y]) \<Longrightarrow>
   insort_right key x (xs @ [y]) = (if key x > key y then insort_right key x xs @ [y] else xs @ [y, x])"
  by (induction xs) (auto simp: sorted_wrt_append not_less)

lemma sift_insort:
  "desc key xs \<Longrightarrow> sift key (length xs) (xs @ x # zs) = insort_right key x xs @ zs"
proof (induction xs arbitrary: zs rule: rev_induct)
  case (snoc y xs)
  have [simp]: "(xs @ y # x # zs) ! Suc (length xs) = x" by (simp add: nth_append)
  from snoc show ?case
    by (auto simp: sorted_wrt_append swap_prev_append insort_right_snoc)
qed simp

lemma mset_insort_right [simp]: "mset (insort_right key x xs) = add_mset x (mset xs)"
  by (induction xs) auto

lemma length_insort_right [simp]: "length (insort_right key x xs) = Suc (length xs)"
  by (induction xs) auto

lemma set_insort_right [simp]: "set (insort_right key x xs) = insert x (set xs)"
  by (induction xs) auto

lemma desc_insort_right: "desc key xs \<Longrightarrow> desc key (insort_right key x xs)"
  by (induction xs) (auto simp: not_less intro: order.strict_implies_order order_trans)

lemma filter_insort_right:
  "desc key xs \<Longrightarrow> filter (\<lambda>z. key z = k) (insort_right key x xs)
     = filter (\<lambda>z. key z = k) (xs @ [x])"
proof (induction xs)
  case (Cons y ys)
  show ?case
  proof (cases "key x > key y")
    case True
    with Cons.prems have "\<forall>z\<in>set (y # ys). key z < key x" by auto
    then have "filter (\<lambda>z. key z = key x) (y # ys) = []" by (auto simp: filter_empty_conv)
    then show ?thesis using True by auto
  next
    case False
    with Cons show ?thesis by auto
  qed
qed simp

text \<open>The outer loop keeps the prefix sorted, a permutation of what it held, and stable.\<close>

lemma insertion_loop_prefix:
  assumes "desc key ps" and "length zs = k"
  shows "\<exists>ys. insertion_loop key k (length ps) (ps @ zs) = ys \<and> desc key ys
     \<and> mset ys = mset (ps @ zs)
     \<and> (\<forall>c. filter (\<lambda>z. key z = c) ys = filter (\<lambda>z. key z = c) (ps @ zs))"
  using assms
proof (induction k arbitrary: ps zs)
  case 0
  then show ?case by simp
next
  case (Suc k)
  then obtain z zs' where zs: "zs = z # zs'" and k: "length zs' = k" by (cases zs) auto
  let ?ps = "insort_right key z ps"
  have d: "desc key ?ps" using Suc.prems(1) by (rule desc_insort_right)
  have step: "insertion_loop key (Suc k) (length ps) (ps @ zs)
     = insertion_loop key k (length ?ps) (?ps @ zs')"
    using Suc.prems(1) by (simp add: zs sift_insort)
  have stable: "filter (\<lambda>z. key z = c) (?ps @ zs') = filter (\<lambda>z. key z = c) (ps @ zs)" for c
    by (simp add: zs filter_insort_right [OF Suc.prems(1)])
  have "mset (?ps @ zs') = mset (ps @ zs)" by (simp add: zs)
  with Suc.IH [OF d k] show ?case by (simp only: step stable)
qed

lemma insertion_sort_desc_eq:
  "insertion_sort_desc key xs = sort_key (\<lambda>x. - key x) (xs :: 'a list)"
  for key :: "'a \<Rightarrow> real"
proof (cases xs)
  case Nil
  then show ?thesis by (simp add: insertion_sort_desc_def)
next
  case (Cons x zs)
  obtain ys where ys: "insertion_sort_desc key xs = ys" and d: "desc key ys"
    and m: "mset ys = mset xs"
    and f: "\<And>c. filter (\<lambda>z. key z = c) ys = filter (\<lambda>z. key z = c) xs"
    using insertion_loop_prefix [of key "[x]" zs "length zs"] Cons
    by (auto simp: insertion_sort_desc_def)
  have "sort_key (\<lambda>x. - key x) xs = ys"
  proof (rule properties_for_sort_key [OF m])
    show "filter (\<lambda>x. - key k = - key x) ys = filter (\<lambda>x. - key k = - key x) xs" for k
      using f [of "key k"] by (simp add: eq_commute)
    show "sorted (map (\<lambda>x. - key x) ys)"
      using d by (simp add: sorted_wrt_map)
  qed
  with ys show ?thesis by simp
qed

lemma mset_insertion_sort_desc [simp]: "mset (insertion_sort_desc key xs) = mset xs"
  for key :: "'a \<Rightarrow> real"
  by (simp add: insertion_sort_desc_eq)

lemma set_insertion_sort_desc [simp]: "set (insertion_sort_desc key xs) = set xs"
  for key :: "'a \<Rightarrow> real"
  by (simp add: insertion_sort_desc_eq)

lemma desc_insertion_sort_desc: "desc key (insertion_sort_desc key xs)"
  for key :: "'a \<Rightarrow> real"
  using sorted_sort_key [of "\<lambda>x. - key x" xs]
  by (simp add: insertion_sort_desc_eq sorted_wrt_map)

end
