(* ===== verification/Path_Manager.thy ===== *)
theory Path_Manager
  imports Policies Go_Sort
begin

text \<open>
  The path manager (\<^verbatim>\<open>internal/pathpolicy/manager.go\<close>): the path sets per target, the selection of a
  path under the configured policy, disjoint paths, the probing rounds and the pruning of stale paths.
  A peer identifier stands for its textual form (\<^verbatim>\<open>peer.ID.String()\<close>).
\<close>

section \<open>State\<close>

record Manager =
  mgr_self :: peer_id
  mgr_policy :: Policy
  pathSets :: "peer_id \<Rightarrow> PathSet option"

definition NewManager :: "peer_id \<Rightarrow> string \<Rightarrow> real \<Rightarrow> string + Manager" where
  "NewManager self policyName eps0 =
     (let epsilon = (if eps0 \<le> 0 then 1 / 10 else eps0) in
      case PolicyFromNameWithEpsilon policyName epsilon of
        Inl e \<Rightarrow> Inl e
      | Inr pol \<Rightarrow> Inr \<lparr>mgr_self = self, mgr_policy = pol, pathSets = (\<lambda>_. None)\<rparr>)"

section \<open>Selection\<close>

text \<open>What the random source, the clock and gonum deliver to one call.\<close>

record sel_env =
  se_rf :: real
  se_ri :: nat
  se_draws :: "nat \<Rightarrow> real"
  se_beta :: "nat \<Rightarrow> real \<Rightarrow> real \<Rightarrow> real"
  se_gonum :: gonum
  se_hour :: int

definition BestPath :: "string list \<Rightarrow> sel_env \<Rightarrow> Manager \<Rightarrow> peer_id \<Rightarrow> Path option \<times> Manager" where
  "BestPath iter env m target =
     (case pathSets m target of
        None \<Rightarrow> (None, m)
      | Some ps \<Rightarrow>
          (let all = PathSet_All iter ps in
           case mgr_policy m of
             EpsilonGreedy e b \<Rightarrow> (EpsilonGreedy_SelectPath (BalancedPolicy_Score b) (se_rf env) (se_ri env) e all, m)
           | DecayingEpsilon d b \<Rightarrow>
               (case DecayingEpsilon_SelectPath (BalancedPolicy_Score b) (se_rf env, se_ri env) d all of
                  (r, d') \<Rightarrow> (r, m\<lparr>mgr_policy := DecayingEpsilon d' b\<rparr>))
           | UCB1 u b \<Rightarrow>
               (case UCB1_SelectPath (BalancedPolicy_Score b) u all of (r, u') \<Rightarrow> (r, m\<lparr>mgr_policy := UCB1 u' b\<rparr>))
           | Thompson t b \<Rightarrow>
               (case Thompson_SelectPath (BalancedPolicy_Score b) (se_beta env) t all of
                  (r, t') \<Rightarrow> (r, m\<lparr>mgr_policy := Thompson t' b\<rparr>))
           | Contextual cb b \<Rightarrow>
               (case Contextual_SelectPath (se_gonum env) (BalancedPolicy_Score b) (se_hour env) cb all of
                  (r, cb') \<Rightarrow> (r, m\<lparr>mgr_policy := Contextual cb' b\<rparr>))
           | pol \<Rightarrow> (PathSet_Best iter (\<lambda>i. Policy_Score pol (se_draws env i)) ps, m)))"

definition Manager_Paths :: "string list \<Rightarrow> Manager \<Rightarrow> peer_id \<Rightarrow> Path list" where
  "Manager_Paths iter m target = (case pathSets m target of None \<Rightarrow> [] | Some ps \<Rightarrow> PathSet_All iter ps)"

definition Manager_AllPaths :: "(peer_id \<Rightarrow> string list) \<Rightarrow> Manager \<Rightarrow> peer_id \<Rightarrow> Path list option" where
  "Manager_AllPaths iters m = (\<lambda>pid. map_option (PathSet_All (iters pid)) (pathSets m pid))"

definition Manager_PolicyName :: "Manager \<Rightarrow> string" where
  "Manager_PolicyName m = Policy_Name (mgr_policy m)"

text \<open>The greedy selection over the sorted candidates.\<close>

fun disjoint_loop :: "int \<Rightarrow> Path list \<Rightarrow> (peer_id \<Rightarrow> bool) \<Rightarrow> Path list \<Rightarrow> Path list" where
  "disjoint_loop n [] usedRelays selected = selected"
| "disjoint_loop n (p # ps) usedRelays selected =
     (if int (length selected) \<ge> n then selected
      else if \<exists>relay\<in>set (p_RelayChain p). usedRelays relay then disjoint_loop n ps usedRelays selected
      else disjoint_loop n ps (\<lambda>r. usedRelays r \<or> r \<in> set (p_RelayChain p)) (selected @ [p]))"

definition DisjointPaths :: "string list \<Rightarrow> (nat \<Rightarrow> real) \<Rightarrow> Manager \<Rightarrow> peer_id \<Rightarrow> int \<Rightarrow> Path list" where
  "DisjointPaths iter draws m target n =
     (case pathSets m target of
        None \<Rightarrow> []
      | Some ps \<Rightarrow>
          (let all = PathSet_All iter ps in
           if length all = 0 then []
           else let scoredPaths = map (\<lambda>(i, p). (p, Policy_Score (mgr_policy m) (draws i) p))
                      (enumerate 0 (filter (\<lambda>p. SampleCount (p_Metrics p) > 0) all));
                    sorted = insertion_sort_desc snd scoredPaths
                in disjoint_loop n (map fst sorted) (\<lambda>_. False) []))"

section \<open>Probing\<close>

text \<open>Slicing \<^verbatim>\<open>s[:8]\<close> panics when the string is shorter.\<close>

definition prefix8 :: "string \<Rightarrow> string" where
  "prefix8 s = take 8 s"

definition directPathID :: "peer_id \<Rightarrow> string" where
  "directPathID target = ''direct-'' @ prefix8 target"

definition relayPathID :: "peer_id \<Rightarrow> peer_id \<Rightarrow> string" where
  "relayPathID target relay = ''relay-'' @ prefix8 target @ ''-via-'' @ prefix8 relay"

definition update_path :: "int \<Rightarrow> ProbeResult \<Rightarrow> Path \<Rightarrow> PathSet \<Rightarrow> PathSet" where
  "update_path now res fresh ps =
     (let p = (case PathSet_Get ps (p_ID fresh) of Some q \<Rightarrow> q | None \<Rightarrow> fresh);
          success = (rr_Err res = None);
          rtt = rr_RTT res;
          m1 = (if success then (p_Metrics p)\<lparr>HopCount := rr_HopCount res\<rparr> else p_Metrics p)
      in PathSet_Add ps (p\<lparr>p_Metrics := RecordProbe now rtt success m1\<rparr>))"

definition probe_infos :: "peer_id \<Rightarrow> peer_id list \<Rightarrow> PathInfo list" where
  "probe_infos target rs =
     \<lparr>pi_ID = 0, pi_Target = target, pi_RelayChain = []\<rparr>
     # map (\<lambda>(i, r). \<lparr>pi_ID = of_nat i, pi_Target = target, pi_RelayChain = [r]\<rparr>) (enumerate 1 rs)"

definition direct_path :: "peer_id \<Rightarrow> Path" where
  "direct_path target = \<lparr>p_ID = directPathID target, p_Target = target, p_Type = PathDirect, p_RelayChain = [],
     p_Metrics = zero_metrics\<rparr>"

definition relay_path :: "peer_id \<Rightarrow> peer_id \<Rightarrow> Path" where
  "relay_path target r = \<lparr>p_ID = relayPathID target r, p_Target = target, p_Type = PathRelay, p_RelayChain = [r],
     p_Metrics = zero_metrics\<rparr>"

text \<open>
  One target: the direct path and one path per relay other than the target and the node itself are
  probed in parallel and their results recorded in order. \<open>nows\<close> are the clock readings.
\<close>

record probe_world =
  pw_net :: network
  pw_env :: "nat \<Rightarrow> probe_env"
  pw_sched :: "nat list"
  pw_nows :: "nat \<Rightarrow> int"

definition other_relays :: "Manager \<Rightarrow> peer_id \<Rightarrow> peer_id list \<Rightarrow> peer_id list" where
  "other_relays m target relays = filter (\<lambda>r. \<not> (r = target \<or> r = mgr_self m)) relays"

definition record_results :: "(nat \<Rightarrow> int) \<Rightarrow> peer_id \<Rightarrow> peer_id list \<Rightarrow> ProbeResult list \<Rightarrow> PathSet \<Rightarrow> PathSet" where
  "record_results nows target rs results ps0 =
     (let ps1 = (if length results > 0 then update_path (nows 0) (results ! 0) (direct_path target) ps0 else ps0)
      in foldl (\<lambda>ps (i, r). if i < length results
                then update_path (nows i) (results ! i) (relay_path target r) ps else ps)
           ps1 (enumerate 1 rs))"

definition probeTarget :: "probe_world \<Rightarrow> Manager \<Rightarrow> peer_id \<Rightarrow> peer_id list \<Rightarrow> go_panic + Manager" where
  "probeTarget w m target relays =
     (let rs = other_relays m target relays in
      if length target < 8 \<or> (\<exists>r\<in>set rs. length r < 8) then Inl IndexOutOfRange
      else let results = SendProbes (pw_net w) (pw_env w) (pw_sched w) (probe_infos target rs);
               ps = (case pathSets m target of Some ps \<Rightarrow> ps | None \<Rightarrow> NewPathSet)
           in Inr (m\<lparr>pathSets := (pathSets m)(target \<mapsto> record_results (pw_nows w) target rs results ps)\<rparr>))"

definition StalePathTimeout :: duration where
  "StalePathTimeout = 30 * 60 * 10 ^ 9"

definition stale :: "int \<Rightarrow> Path \<Rightarrow> bool" where
  "stale now p \<longleftrightarrow> SampleCount (p_Metrics p) > 0 \<and> SuccessRate (p_Metrics p) < 1 / 10
     \<and> now - LastProbed (p_Metrics p) > StalePathTimeout"

definition prune_set :: "int \<Rightarrow> string list \<Rightarrow> PathSet \<Rightarrow> PathSet" where
  "prune_set now iter ps =
     foldl (\<lambda>ps p. if stale now p then PathSet_Remove ps (p_ID p) else ps) ps (PathSet_All iter ps)"

definition pruneStalePaths :: "int \<Rightarrow> (peer_id \<Rightarrow> string list) \<Rightarrow> Manager \<Rightarrow> Manager" where
  "pruneStalePaths now iters m = m\<lparr>pathSets := (\<lambda>t. map_option (prune_set now (iters t)) (pathSets m t))\<rparr>"

fun probe_targets :: "(nat \<Rightarrow> probe_world) \<Rightarrow> nat \<Rightarrow> Manager \<Rightarrow> peer_id list \<Rightarrow> peer_id list \<Rightarrow> go_panic + Manager" where
  "probe_targets ws i m [] relays = Inr m"
| "probe_targets ws i m (t # ts) relays =
     (case probeTarget (ws i) m t relays of Inl e \<Rightarrow> Inl e | Inr m' \<Rightarrow> probe_targets ws (Suc i) m' ts relays)"

definition probeAll ::
  "(nat \<Rightarrow> probe_world) \<Rightarrow> int \<Rightarrow> (peer_id \<Rightarrow> string list) \<Rightarrow> Manager \<Rightarrow> peer_id list \<Rightarrow> peer_id list \<Rightarrow> go_panic + Manager" where
  "probeAll ws now iters m peers relays =
     (if length peers = 0 then Inr m
      else case probe_targets ws 0 m peers relays of
             Inl e \<Rightarrow> Inl e
           | Inr m' \<Rightarrow> Inr (pruneStalePaths now iters m'))"

section \<open>Disjoint paths\<close>

definition relay_disjoint :: "Path \<Rightarrow> Path \<Rightarrow> bool" where
  "relay_disjoint p q \<longleftrightarrow> set (p_RelayChain p) \<inter> set (p_RelayChain q) = {}"

text \<open>The relays in use are those of the paths selected so far.\<close>

lemma disjoint_loop_spec:
  assumes "used = (\<lambda>r. \<exists>p\<in>set sel. r \<in> set (p_RelayChain p))" "sorted_wrt relay_disjoint sel"
    and "sorted_wrt Q sel" "sorted_wrt Q ps" "\<forall>x\<in>set sel. \<forall>y\<in>set ps. Q x y"
    and "R = disjoint_loop n ps used sel"
  shows "set sel \<subseteq> set R \<and> set R \<subseteq> set sel \<union> set ps \<and> sorted_wrt relay_disjoint R \<and> sorted_wrt Q R
    \<and> int (length R) \<le> max n (int (length sel))
    \<and> (int (length R) < n \<longrightarrow> (\<forall>p\<in>set ps. p \<in> set R \<or> (\<exists>q\<in>set R. \<not> relay_disjoint q p \<and> Q q p)))"
  using assms
proof (induction n ps used sel arbitrary: R rule: disjoint_loop.induct)
  case (2 n p ps used sel)
  consider (full) "int (length sel) \<ge> n" | (conflict) "\<not> int (length sel) \<ge> n" "\<exists>relay\<in>set (p_RelayChain p). used relay"
    | (take) "\<not> int (length sel) \<ge> n" "\<not> (\<exists>relay\<in>set (p_RelayChain p). used relay)" by blast
  then show ?case
  proof cases
    case full
    then show ?thesis using "2.prems" by auto
  next
    case conflict
    then obtain q where "q \<in> set sel" "\<not> relay_disjoint q p"
      using "2.prems"(1) by (auto simp: relay_disjoint_def)
    moreover have "R = disjoint_loop n ps used sel" using conflict "2.prems"(6) by simp
    ultimately show ?thesis
      using "2.IH"(1) [OF conflict "2.prems"(1-3) _ _ \<open>R = disjoint_loop n ps used sel\<close>] "2.prems"(4,5)
      by auto
  next
    case take
    let ?used = "\<lambda>r. used r \<or> r \<in> set (p_RelayChain p)"
    have R: "R = disjoint_loop n ps ?used (sel @ [p])" using take "2.prems"(6) by simp
    have "\<forall>x\<in>set sel. relay_disjoint x p"
      using take(2) "2.prems"(1) by (auto simp: relay_disjoint_def)
    then have d: "sorted_wrt relay_disjoint (sel @ [p])" using "2.prems"(2) by (simp add: sorted_wrt_append)
    have u: "?used = (\<lambda>r. \<exists>q\<in>set (sel @ [p]). r \<in> set (p_RelayChain q))" using "2.prems"(1) by auto
    have q: "sorted_wrt Q (sel @ [p])" "sorted_wrt Q ps" "\<forall>x\<in>set (sel @ [p]). \<forall>y\<in>set ps. Q x y"
      using "2.prems"(3-5) by (auto simp: sorted_wrt_append)
    show ?thesis using "2.IH"(2) [OF take u d q R] take(1) by auto
  qed
qed auto

lemma filter_enumerate_scores:
  assumes "pol \<noteq> RandomPolicy"
  shows "Policy_Score pol rf = Policy_Score pol 0"
  using assms by (cases pol) auto

section \<open>Invariant\<close>

text \<open>
  Every recorded path belongs to the target it is filed under, is keyed by its identifier, has sound
  metrics, and is either direct, without relays, or goes through one relay that is not the target.
\<close>

definition path_at :: "peer_id \<Rightarrow> Path \<Rightarrow> bool" where
  "path_at t p \<longleftrightarrow> path_ok p \<and> p_Target p = t
     \<and> (p_Type p = PathDirect \<and> p_RelayChain p = [] \<or> p_Type p = PathRelay \<and> (\<exists>r. p_RelayChain p = [r] \<and> r \<noteq> t))"

definition set_ok :: "peer_id \<Rightarrow> PathSet \<Rightarrow> bool" where
  "set_ok t ps \<longleftrightarrow> (\<forall>i p. ps i = Some p \<longrightarrow> p_ID p = i \<and> path_at t p)"

fun policy_ok :: "Policy \<Rightarrow> bool" where
  "policy_ok (BalancedPol b) \<longleftrightarrow> b = DefaultBalancedPolicy"
| "policy_ok (EpsilonGreedy e b) \<longleftrightarrow> b = DefaultBalancedPolicy"
| "policy_ok (DecayingEpsilon d b) \<longleftrightarrow> b = DefaultBalancedPolicy"
| "policy_ok (UCB1 u b) \<longleftrightarrow> b = DefaultBalancedPolicy \<and> 0 \<le> ucb_C u"
| "policy_ok (Thompson t b) \<longleftrightarrow> b = DefaultBalancedPolicy \<and> th_ok t"
| "policy_ok (Contextual cb b) \<longleftrightarrow> b = DefaultBalancedPolicy"
| "policy_ok _ \<longleftrightarrow> True"

definition mgr_ok :: "Manager \<Rightarrow> bool" where
  "mgr_ok m \<longleftrightarrow> policy_ok (mgr_policy m) \<and> (\<forall>t ps. pathSets m t = Some ps \<longrightarrow> set_ok t ps)"

definition env_ok :: "sel_env \<Rightarrow> bool" where
  "env_ok env \<longleftrightarrow> beta_ok (se_beta env) \<and> (\<forall>i. 0 \<le> se_draws env i)"

lemma set_ok_New: "set_ok t NewPathSet"
  by (simp add: set_ok_def NewPathSet_def)

lemma set_ok_pathset_ok: "set_ok t ps \<Longrightarrow> pathset_ok ps"
  by (simp add: set_ok_def pathset_ok_def path_at_def)

lemma SendProbe_ranges:
  assumes "0 \<le> be_elapsed env"
  shows "0 \<le> rr_RTT (SendProbe net env path)" "0 \<le> rr_HopCount (SendProbe net env path)"
    "rr_HopCount (SendProbe net env path) \<le> 255"
proof -
  have byte: "int (unat (b :: byte)) \<le> 255" for b using unat_byte_bound [of b] by linarith
  show "0 \<le> rr_RTT (SendProbe net env path)" "0 \<le> rr_HopCount (SendProbe net env path)"
    "rr_HopCount (SendProbe net env path) \<le> 255"
    using assms byte by (auto simp: SendProbe_def Let_def split: option.splits)
qed

lemma SendProbes_ranges:
  assumes "\<forall>i. 0 \<le> be_elapsed (env i)" "r \<in> set (SendProbes net env sched paths)"
  shows "0 \<le> rr_RTT r" "0 \<le> rr_HopCount r" "rr_HopCount r \<le> 255"
proof -
  let ?n = "length paths"
  have "0 \<le> rr_RTT (SendProbes net env sched paths ! j) \<and> 0 \<le> rr_HopCount (SendProbes net env sched paths ! j)
      \<and> rr_HopCount (SendProbes net env sched paths ! j) \<le> 255" if "j < ?n" for j
    using foldl_slots [where f = "\<lambda>i. SendProbe net (env i) (paths ! i)" and rs = "replicate ?n zero_ProbeResult"
        and sched = sched and i = j] that SendProbe_ranges [of "env j"] assms(1)
    by (simp add: SendProbes_def zero_ProbeResult_def)
  moreover have "length (SendProbes net env sched paths) = ?n"
    using foldl_slots [where f = "\<lambda>i. SendProbe net (env i) (paths ! i)" and rs = "replicate ?n zero_ProbeResult"
        and sched = sched and i = 0] by (simp add: SendProbes_def)
  ultimately show "0 \<le> rr_RTT r" "0 \<le> rr_HopCount r" "rr_HopCount r \<le> 255"
    using assms(2) by (auto simp: in_set_conv_nth)
qed

lemma set_ok_update_path:
  assumes "set_ok t ps" "path_at t fresh" "0 \<le> rr_RTT res" "0 \<le> rr_HopCount res" "rr_HopCount res \<le> 255"
  shows "set_ok t (update_path now res fresh ps)"
proof -
  let ?p = "case PathSet_Get ps (p_ID fresh) of Some q \<Rightarrow> q | None \<Rightarrow> fresh"
  let ?m = "if rr_Err res = None then (p_Metrics ?p)\<lparr>HopCount := rr_HopCount res\<rparr> else p_Metrics ?p"
  have p: "path_at t ?p" "p_ID ?p = p_ID fresh"
    using assms(1,2) by (auto simp: set_ok_def PathSet_Get_def split: option.split)
  have "metrics_ok ?m" using p(1) assms(4,5) by (auto simp: path_at_def path_ok_def metrics_ok_def)
  then have "metrics_ok (RecordProbe now (rr_RTT res) (rr_Err res = None) ?m)"
    using assms(3) by (rule metrics_ok_RecordProbe)
  then have "path_at t (?p\<lparr>p_Metrics := RecordProbe now (rr_RTT res) (rr_Err res = None) ?m\<rparr>)"
    using p(1) by (simp add: path_at_def path_ok_def)
  then show ?thesis
    using assms(1) p(2) by (auto simp: update_path_def Let_def PathSet_Add_def set_ok_def)
qed

lemma path_at_fresh: "path_at t (direct_path t)" "r \<noteq> t \<Longrightarrow> path_at t (relay_path t r)"
  by (simp_all add: path_at_def direct_path_def relay_path_def path_ok_def metrics_ok_zero)

lemma set_ok_record_results:
  assumes ps: "set_ok t ps" and rs: "\<forall>r\<in>set rs. r \<noteq> t"
    and res: "\<forall>r\<in>set results. 0 \<le> rr_RTT r \<and> 0 \<le> rr_HopCount r \<and> rr_HopCount r \<le> 255"
  shows "set_ok t (record_results nows t rs results ps)"
proof -
  let ?step = "\<lambda>ps (i, r). if i < length results then update_path (nows i) (results ! i) (relay_path t r) ps else ps"
  have upd: "set_ok t (update_path now (results ! i) fresh ps)"
    if "set_ok t ps" "path_at t fresh" "i < length results" for now fresh ps i
    using that res nth_mem [OF that(3)] by (intro set_ok_update_path) blast+
  have fold: "set_ok t (foldl ?step ps xs)" if "set_ok t ps" "\<forall>(i, r)\<in>set xs. r \<noteq> t" for ps xs
    using that
  proof (induction xs arbitrary: ps)
    case (Cons x xs)
    obtain i r where x: "x = (i, r)" by fastforce
    have "set_ok t (?step ps x)" using Cons.prems upd path_at_fresh(2) by (auto simp: x)
    with Cons show ?case by simp
  qed simp
  have "\<forall>(i, r)\<in>set (enumerate 1 rs). r \<noteq> t"
    using rs by (auto simp: enumerate_eq_zip dest!: set_zip_rightD)
  then show ?thesis
    unfolding record_results_def Let_def using ps upd path_at_fresh(1) by (intro fold) simp_all
qed

lemma mgr_ok_probeTarget:
  assumes ok: "mgr_ok m" and el: "\<forall>i. 0 \<le> be_elapsed (pw_env w i)" and pt: "probeTarget w m t relays = Inr m'"
  shows "mgr_ok m'"
proof -
  let ?rs = "other_relays m t relays"
  let ?res = "SendProbes (pw_net w) (pw_env w) (pw_sched w) (probe_infos t ?rs)"
  let ?ps = "case pathSets m t of Some ps \<Rightarrow> ps | None \<Rightarrow> NewPathSet"
  have "set_ok t ?ps" using ok by (auto simp: mgr_ok_def set_ok_New split: option.split)
  then have "set_ok t (record_results (pw_nows w) t ?rs ?res ?ps)"
    using SendProbes_ranges [OF el] by (intro set_ok_record_results) (auto simp: other_relays_def)
  moreover have "m' = m\<lparr>pathSets := (pathSets m)(t \<mapsto> record_results (pw_nows w) t ?rs ?res ?ps)\<rparr>"
    using pt unfolding probeTarget_def Let_def by (simp only: split: if_splits) simp_all
  ultimately show ?thesis using ok by (simp add: mgr_ok_def)
qed

lemma mgr_ok_probe_targets:
  assumes "mgr_ok m" "\<forall>j i. 0 \<le> be_elapsed (pw_env (ws j) i)" "probe_targets ws n m ts relays = Inr m'"
  shows "mgr_ok m'"
  using assms
proof (induction ws n m ts relays rule: probe_targets.induct)
  case (2 ws i m t ts relays)
  then obtain m1 where m1: "probeTarget (ws i) m t relays = Inr m1" "probe_targets ws (Suc i) m1 ts relays = Inr m'"
    by (auto split: sum.splits)
  have "mgr_ok m1" using "2.prems"(1,2) m1(1) by (blast intro: mgr_ok_probeTarget)
  with "2.IH" [OF m1(1) _ _ m1(2)] "2.prems"(2) show ?case by blast
qed simp

lemma prune_set_eq:
  assumes "set_ok t ps" "enumerates iter ps"
  shows "prune_set now iter ps i = (case ps i of Some p \<Rightarrow> if stale now p then None else Some p | None \<Rightarrow> None)"
proof -
  have fold: "foldl (\<lambda>ps p. if stale now p then PathSet_Remove ps (p_ID p) else ps) qs xs i =
      (if \<exists>p\<in>set xs. stale now p \<and> p_ID p = i then None else qs i)" for qs xs
    by (induction xs arbitrary: qs) (auto simp: PathSet_Remove_def)
  have "(\<exists>p\<in>set (PathSet_All iter ps). stale now p \<and> p_ID p = i) \<longleftrightarrow> (\<exists>p. ps i = Some p \<and> stale now p)"
    unfolding set_PathSet_All [OF assms(2)] using assms(1) by (auto simp: ran_def set_ok_def)
  then show ?thesis unfolding prune_set_def fold by (auto split: option.split)
qed

lemma prune_set_sub: "prune_set now iter ps i = Some p \<Longrightarrow> ps i = Some p"
proof -
  have "foldl (\<lambda>ps p. if stale now p then PathSet_Remove ps (p_ID p) else ps) qs xs i = Some p \<Longrightarrow> qs i = Some p" for qs xs
  proof (induction xs arbitrary: qs)
    case (Cons x xs)
    then have "(if stale now x then PathSet_Remove qs (p_ID x) else qs) i = Some p" by simp
    then show ?case by (auto simp: PathSet_Remove_def split: if_splits)
  qed simp
  then show "prune_set now iter ps i = Some p \<Longrightarrow> ps i = Some p" by (auto simp: prune_set_def)
qed

lemma mgr_ok_prune: "mgr_ok m \<Longrightarrow> mgr_ok (pruneStalePaths now iters m)"
  by (auto simp: mgr_ok_def pruneStalePaths_def set_ok_def dest!: prune_set_sub)

lemma mgr_ok_probeAll:
  assumes "mgr_ok m" "\<forall>j i. 0 \<le> be_elapsed (pw_env (ws j) i)" "probeAll ws now iters m peers relays = Inr m'"
  shows "mgr_ok m'"
proof -
  show ?thesis
  proof (cases "length peers = 0")
    case True
    then show ?thesis using assms(1,3) by (simp add: probeAll_def)
  next
    case False
    then obtain m1 where m1: "probe_targets ws 0 m peers relays = Inr m1" "m' = pruneStalePaths now iters m1"
      using assms(3) by (cases "probe_targets ws 0 m peers relays") (simp_all add: probeAll_def)
    from mgr_ok_prune [OF mgr_ok_probe_targets [OF assms(1,2) m1(1)]] m1(2) show ?thesis by simp
  qed
qed

lemma default_policies_ok:
  "policy_ok (UCB1 DefaultUCB1Policy DefaultBalancedPolicy)" "policy_ok (Thompson DefaultThompsonSamplingPolicy DefaultBalancedPolicy)"
  by (simp_all add: DefaultUCB1Policy_def th_ok_def DefaultThompsonSamplingPolicy_def)

lemma case_sum_if: "case_sum f g (if b then x else y) = (if b then case_sum f g x else case_sum f g y)"
  by simp

lemma PolicyFromName_ok: "case PolicyFromNameWithEpsilon name eps of Inl e \<Rightarrow> True | Inr pol \<Rightarrow> policy_ok pol"
  by (simp only: PolicyFromNameWithEpsilon_def Let_def case_sum_if sum.case default_policies_ok) simp

lemma mgr_ok_New: "NewManager self name eps = Inr m \<Longrightarrow> mgr_ok m"
  using PolicyFromName_ok [of name "if eps \<le> 0 then 1 / 10 else eps"]
  by (auto simp: NewManager_def Let_def mgr_ok_def split: sum.splits)

lemma all_ok:
  assumes "set_ok t ps" "enumerates iter ps"
  shows "\<forall>p\<in>set (PathSet_All iter ps). path_ok p"
  unfolding set_PathSet_All [OF assms(2)] using assms(1) by (auto simp: ran_def set_ok_def path_at_def)

lemma RandomPolicy_nonneg: "0 \<le> rf \<Longrightarrow> 0 \<le> Policy_Score RandomPolicy rf p"
  by (simp add: RandomPolicy_Score_def)

lemma det_nonneg:
  "pol \<in> {LatencyPolicy, HopCountPolicy, ReliabilityPolicy, RandomPolicy, BalancedPol DefaultBalancedPolicy} \<Longrightarrow> 0 \<le> rf \<Longrightarrow>
   path_ok p \<Longrightarrow> 0 \<le> Policy_Score pol rf p"
  by (auto simp: latency.score_nonneg hops.score_nonneg reliability.score_nonneg balanced.score_nonneg RandomPolicy_Score_def)

lemma Best_nonempty:
  assumes "\<forall>i. \<forall>p\<in>set (PathSet_All iter ps). 0 \<le> score i p" "PathSet_All iter ps \<noteq> []"
  shows "\<exists>b\<in>set (PathSet_All iter ps). PathSet_Best iter score ps = Some b"
proof -
  let ?xs = "map (\<lambda>(i, p). (p, score i p)) (enumerate 0 (PathSet_All iter ps))"
  have "?xs \<noteq> []" using assms(2) by (simp add: enumerate_eq_zip)
  moreover have "\<forall>x\<in>set ?xs. 0 \<le> snd x" using assms(1) by (auto simp: in_set_enumerate_eq)
  ultimately obtain b sc where "best_loop ?xs None (- 1) = Some b" "(b, sc) \<in> set ?xs"
    using best_loop_argmax by blast
  then show ?thesis by (auto simp: PathSet_Best_def in_set_enumerate_eq)
qed

text \<open>What the strategies and \<^verbatim>\<open>Best\<close> promise, for the policy of the manager.\<close>

lemma BestPath_result:
  assumes ok: "mgr_ok m" and env: "env_ok env" and ps: "pathSets m t = Some ps" and en: "enumerates iter ps"
    and b: "BestPath iter env m t = (r, m')"
  shows "mgr_ok m' \<and> pathSets m' = pathSets m
    \<and> (if ran ps = {} then r = None else \<exists>p\<in>ran ps. r = Some p)"
proof -
  let ?all = "PathSet_All iter ps"
  have sok: "set_ok t ps" using ok ps by (simp add: mgr_ok_def)
  have all: "\<forall>p\<in>set ?all. path_ok p" "set ?all = ran ps" using all_ok [OF sok en] set_PathSet_All [OF en] by auto
  have ne: "?all = [] \<longleftrightarrow> ran ps = {}" using all(2) by (metis set_empty)
  have pol: "policy_ok (mgr_policy m)" using ok by (simp add: mgr_ok_def)
  have keep: "mgr_ok (m\<lparr>mgr_policy := q\<rparr>)" if "policy_ok q" for q using ok that by (simp add: mgr_ok_def)
  show ?thesis
  proof (cases "\<exists>q. mgr_policy m \<in> {LatencyPolicy, HopCountPolicy, ReliabilityPolicy, RandomPolicy, BalancedPol q}")
    case True
    then have det: "mgr_policy m \<in> {LatencyPolicy, HopCountPolicy, ReliabilityPolicy, RandomPolicy, BalancedPol DefaultBalancedPolicy}"
      using pol by auto
    then have eq: "m' = m" "r = PathSet_Best iter (\<lambda>i. Policy_Score (mgr_policy m) (se_draws env i)) ps"
      using b ps by (auto simp: BestPath_def)
    have nn: "\<forall>i. \<forall>p\<in>set ?all. 0 \<le> Policy_Score (mgr_policy m) (se_draws env i) p"
      using det_nonneg [OF det] env all(1) by (auto simp: env_ok_def)
    show ?thesis
    proof (cases "?all = []")
      case True
      then show ?thesis using ne eq ok by (simp add: PathSet_Best_def)
    next
      case False
      from Best_nonempty [OF nn this] show ?thesis using ne eq ok all(2) False by auto
    qed
  next
    case False
    have beta: "beta_ok (se_beta env)" using env by (simp add: env_ok_def)
    from False pol consider (e) e where "mgr_policy m = EpsilonGreedy e DefaultBalancedPolicy"
      | (d) d where "mgr_policy m = DecayingEpsilon d DefaultBalancedPolicy"
      | (u) u where "mgr_policy m = UCB1 u DefaultBalancedPolicy" "0 \<le> ucb_C u"
      | (th) th where "mgr_policy m = Thompson th DefaultBalancedPolicy" "th_ok th"
      | (cb) cb where "mgr_policy m = Contextual cb DefaultBalancedPolicy"
      by (cases "mgr_policy m") auto
    then show ?thesis
    proof cases
      case e
      then have "m' = m" "r = EpsilonGreedy_SelectPath (BalancedPolicy_Score DefaultBalancedPolicy) (se_rf env) (se_ri env) e ?all"
        using b ps by (auto simp: BestPath_def Let_def)
      then show ?thesis
        using balanced.eps.select_some [where r = "(se_rf env, se_ri env)" and s = e and ps = ?all, OF _ _ _ all(1)]
          balanced.eps.select_empty [where r = "(se_rf env, se_ri env)" and s = e] ok ne all(2) by auto
    next
      case d
      then have "r = fst (DecayingEpsilon_SelectPath (BalancedPolicy_Score DefaultBalancedPolicy) (se_rf env, se_ri env) d ?all)"
        "\<exists>d'. m' = m\<lparr>mgr_policy := DecayingEpsilon d' DefaultBalancedPolicy\<rparr>"
        using b ps by (auto simp: BestPath_def Let_def split: prod.splits)
      then show ?thesis
        using balanced.decay.select_some [where r = "(se_rf env, se_ri env)" and s = d and ps = ?all, OF _ _ _ all(1)]
          balanced.decay.select_empty [where r = "(se_rf env, se_ri env)" and s = d] ne all(2) keep by auto
    next
      case u
      then have "r = fst (UCB1_SelectPath (BalancedPolicy_Score DefaultBalancedPolicy) u ?all)"
        "m' = m\<lparr>mgr_policy := UCB1 (snd (UCB1_SelectPath (BalancedPolicy_Score DefaultBalancedPolicy) u ?all)) DefaultBalancedPolicy\<rparr>"
        using b ps by (auto simp: BestPath_def Let_def split: prod.splits)
      then show ?thesis
        using balanced.ucb.select_some [where s = u and ps = ?all, OF u(2) _ _ all(1)] balanced.ucb.select_empty [where s = u]
          balanced.ucb.select_inv [where s = u and ps = ?all, OF u(2) _ all(1)] ne all(2) keep by auto
    next
      case th
      then have "r = fst (Thompson_SelectPath (BalancedPolicy_Score DefaultBalancedPolicy) (se_beta env) th ?all)"
        "m' = m\<lparr>mgr_policy := Thompson (snd (Thompson_SelectPath (BalancedPolicy_Score DefaultBalancedPolicy) (se_beta env) th ?all)) DefaultBalancedPolicy\<rparr>"
        using b ps by (auto simp: BestPath_def Let_def split: prod.splits)
      then show ?thesis
        using balanced.thompson.select_some [where s = th and r = "se_beta env" and ps = ?all, OF th(2) beta _ all(1)]
          balanced.thompson.select_empty [where s = th and r = "se_beta env"]
          balanced.thompson.select_inv [where s = th and r = "se_beta env" and ps = ?all, OF th(2) beta all(1)] ne all(2) keep by auto
    next
      case cb
      then have "r = fst (Contextual_SelectPath (se_gonum env) (BalancedPolicy_Score DefaultBalancedPolicy) (se_hour env) cb ?all)"
        "\<exists>cb'. m' = m\<lparr>mgr_policy := Contextual cb' DefaultBalancedPolicy\<rparr>"
        using b ps by (auto simp: BestPath_def Let_def split: prod.splits)
      then show ?thesis
        using balanced.contextual.select_some [where s = cb and r = "(se_gonum env, se_hour env)" and ps = ?all, OF _ _ _ all(1)]
          balanced.contextual.select_empty [where s = cb and r = "(se_gonum env, se_hour env)"] ne all(2) keep by auto
    qed
  qed
qed

section \<open>Runs of the manager\<close>

text \<open>
  The states of a manager: created, probing rounds with any peers, relays and network, and selections.
  A probe never takes negative time, random draws are not negative and Beta samples lie in [0, 1].
\<close>

inductive mgr_reachable :: "Manager \<Rightarrow> bool" where
  created: "NewManager self name eps = Inr m \<Longrightarrow> mgr_reachable m"
| probed: "mgr_reachable m \<Longrightarrow> \<forall>j i. 0 \<le> be_elapsed (pw_env (ws j) i) \<Longrightarrow>
    probeAll ws now iters m peers relays = Inr m' \<Longrightarrow> mgr_reachable m'"
| selected: "mgr_reachable m \<Longrightarrow> env_ok env \<Longrightarrow> \<forall>ps. pathSets m t = Some ps \<longrightarrow> enumerates iter ps \<Longrightarrow>
    BestPath iter env m t = (r, m') \<Longrightarrow> mgr_reachable m'"

lemma BestPath_unknown: "pathSets m t = None \<Longrightarrow> BestPath iter env m t = (None, m)"
  by (simp add: BestPath_def)

lemma mgr_reachable_ok: "mgr_reachable m \<Longrightarrow> mgr_ok m"
proof (induction rule: mgr_reachable.induct)
  case (created self name eps m)
  then show ?case by (rule mgr_ok_New)
next
  case (probed m ws now iters peers relays m')
  then show ?case by (blast intro: mgr_ok_probeAll)
next
  case (selected m env t iter r m')
  show ?case
  proof (cases "pathSets m t")
    case None
    with selected show ?thesis by (simp add: BestPath_unknown)
  next
    case (Some ps)
    with BestPath_result [OF selected.IH selected.hyps(2) Some _ selected.hyps(4)] selected.hyps(3)
    show ?thesis by blast
  qed
qed

section \<open>Properties\<close>

text \<open>
  C18. In every state a manager reaches, each path is filed under its target and its identifier, its
  success rate lies in [0, 1], its hop count in 0..255, its average round-trip time between 0 and the
  P95 estimate, it keeps at most 20 samples, and it is direct or goes through one relay other than the
  target; the policy's internal state is sound as well.
\<close>

theorem manager_invariant:
  assumes "mgr_reachable m" and "pathSets m t = Some ps" and "ps i = Some p"
  shows "p_ID p = i \<and> p_Target p = t \<and> 0 \<le> SuccessRate (p_Metrics p) \<and> SuccessRate (p_Metrics p) \<le> 1
    \<and> 0 \<le> HopCount (p_Metrics p) \<and> HopCount (p_Metrics p) \<le> 255
    \<and> 0 \<le> AvgRTT (p_Metrics p) \<and> AvgRTT (p_Metrics p) \<le> P95RTT (p_Metrics p)
    \<and> length (rttSamples (p_Metrics p)) \<le> 20
    \<and> (p_RelayChain p = [] \<or> (\<exists>r. p_RelayChain p = [r] \<and> r \<noteq> t)) \<and> policy_ok (mgr_policy m)"
proof -
  have ok: "mgr_ok m" using assms(1) by (rule mgr_reachable_ok)
  then have "set_ok t ps" using assms(2) by (simp add: mgr_ok_def)
  then have "p_ID p = i" "path_at t p" using assms(3) by (simp_all add: set_ok_def)
  then show ?thesis using ok by (auto simp: path_at_def path_ok_def metrics_ok_def mgr_ok_def)
qed

definition wit_mgr0 :: Manager where
  "wit_mgr0 = \<lparr>mgr_self = ''self0000'', mgr_policy = LatencyPolicy, pathSets = (\<lambda>_. None)\<rparr>"

definition wit_world :: probe_world where
  "wit_world = \<lparr>pw_net = wit_net, pw_env = (\<lambda>_. wit_env), pw_sched = [0], pw_nows = (\<lambda>_. 100)\<rparr>"

definition wit_set :: PathSet where
  "wit_set = record_results (\<lambda>_. 100) ''target00'' [] (SendProbes wit_net (\<lambda>_. wit_env) [0] (probe_infos ''target00'' [])) NewPathSet"

definition wit_mgr :: Manager where
  "wit_mgr = wit_mgr0\<lparr>pathSets := [''target00'' \<mapsto> wit_set]\<rparr>"

lemma wit_probe: "probeTarget wit_world wit_mgr0 ''target00'' [] = Inr wit_mgr"
  by (simp add: probeTarget_def other_relays_def Let_def wit_mgr_def wit_mgr0_def wit_world_def wit_set_def)

lemma wit_mgr_ok: "mgr_ok wit_mgr"
  by (rule mgr_ok_probeTarget [OF _ _ wit_probe]) (simp_all add: mgr_ok_def wit_mgr0_def wit_world_def wit_env_def)

lemma wit_result:
  "SendProbes wit_net (\<lambda>_. wit_env) [0] (probe_infos ''target00'' []) =
     [\<lparr>rr_RTT = 40, rr_HopCount = 1, rr_PathID = 0, rr_Target = ''target00'', rr_RelayPeers = [], rr_Err = None\<rparr>]"
  using SendProbe_honest [of wit_env "replicate 32 9" "''target00''" "\<lparr>pi_ID = 0, pi_Target = ''target00'', pi_RelayChain = []\<rparr>" wit_net]
  by (simp add: SendProbes_def probe_infos_def wit_env_def wit_net_def)

lemma wit_set_eq: "\<exists>p. wit_set = [''direct-target00'' \<mapsto> p] \<and> viable p \<and> p_RelayChain p = []"
  by (auto simp: wit_set_def wit_result record_results_def update_path_def Let_def direct_path_def PathSet_Get_def
      PathSet_Add_def NewPathSet_def directPathID_def prefix8_def viable_def RecordProbe_simps zero_metrics_def)

lemma wit_created: "NewManager ''self0000'' ''latency'' 0 = Inr wit_mgr0"
  by (simp add: NewManager_def PolicyFromNameWithEpsilon_def ToLower_def ascii_lower_def wit_mgr0_def Let_def)

lemma wit_probed: "\<exists>m. probeAll (\<lambda>_. wit_world) 100 (\<lambda>_. [''direct-target00'']) wit_mgr0 [''target00''] [] = Inr m
    \<and> pathSets m ''target00'' = Some wit_set"
proof -
  obtain p where p: "wit_set = [''direct-target00'' \<mapsto> p]" using wit_set_eq by blast
  have "LastProbed (p_Metrics p) = 100"
    using arg_cong [OF p, of "\<lambda>s. s ''direct-target00''"]
    by (auto simp: wit_set_def wit_result record_results_def update_path_def Let_def direct_path_def PathSet_Get_def
      PathSet_Add_def NewPathSet_def directPathID_def prefix8_def RecordProbe_simps)
  then have "\<not> stale 100 p" by (simp add: stale_def StalePathTimeout_def)
  then have "prune_set 100 [''direct-target00''] wit_set = wit_set"
    by (simp add: prune_set_def PathSet_All_def map_range_def p)
  then show ?thesis
    by (simp add: probeAll_def wit_probe pruneStalePaths_def wit_mgr_def)
qed

lemma wit_reachable: "\<exists>m. mgr_reachable m \<and> pathSets m ''target00'' = Some wit_set"
proof -
  obtain m where m: "probeAll (\<lambda>_. wit_world) 100 (\<lambda>_. [''direct-target00'']) wit_mgr0 [''target00''] [] = Inr m"
    "pathSets m ''target00'' = Some wit_set" using wit_probed by blast
  have "mgr_reachable m"
    by (rule mgr_reachable.probed [OF mgr_reachable.created [OF wit_created] _ m(1)]) (simp add: wit_world_def wit_env_def)
  with m(2) show ?thesis by blast
qed

theorem manager_invariant_witness:
  "\<exists>m ps p. mgr_reachable m \<and> pathSets m ''target00'' = Some ps \<and> ps ''direct-target00'' = Some p
     \<and> p_Target p = ''target00'' \<and> SuccessRate (p_Metrics p) \<le> 1"
proof -
  obtain m where m: "mgr_reachable m" "pathSets m ''target00'' = Some wit_set" using wit_reachable by blast
  obtain p where p: "wit_set ''direct-target00'' = Some p" using wit_set_eq by (metis fun_upd_same)
  from manager_invariant [OF m p] m p show ?thesis by blast
qed


definition wit_sel :: sel_env where
  "wit_sel = \<lparr>se_rf = 1 / 2, se_ri = 3, se_draws = (\<lambda>_. 1 / 2), se_beta = (\<lambda>i a b. a / (a + b)),
     se_gonum = \<lparr>g_Inverse = (\<lambda>m. None), g_MulVec = (\<lambda>m v. v), g_Dot = (\<lambda>v w. 0), g_Outer = (\<lambda>r v w. []),
                 g_Add = (\<lambda>m n. m), g_ScaleVec = (\<lambda>r v. v), g_AddVec = (\<lambda>v w. v)\<rparr>, se_hour = 12\<rparr>"




text \<open>
  Failed probes keep a path alive: whatever its success rate, a path is never pruned within 30
  minutes of its last probe, successful or not, so a path that only fails but is probed at a shorter
  interval is never removed.
\<close>

lemma failing_path_not_pruned:
  assumes "set_ok t ps" and "fresh = direct_path t" and "ps' = update_path t0 res fresh ps"
    and "now - t0 \<le> StalePathTimeout" and "enumerates iter ps'"
    and "0 \<le> rr_RTT res" and "0 \<le> rr_HopCount res" and "rr_HopCount res \<le> 255"
  shows "\<exists>p. prune_set now iter ps' (directPathID t) = Some p \<and> LastProbed (p_Metrics p) = t0"
proof -
  have ok: "set_ok t ps'" unfolding assms(3) using assms path_at_fresh(1) by (intro set_ok_update_path) simp_all
  have id: "p_ID fresh = directPathID t" using assms(2) by (simp add: direct_path_def)
  have "\<exists>p. ps' (directPathID t) = Some p \<and> LastProbed (p_Metrics p) = t0"
    using assms(1,3) id by (auto simp: update_path_def Let_def PathSet_Add_def PathSet_Get_def RecordProbe_simps set_ok_def
        split: option.split)
  then show ?thesis using assms(4) by (auto simp: prune_set_eq [OF ok assms(5)] stale_def)
qed

text \<open>
  C36. Relay paths are identified by eight characters of each peer's text: two relays that agree on them
  (all Ed25519 peer identifiers begin with the same eight, \<^verbatim>\<open>12D3KooW\<close>) share one identifier, so probing
  both leaves a single path, through the first relay, into which the samples of both are mixed.
\<close>

theorem relay_paths_collide:
  assumes "take 8 r1 = take 8 r2" and "length results = 3"
    and "ps = record_results nows t [r1, r2] results NewPathSet"
  shows "relayPathID t r1 = relayPathID t r2
    \<and> (\<exists>p. ps (relayPathID t r2) = Some p \<and> p_RelayChain p = [r1] \<and> SampleCount (p_Metrics p) = 2)
    \<and> dom ps = {directPathID t, relayPathID t r1}"
proof -
  have id: "relayPathID t r1 = relayPathID t r2" using assms(1) by (simp add: relayPathID_def prefix8_def)
  have ne: "directPathID t \<noteq> relayPathID t r" for r by (simp add: directPathID_def relayPathID_def)
  have hop: "SampleCount (m\<lparr>HopCount := h\<rparr>) = SampleCount m" for m :: PathMetrics and h by simp
  let ?ps1 = "update_path (nows 0) (results ! 0) (direct_path t) NewPathSet"
  let ?ps2 = "update_path (nows 1) (results ! 1) (relay_path t r1) ?ps1"
  have ps: "ps = update_path (nows 2) (results ! 2) (relay_path t r2) ?ps2"
    using assms(2,3) by (simp add: record_results_def eval_nat_numeral)
  have u1: "\<exists>p. ?ps1 = [directPathID t \<mapsto> p]"
    by (auto simp: update_path_def Let_def PathSet_Add_def PathSet_Get_def NewPathSet_def direct_path_def)
  then obtain d where d: "?ps1 = [directPathID t \<mapsto> d]" by blast
  have u2: "\<exists>p. ?ps2 = [directPathID t \<mapsto> d, relayPathID t r1 \<mapsto> p] \<and> p_ID p = relayPathID t r1 \<and> p_RelayChain p = [r1]
      \<and> SampleCount (p_Metrics p) = 1"
    using ne [of r1] unfolding d
    by (auto simp: update_path_def Let_def PathSet_Add_def PathSet_Get_def relay_path_def RecordProbe_simps zero_metrics_def)
  then obtain p where p: "?ps2 = [directPathID t \<mapsto> d, relayPathID t r1 \<mapsto> p]" "p_ID p = relayPathID t r1"
    "p_RelayChain p = [r1]" "SampleCount (p_Metrics p) = 1" by blast
  have "\<exists>q. ps = [directPathID t \<mapsto> d, relayPathID t r1 \<mapsto> q] \<and> p_RelayChain q = [r1] \<and> SampleCount (p_Metrics q) = 2"
    unfolding ps p(1) using p(2-4) id
    by (auto simp: update_path_def Let_def PathSet_Add_def PathSet_Get_def relay_path_def RecordProbe_simps)
  then obtain q where q: "ps = [directPathID t \<mapsto> d, relayPathID t r1 \<mapsto> q]" "p_RelayChain q = [r1]"
    "SampleCount (p_Metrics q) = 2" by blast
  have "dom ps = {directPathID t, relayPathID t r1}" unfolding q(1) by auto
  with q id show ?thesis by simp
qed

theorem relay_paths_collide_witness: "relayPathID ''target00'' ''12D3KooWab'' = relayPathID ''target00'' ''12D3KooWcd''"
  using relay_paths_collide [of "''12D3KooWab''" "''12D3KooWcd''" "replicate 3 zero_ProbeResult"] by simp

end
