(* ===== verification/Replication.thy ===== *)
theory Replication
  imports Store
begin

text \<open>
  The replication tracker (\<^verbatim>\<open>internal/content/replication.go\<close>): one atomic counter per block, created
  under the tracker's mutex and incremented outside of it. \<^verbatim>\<open>RecordFetch\<close> is therefore two atomic
  steps, \<open>RecordFetch_counter\<close> and \<open>RecordFetch_add\<close>, and concurrent calls interleave between them;
  \<open>rf_step\<close> is the step relation of any number of calls. A counter is a 64-bit word read as a signed
  number, and the index holds its address, as the Go map holds a pointer.
\<close>

section \<open>State and operations\<close>

record ReplicationTracker =
  fetchCount :: "cid \<Rightarrow> nat option"
  threshold :: u64
  rt_heap :: "nat \<Rightarrow> u64"
  rt_next :: nat

definition NewReplicationTracker :: "u64 \<Rightarrow> ReplicationTracker" where
  "NewReplicationTracker t = \<lparr>fetchCount = (\<lambda>_. None), threshold = t, rt_heap = (\<lambda>_. 0), rt_next = 0\<rparr>"

definition RecordFetch_counter :: "ReplicationTracker \<Rightarrow> cid \<Rightarrow> nat \<times> ReplicationTracker" where
  "RecordFetch_counter rt cid =
     (case fetchCount rt cid of
        Some counter \<Rightarrow> (counter, rt)
      | None \<Rightarrow>
          (let counter = rt_next rt
           in (counter, rt\<lparr>fetchCount := (fetchCount rt)(cid \<mapsto> counter), rt_heap := (rt_heap rt)(counter := 0),
                 rt_next := Suc counter\<rparr>)))"

definition RecordFetch_add :: "ReplicationTracker \<Rightarrow> nat \<Rightarrow> bool \<times> ReplicationTracker" where
  "RecordFetch_add rt counter =
     (let count = rt_heap rt counter + 1
      in (count = threshold rt, rt\<lparr>rt_heap := (rt_heap rt)(counter := count)\<rparr>))"

definition RecordFetch :: "ReplicationTracker \<Rightarrow> cid \<Rightarrow> bool \<times> ReplicationTracker" where
  "RecordFetch rt cid = (case RecordFetch_counter rt cid of (counter, rt') \<Rightarrow> RecordFetch_add rt' counter)"

text \<open>The value of a block's counter.\<close>

definition fetches :: "ReplicationTracker \<Rightarrow> cid \<Rightarrow> u64" where
  "fetches rt cid = (case fetchCount rt cid of None \<Rightarrow> 0 | Some counter \<Rightarrow> rt_heap rt counter)"

definition PopularBlocks :: "cid list \<Rightarrow> ReplicationTracker \<Rightarrow> cid list" where
  "PopularBlocks iter rt =
     filter (\<lambda>cid. sint (threshold rt) \<le> sint (fetches rt cid)) (map_range iter (fetchCount rt))"

record ReplicationStats =
  TrackedBlocks :: nat
  stats_PopularBlocks :: nat
  FetchCounts :: "cid \<Rightarrow> int option"

definition Tracker_Stats :: "cid list \<Rightarrow> ReplicationTracker \<Rightarrow> ReplicationStats" where
  "Tracker_Stats iter rt =
     foldl (\<lambda>stats cid.
         let count = sint (fetches rt cid);
             stats' = stats\<lparr>FetchCounts := (FetchCounts stats)(cid \<mapsto> count)\<rparr>
         in if sint (threshold rt) \<le> count
            then stats'\<lparr>stats_PopularBlocks := stats_PopularBlocks stats' + 1\<rparr> else stats')
       \<lparr>TrackedBlocks = length (map_range iter (fetchCount rt)), stats_PopularBlocks = 0, FetchCounts = (\<lambda>_. None)\<rparr>
       (map_range iter (fetchCount rt))"

definition replicate_block :: "os \<Rightarrow> Store \<Rightarrow> Store \<Rightarrow> nat \<times> file_system \<Rightarrow> cid \<Rightarrow> nat \<times> file_system" where
  "replicate_block os src dst st cid =
     (case st of (replicated, fs) \<Rightarrow>
        (case Store_Get os src cid fs of
           Inl err \<Rightarrow> (replicated, fs)
         | Inr block \<Rightarrow>
             (case Store_Put os dst block fs of
                (Some err, fs') \<Rightarrow> (replicated, fs')
              | (None, fs') \<Rightarrow> (replicated + 1, fs'))))"

definition ReplicatePopular ::
  "cid list \<Rightarrow> os \<Rightarrow> ReplicationTracker \<Rightarrow> Store \<Rightarrow> Store \<Rightarrow> file_system \<Rightarrow> nat \<times> file_system" where
  "ReplicatePopular iter os rt src dst fs =
     foldl (replicate_block os src dst) (0, fs) (PopularBlocks iter rt)"

section \<open>Concurrent calls\<close>

text \<open>A call is about to enter the mutex, holds the address of its counter, or has returned.\<close>

datatype rf_call = Calling cid | Holding cid nat | Returned cid bool

inductive rf_step :: "ReplicationTracker \<times> rf_call list \<Rightarrow> ReplicationTracker \<times> rf_call list \<Rightarrow> bool" where
  counter: "i < length ts \<Longrightarrow> ts ! i = Calling cid \<Longrightarrow> RecordFetch_counter rt cid = (p, rt') \<Longrightarrow>
    rf_step (rt, ts) (rt', ts[i := Holding cid p])"
| add: "i < length ts \<Longrightarrow> ts ! i = Holding cid p \<Longrightarrow> RecordFetch_add rt p = (r, rt') \<Longrightarrow>
    rf_step (rt, ts) (rt', ts[i := Returned cid r])"

fun call_of :: "rf_call \<Rightarrow> cid" where
  "call_of (Calling cid) = cid"
| "call_of (Holding cid p) = cid"
| "call_of (Returned cid r) = cid"

fun returned_for :: "cid \<Rightarrow> rf_call \<Rightarrow> bool" where
  "returned_for c (Returned cid r) = (cid = c)"
| "returned_for c _ = False"

fun returned :: "rf_call \<Rightarrow> bool" where
  "returned (Returned cid r) = True"
| "returned _ = False"

definition tally :: "('a \<Rightarrow> bool) \<Rightarrow> 'a list \<Rightarrow> nat" where
  "tally P xs = length (filter P xs)"

section \<open>Lemmas\<close>

lemma tally_update:
  assumes "i < length xs"
  shows "tally P (xs[i := x]) + of_bool (P (xs ! i)) = tally P xs + of_bool (P x)"
  using assms
proof (induction xs arbitrary: i)
  case (Cons y ys)
  then show ?case by (cases i) (auto simp: tally_def)
qed simp

lemma tally_le_length: "tally P xs \<le> length xs"
  by (simp add: tally_def)

text \<open>
  The invariant of any number of calls on a tracker that began empty: addresses are not shared, a
  call in between holds the address of its block's counter, each counter holds the number of calls
  that returned, and the call that made it reach the threshold is the only one to have reported so.
\<close>

definition rf_inv :: "u64 \<Rightarrow> nat \<Rightarrow> ReplicationTracker \<times> rf_call list \<Rightarrow> bool" where
  "rf_inv t n = (\<lambda>(rt, ts). threshold rt = t \<and> length ts = n
     \<and> inj_on (fetchCount rt) (dom (fetchCount rt)) \<and> (\<forall>c p. fetchCount rt c = Some p \<longrightarrow> p < rt_next rt)
     \<and> (\<forall>c p. Holding c p \<in> set ts \<longrightarrow> fetchCount rt c = Some p)
     \<and> (\<forall>c. fetches rt c = of_nat (tally (returned_for c) ts))
     \<and> (\<forall>c. fetchCount rt c = None \<longrightarrow> tally (returned_for c) ts = 0)
     \<and> (\<forall>c. tally (\<lambda>x. x = Returned c True) ts = of_bool (unat t \<le> tally (returned_for c) ts)))"

lemma returned_for_simps:
  "returned_for c (ts ! i) = False" if "ts ! i = Calling d \<or> ts ! i = Holding d p"
  using that by auto

lemma rf_inv_counter:
  assumes inv: "rf_inv t n (rt, ts)" and i: "i < length ts" "ts ! i = Calling cid"
    and st: "RecordFetch_counter rt cid = (p, rt')"
  shows "rf_inv t n (rt', ts[i := Holding cid p])"
proof -
  have tal: "tally (returned_for c) (ts[i := Holding cid p]) = tally (returned_for c) ts" for c
    using tally_update [OF i(1), of "returned_for c" "Holding cid p"] i(2) by simp
  have tal': "tally (\<lambda>x. x = Returned c True) (ts[i := Holding cid p]) = tally (\<lambda>x. x = Returned c True) ts" for c
    using tally_update [OF i(1), of "\<lambda>x. x = Returned c True" "Holding cid p"] i(2) by simp
  have mem: "Holding c q \<in> set (ts[i := Holding cid p]) \<Longrightarrow> Holding c q \<in> set ts \<or> (c = cid \<and> q = p)" for c q
    using set_update_subset_insert [of ts i "Holding cid p"] by auto
  show ?thesis
  proof (cases "fetchCount rt cid")
    case (Some q)
    with st have "rt' = rt" "fetchCount rt cid = Some p" by (auto simp: RecordFetch_counter_def)
    then show ?thesis using inv unfolding rf_inv_def by (auto simp: tal tal' dest!: mem)
  next
    case None
    with st have p: "p = rt_next rt" and rt': "rt' = rt\<lparr>fetchCount := (fetchCount rt)(cid \<mapsto> p),
        rt_heap := (rt_heap rt)(p := 0), rt_next := Suc p\<rparr>" by (auto simp: RecordFetch_counter_def Let_def)
    have lt: "\<And>c q. fetchCount rt c = Some q \<Longrightarrow> q < p" using inv p by (simp add: rf_inv_def)
    have z: "tally (returned_for cid) ts = 0" using inv None by (simp add: rf_inv_def)
    have f: "fetches rt' c = of_nat (tally (returned_for c) ts)" for c
      using inv z lt [of c] by (auto simp: rf_inv_def fetches_def rt' None split: option.splits)
    have inj: "inj_on (fetchCount rt') (dom (fetchCount rt'))"
      using inv lt by (fastforce simp: rf_inv_def rt' inj_on_def dom_def)
    have "\<forall>c q. fetchCount rt' c = Some q \<longrightarrow> q < rt_next rt'" using lt by (auto simp: rt' less_Suc_eq)
    moreover have "\<forall>c q. Holding c q \<in> set (ts[i := Holding cid p]) \<longrightarrow> fetchCount rt' c = Some q"
      using inv None by (auto simp: rf_inv_def rt' dest!: mem)
    ultimately show ?thesis using inv inj f by (auto simp: rf_inv_def tal tal' rt')
  qed
qed

lemma unat_Suc_small:
  assumes "k < 2 ^ 63"
  shows "unat (of_nat k + 1 :: u64) = Suc k"
proof -
  have "unat (of_nat (Suc k) :: u64) = Suc k" by (rule unat_of_nat_small) (use assms in simp)
  then show ?thesis by (simp only: of_nat_Suc add.commute)
qed

lemma rf_inv_add:
  assumes inv: "rf_inv t n (rt, ts)" and i: "i < length ts" "ts ! i = Holding cid p"
    and st: "RecordFetch_add rt p = (r, rt')" and n: "n < 2 ^ 63"
  shows "rf_inv t n (rt', ts[i := Returned cid r])"
proof -
  have p: "fetchCount rt cid = Some p" using inv i nth_mem [OF i(1)] by (auto simp: rf_inv_def)
  have inj: "q = p \<longleftrightarrow> c = cid" if "fetchCount rt c = Some q" for c q
    using inv p that by (auto simp: rf_inv_def inj_on_def dom_def)
  let ?k = "\<lambda>c. tally (returned_for c) ts"
  have rt': "rt' = rt\<lparr>rt_heap := (rt_heap rt)(p := rt_heap rt p + 1)\<rparr>" and r: "r \<longleftrightarrow> rt_heap rt p + 1 = t"
    using st inv by (auto simp: RecordFetch_add_def Let_def rf_inv_def)
  have heap: "rt_heap rt p = of_nat (?k cid)" using inv p by (auto simp: rf_inv_def fetches_def dest: spec [of _ cid])
  have small: "?k cid < 2 ^ 63" using tally_le_length [of "returned_for cid" ts] inv n by (auto simp: rf_inv_def)
  have tal: "tally (returned_for c) (ts[i := Returned cid b]) = ?k c + of_bool (c = cid)" for c b
    using tally_update [OF i(1), of "returned_for c" "Returned cid b"] i(2) by (auto simp: eq_commute)
  have rr: "r \<longleftrightarrow> unat t = Suc (?k cid)"
    unfolding r heap using unat_Suc_small [OF small] by (metis word_unat_eq_iff)
  have tal': "tally (\<lambda>x. x = Returned c True) (ts[i := Returned cid r])
      = of_bool (unat t \<le> tally (returned_for c) (ts[i := Returned cid r]))" for c
  proof -
    have "tally (\<lambda>x. x = Returned c True) ts = of_bool (unat t \<le> ?k c)" using inv by (simp add: rf_inv_def)
    then show ?thesis
      using tally_update [OF i(1), of "\<lambda>x. x = Returned c True" "Returned cid r"] i(2) rr
      by (cases "c = cid"; cases r) (simp_all add: tal)
  qed
  have mem: "Holding c q \<in> set (ts[i := Returned cid r]) \<Longrightarrow> Holding c q \<in> set ts" for c q
    using set_update_subset_insert [of ts i "Returned cid r"] by auto
  have f: "fetches rt' c = of_nat (tally (returned_for c) (ts[i := Returned cid r]))" for c
    using inv heap inj [of c] p by (auto simp: rf_inv_def fetches_def tal rt' split: option.splits dest!: spec [of _ c])
  show ?thesis using inv f tal' p by (auto simp: rf_inv_def rt' tal dest: mem)
qed

lemma rf_inv_steps:
  assumes "rf_step\<^sup>*\<^sup>* (NewReplicationTracker t, map Calling cids) s" and "length cids < 2 ^ 63" and "t \<noteq> 0"
  shows "rf_inv t (length cids) s"
  using assms(1)
proof (induction rule: rtranclp_induct)
  case base
  have "0 < unat t" using assms(3) by (simp add: unat_gt_0)
  moreover have "tally P (map Calling cids) = 0" if "\<And>x. P x \<Longrightarrow> returned x" for P :: "rf_call \<Rightarrow> bool"
    using that [of "Calling c" for c] by (auto simp: tally_def filter_empty_conv)
  moreover have "returned_for c x \<Longrightarrow> returned x" for c x by (cases x) auto
  moreover have "tally (\<lambda>x. x = Returned c True) (map Calling cids) = 0" for c
    by (auto simp: tally_def filter_empty_conv)
  ultimately show ?case by (auto simp: rf_inv_def NewReplicationTracker_def fetches_def)
next
  case (step s s')
  from step(2,3) show ?case
    by (cases rule: rf_step.cases) (auto intro: rf_inv_counter rf_inv_add assms(2))
qed

lemma sint_of_nat_small: "k < 2 ^ 63 \<Longrightarrow> sint (of_nat k :: u64) = int k"
  by (simp add: signed_of_nat signed_take_bit_int_eq_self)

lemma sint_eq_unat:
  assumes "0 < sint (t::u64)"
  shows "sint t = int (unat t)"
proof -
  have "uint t = take_bit 64 (sint t)" using uint_sint [of t] by simp
  moreover have "sint t < 2 ^ 63" using sint_lt [of t] by simp
  ultimately show ?thesis using assms by (simp add: take_bit_int_eq_self flip: uint_nat)
qed

lemma rf_calls_fixed: "rf_step\<^sup>*\<^sup>* (rt, ts) (rt', ts') \<Longrightarrow> map call_of ts' = map call_of ts"
proof (induction rule: rtranclp_induct2)
  case (step rt1 ts1 rt2 ts2)
  from step(2) have "map call_of ts2 = map call_of ts1"
    by (cases rule: rf_step.cases) (simp_all add: map_update list_update_same_conv)
  with step(3) show ?case by simp
qed simp

lemma tally_returned:
  "\<forall>x\<in>set ts. returned x \<Longrightarrow> tally (returned_for c) ts = tally (\<lambda>d. d = c) (map call_of ts)"
proof (induction ts)
  case (Cons x ts)
  then show ?case by (cases x) (auto simp: tally_def)
qed (simp add: tally_def)

subsection \<open>Copying between stores\<close>

lemma dir_prefix_ends: "dir_prefix d = [] \<or> (\<exists>x. dir_prefix d = x @ ''/'')"
proof (cases "d = []")
  case False
  show ?thesis
  proof (cases "clean_elems d" rule: rev_cases)
    case (snoc es e)
    then have "dir_prefix d = ((if hd d = CHR ''/'' then ''/'' else []) @ concat (map (\<lambda>e. e @ ''/'') es) @ e) @ ''/''"
      using False by (simp add: dir_prefix_def)
    then show ?thesis by blast
  qed (use False in \<open>simp add: dir_prefix_def\<close>)
qed (simp add: dir_prefix_def)

lemma split_last_slash:
  assumes "x @ k = y @ k'" "slash_free k" "slash_free k'"
    and x: "x = [] \<or> (\<exists>z. x = z @ ''/'')" and y: "y = [] \<or> (\<exists>z. y = z @ ''/'')"
  shows "x = y"
proof -
  have nil: "us = []" if "p = q @ us" "slash_free us" "p = [] \<or> (\<exists>z. p = z @ ''/'')" for p q us :: string
    using that by (cases us rule: rev_cases) (auto simp: slash_free_def)
  from assms(1) obtain us where "x = y @ us \<and> us @ k = k' \<or> x @ us = y \<and> k = us @ k'"
    unfolding append_eq_append_conv2 by blast
  then show ?thesis
  proof
    assume *: "x = y @ us \<and> us @ k = k'"
    then have "slash_free us" using assms(3) by (auto simp: slash_free_def)
    with nil [of x y us] x * show ?thesis by simp
  next
    assume *: "x @ us = y \<and> k = us @ k'"
    then have "slash_free us" using assms(2) by (auto simp: slash_free_def)
    with nil [of y x us] y * show ?thesis by simp
  qed
qed

lemma blockPath_stores:
  assumes "slash_free k" "slash_free k'" "dir_prefix (dir s) \<noteq> dir_prefix (dir s')"
  shows "blockPath s k \<noteq> blockPath s' k'"
  using split_last_slash [of "dir_prefix (dir s)" "k @ ''.block''" "dir_prefix (dir s')" "k' @ ''.block''"]
    dir_prefix_ends [of "dir s"] dir_prefix_ends [of "dir s'"] assms
  by (auto simp: blockPath_plain slash_free_def)

text \<open>The blocks a list of keys lets the copy write.\<close>

definition copied :: "os \<Rightarrow> Store \<Rightarrow> Store \<Rightarrow> file_system \<Rightarrow> cid \<Rightarrow> bool" where
  "copied os src dst fs k \<longleftrightarrow> store_lookup src fs k \<noteq> None \<and> os_write os (blockPath dst k) = WriteOk"

lemma replicate_block_effect:
  assumes "dir_prefix (dir src) \<noteq> dir_prefix (dir dst)" "slash_free k"
    and "\<not> os_read_fails os (blockPath src k)" "replicate_block os src dst (n, fs) k = (n', fs')"
  shows "n' = n + of_bool (copied os src dst fs k)"
    and "slash_free j \<Longrightarrow> store_lookup src fs' j = store_lookup src fs j"
    and "slash_free j \<Longrightarrow> j \<noteq> k \<Longrightarrow> store_lookup dst fs' j = store_lookup dst fs j"
    and "copied os src dst fs k \<Longrightarrow> store_lookup dst fs' k = store_lookup src fs k"
proof -
  have src: "blockPath src j \<noteq> blockPath dst k" if "slash_free j" for j
    by (rule blockPath_stores [OF that assms(2,1)])
  have dst: "blockPath dst j \<noteq> blockPath dst k" if "slash_free j" "j \<noteq> k" for j
    using that assms(2) by (simp add: blockPath_inject)
  have eff: "(case store_lookup src fs k of
      None \<Rightarrow> n' = n \<and> fs' = fs
    | Some d \<Rightarrow> (case os_write os (blockPath dst k) of
          WriteOk \<Rightarrow> n' = n + 1 \<and> fs' = fs(blockPath dst k \<mapsto> d)
        | WriteFail \<Rightarrow> n' = n \<and> fs' = fs
        | WritePartial m \<Rightarrow> n' = n \<and> fs' = fs(blockPath dst k \<mapsto> take m d)))"
    using assms(4) by (simp add: replicate_block_def Store_Get_lookup [OF assms(3)] Store_Put_cases
        split: option.splits write_outcome.splits)
  show "n' = n + of_bool (copied os src dst fs k)"
    using eff by (simp add: copied_def split: option.splits write_outcome.splits)
  show "slash_free j \<Longrightarrow> store_lookup src fs' j = store_lookup src fs j"
    using eff src by (auto simp: store_lookup_def split: option.splits write_outcome.splits)
  show "slash_free j \<Longrightarrow> j \<noteq> k \<Longrightarrow> store_lookup dst fs' j = store_lookup dst fs j"
    using eff dst by (auto simp: store_lookup_def split: option.splits write_outcome.splits)
  show "copied os src dst fs k \<Longrightarrow> store_lookup dst fs' k = store_lookup src fs k"
    using eff by (auto simp: copied_def store_lookup_def split: option.splits write_outcome.splits)
qed

lemma replicate_blocks_effect:
  assumes "dir_prefix (dir src) \<noteq> dir_prefix (dir dst)" "\<forall>k. slash_free k \<longrightarrow> \<not> os_read_fails os (blockPath src k)"
  shows "distinct ks \<Longrightarrow> \<forall>k\<in>set ks. slash_free k \<Longrightarrow> foldl (replicate_block os src dst) (n, fs) ks = (n', fs') \<Longrightarrow>
    n' = n + tally (copied os src dst fs) ks
    \<and> (\<forall>j. slash_free j \<longrightarrow> store_lookup src fs' j = store_lookup src fs j
         \<and> (j \<notin> set ks \<longrightarrow> store_lookup dst fs' j = store_lookup dst fs j)
         \<and> (j \<in> set ks \<and> copied os src dst fs j \<longrightarrow> store_lookup dst fs' j = store_lookup src fs j))"
proof (induction ks arbitrary: n fs)
  case (Cons k ks)
  obtain n1 fs1 where st: "replicate_block os src dst (n, fs) k = (n1, fs1)" by fastforce
  have k: "slash_free k" "\<not> os_read_fails os (blockPath src k)" using Cons.prems(2) assms(2) by simp_all
  note eff = replicate_block_effect [OF assms(1) k st]
  have cop: "copied os src dst fs1 j = copied os src dst fs j" if "slash_free j" for j
    using eff(2) [OF that] by (simp add: copied_def)
  then have tal: "tally (copied os src dst fs1) ks = tally (copied os src dst fs) ks"
    using Cons.prems(2) by (auto simp: tally_def intro!: arg_cong [of _ _ length] filter_cong)
  from Cons.IH [of n1 fs1] Cons.prems st have
    IH: "n' = n1 + tally (copied os src dst fs1) ks"
      "\<And>j. slash_free j \<Longrightarrow> store_lookup src fs' j = store_lookup src fs1 j
         \<and> (j \<notin> set ks \<longrightarrow> store_lookup dst fs' j = store_lookup dst fs1 j)
         \<and> (j \<in> set ks \<and> copied os src dst fs1 j \<longrightarrow> store_lookup dst fs' j = store_lookup src fs1 j)" by simp_all
  have n': "n' = n + tally (copied os src dst fs) (k # ks)" using IH(1) eff(1) tal by (simp add: tally_def)
  have "store_lookup src fs' j = store_lookup src fs j
         \<and> (j \<notin> set (k # ks) \<longrightarrow> store_lookup dst fs' j = store_lookup dst fs j)
         \<and> (j \<in> set (k # ks) \<and> copied os src dst fs j \<longrightarrow> store_lookup dst fs' j = store_lookup src fs j)"
    if "slash_free j" for j
    using IH(2) [OF that] eff(2,3) [OF that] eff(4) cop [OF that] Cons.prems(1) by (cases "j = k") auto
  with n' show ?case by blast
qed (simp add: tally_def)

section \<open>Properties\<close>

text \<open>
  C12. Replication is triggered exactly once: however concurrent calls of \<^verbatim>\<open>RecordFetch\<close> on a new
  tracker interleave, once all have returned, exactly one of the calls for a block has reported the
  crossing of the threshold if the block was fetched that often, and none otherwise; the popular
  blocks are exactly those.
\<close>

theorem RecordFetch_triggers_once:
  assumes "rf_step\<^sup>*\<^sup>* (NewReplicationTracker t, map Calling cids) (rt, ts)" and "\<forall>x\<in>set ts. returned x"
    and "0 < sint t" and "length cids < 2 ^ 63" and "enumerates iter (fetchCount rt)"
  shows "tally (\<lambda>x. x = Returned c True) ts = (if unat t \<le> tally (\<lambda>d. d = c) cids then 1 else 0)
    \<and> set (PopularBlocks iter rt) = {d. unat t \<le> tally (\<lambda>e. e = d) cids}"
proof -
  have t0: "t \<noteq> 0" using assms(3) by auto
  note inv = rf_inv_steps [OF assms(1,4) t0]
  have calls: "map call_of ts = cids" using rf_calls_fixed [OF assms(1)] by (simp add: comp_def)
  have tal: "tally (returned_for d) ts = tally (\<lambda>e. e = d) cids" for d
    using tally_returned [OF assms(2)] calls by simp
  have f: "sint (fetches rt d) = int (tally (\<lambda>e. e = d) cids)" for d
    using inv tally_le_length [of "\<lambda>e. e = d" cids] assms(4) by (simp add: rf_inv_def tal sint_of_nat_small)
  have "0 < unat t" using t0 by (simp add: unat_gt_0)
  then have dom: "d \<in> dom (fetchCount rt)" if "unat t \<le> tally (\<lambda>e. e = d) cids" for d
    using inv that by (fastforce simp: rf_inv_def tal)
  have thr: "threshold rt = t" using inv by (simp add: rf_inv_def)
  have le: "sint t \<le> int k \<longleftrightarrow> unat t \<le> k" for k unfolding sint_eq_unat [OF assms(3)] by (simp only: of_nat_le_iff)
  have "set (PopularBlocks iter rt) = {d. unat t \<le> tally (\<lambda>e. e = d) cids}"
    using dom by (auto simp: PopularBlocks_def set_map_range [OF assms(5)] f thr le)
  moreover have "tally (\<lambda>x. x = Returned c True) ts = (if unat t \<le> tally (\<lambda>d. d = c) cids then 1 else 0)"
    using inv by (simp add: rf_inv_def tal)
  ultimately show ?thesis by blast
qed

text \<open>Two calls for one block, both past the mutex before either increments.\<close>

lemma wit_interleaving:
  "rf_step\<^sup>*\<^sup>* (NewReplicationTracker 2, map Calling [''k'', ''k''])
     (\<lparr>fetchCount = [''k'' \<mapsto> 0], threshold = 2, rt_heap = (\<lambda>_. 0)(0 := 2), rt_next = 1\<rparr>,
      [Returned ''k'' True, Returned ''k'' False])"
proof -
  let ?rt = "\<lambda>n. \<lparr>fetchCount = [''k'' \<mapsto> 0], threshold = 2, rt_heap = (\<lambda>_. 0)(0 := n), rt_next = 1\<rparr>"
  have 1: "rf_step (NewReplicationTracker 2, [Calling ''k'', Calling ''k'']) (?rt 0, [Calling ''k'', Holding ''k'' 0])"
    using rf_step.counter [of 1 "[Calling ''k'', Calling ''k'']" "''k''" "NewReplicationTracker 2" 0 "?rt 0"]
    by (simp add: RecordFetch_counter_def NewReplicationTracker_def)
  have 2: "rf_step (?rt 0, [Calling ''k'', Holding ''k'' 0]) (?rt 0, [Holding ''k'' 0, Holding ''k'' 0])"
    using rf_step.counter [of 0 "[Calling ''k'', Holding ''k'' 0]" "''k''" "?rt 0" 0 "?rt 0"]
    by (simp add: RecordFetch_counter_def)
  have 3: "rf_step (?rt 0, [Holding ''k'' 0, Holding ''k'' 0]) (?rt 1, [Holding ''k'' 0, Returned ''k'' False])"
    using rf_step.add [of 1 "[Holding ''k'' 0, Holding ''k'' 0]" "''k''" 0 "?rt 0" False "?rt 1"]
    by (simp add: RecordFetch_add_def)
  have 4: "rf_step (?rt 1, [Holding ''k'' 0, Returned ''k'' False]) (?rt 2, [Returned ''k'' True, Returned ''k'' False])"
    using rf_step.add [of 0 "[Holding ''k'' 0, Returned ''k'' False]" "''k''" 0 "?rt 1" True "?rt 2"]
    by (simp add: RecordFetch_add_def)
  show ?thesis using 1 2 3 4 by (simp add: rtranclp.rtrancl_into_rtrancl)
qed

theorem RecordFetch_triggers_once_witness:
  "set (PopularBlocks [''k''] \<lparr>fetchCount = [''k'' \<mapsto> 0], threshold = 2, rt_heap = (\<lambda>_. 0)(0 := 2), rt_next = 1\<rparr>)
     = {d. 2 \<le> tally (\<lambda>e. e = d) [''k'', ''k'']}"
  using RecordFetch_triggers_once [OF wit_interleaving, of "[''k'']"] by (simp add: enumerates_def)

text \<open>
  Copying the popular blocks to another store: whatever writes fail, the source keeps its blocks,
  the destination's other blocks are untouched, every popular block the source has and the disk
  accepts is then in the destination with the source's data, and the number returned counts exactly
  those.
\<close>

lemma ReplicatePopular_copies:
  assumes "dir_prefix (dir src) \<noteq> dir_prefix (dir dst)" and "enumerates iter (fetchCount rt)"
    and "\<forall>k\<in>dom (fetchCount rt). slash_free k" and "\<forall>k. slash_free k \<longrightarrow> \<not> os_read_fails os (blockPath src k)"
    and "ReplicatePopular iter os rt src dst fs = (n, fs')"
  shows "n = tally (copied os src dst fs) (PopularBlocks iter rt)
    \<and> (\<forall>j. slash_free j \<longrightarrow> store_lookup src fs' j = store_lookup src fs j
         \<and> (j \<notin> set (PopularBlocks iter rt) \<longrightarrow> store_lookup dst fs' j = store_lookup dst fs j)
         \<and> (j \<in> set (PopularBlocks iter rt) \<and> copied os src dst fs j \<longrightarrow>
              store_lookup dst fs' j = store_lookup src fs j))"
proof -
  have "distinct (PopularBlocks iter rt)" "\<forall>k\<in>set (PopularBlocks iter rt). slash_free k"
    using distinct_map_range [OF assms(2)] set_map_range [OF assms(2)] assms(3) by (auto simp: PopularBlocks_def)
  from replicate_blocks_effect [OF assms(1,4) this, of 0 fs n fs'] assms(5) show ?thesis
    by (simp add: ReplicatePopular_def)
qed

end
