(* ===== verification/Routing.thy ===== *)
theory Routing
  imports Store
begin

text \<open>
  Content routing (\<^verbatim>\<open>internal/content/routing.go\<close>). The Kademlia DHT and the CID and multihash
  libraries are arguments: \<open>mhash\<close> is \<^verbatim>\<open>mh.Sum\<close> followed by \<^verbatim>\<open>cid.NewCidV1\<close> (\<open>None\<close> its error), \<open>provide\<close>
  is \<^verbatim>\<open>DHT.Provide\<close> on the state of the DHT and \<open>find\<close> the peers \<^verbatim>\<open>FindProvidersAsync\<close> delivers before
  its channel closes or the timeout expires.
\<close>

section \<open>Operations\<close>

record AddrInfo =
  ai_ID :: peer_id
  ai_Addrs :: "string list"

record ('d, 'c) dht =
  mhash :: "bytes \<Rightarrow> 'c option"
  provide :: "'d \<Rightarrow> 'c \<Rightarrow> bool \<times> 'd"
  find_peers :: "'d \<Rightarrow> 'c \<Rightarrow> int \<Rightarrow> AddrInfo list"

datatype routing_error = CreateCID | ProvideCID cid

definition cidFromString :: "('d, 'c) dht \<Rightarrow> string \<Rightarrow> routing_error + 'c" where
  "cidFromString D s =
     (let raw = bytes_of_string s in case mhash D raw of None \<Rightarrow> Inl CreateCID | Some c \<Rightarrow> Inr c)"

definition Provide :: "('d, 'c) dht \<Rightarrow> 'd \<Rightarrow> cid \<Rightarrow> routing_error option \<times> 'd" where
  "Provide D d contentCID =
     (case cidFromString D contentCID of
        Inl e \<Rightarrow> (Some e, d)
      | Inr c \<Rightarrow> (case provide D d c of
            (False, d') \<Rightarrow> (Some (ProvideCID contentCID), d')
          | (True, d') \<Rightarrow> (None, d')))"

definition FindProviders :: "('d, 'c) dht \<Rightarrow> 'd \<Rightarrow> cid \<Rightarrow> int \<Rightarrow> routing_error + AddrInfo list" where
  "FindProviders D d contentCID maxPeers =
     (case cidFromString D contentCID of
        Inl e \<Rightarrow> Inl e
      | Inr c \<Rightarrow> Inr (filter (\<lambda>p. ai_ID p \<noteq> []) (find_peers D d c maxPeers)))"

text \<open>Errors of single announcements are logged and dropped.\<close>

definition ProvideBlocks :: "('d, 'c) dht \<Rightarrow> 'd \<Rightarrow> Manifest \<Rightarrow> routing_error option \<times> 'd" where
  "ProvideBlocks D d manifest =
     (let d1 = snd (Provide D d (RootCID manifest))
      in (None, foldl (\<lambda>d chunkCID. snd (Provide D d chunkCID)) d1 (ChunkCIDs manifest)))"

section \<open>Lemmas\<close>

text \<open>
  What is relied on in the DHT: content identifiers can be formed, an announcement is recorded for
  \<open>self\<close> (with a nonempty identifier) and later announcements do not remove it.
\<close>

definition dht_records :: "('d, 'c) dht \<Rightarrow> peer_id \<Rightarrow> int \<Rightarrow> bool" where
  "dht_records D self n \<longleftrightarrow> self \<noteq> [] \<and> (\<forall>b. mhash D b \<noteq> None)
     \<and> (\<forall>d c. self \<in> ai_ID ` set (find_peers D (snd (provide D d c)) c n))
     \<and> (\<forall>d c c'. self \<in> ai_ID ` set (find_peers D d c n) \<longrightarrow>
          self \<in> ai_ID ` set (find_peers D (snd (provide D d c')) c n))"

definition provides :: "('d, 'c) dht \<Rightarrow> 'd \<Rightarrow> int \<Rightarrow> peer_id \<Rightarrow> cid \<Rightarrow> bool" where
  "provides D d n self k \<longleftrightarrow> (\<exists>ps. FindProviders D d k n = Inr ps \<and> self \<in> ai_ID ` set ps)"

lemma Provide_snd: "mhash D (bytes_of_string k) = Some c \<Longrightarrow> snd (Provide D d k) = snd (provide D d c)"
  by (simp add: Provide_def cidFromString_def split: prod.split bool.split)

lemma provides_iff:
  "mhash D (bytes_of_string k) = Some c \<Longrightarrow> self \<noteq> [] \<Longrightarrow>
   provides D d n self k \<longleftrightarrow> self \<in> ai_ID ` set (find_peers D d c n)"
  by (auto simp: provides_def FindProviders_def cidFromString_def)

lemma provides_Provide:
  assumes "dht_records D self n"
  shows "provides D (snd (Provide D d k)) n self k"
    and "provides D d n self j \<Longrightarrow> provides D (snd (Provide D d k)) n self j"
proof -
  have "mhash D b \<noteq> None" for b using assms by (simp add: dht_records_def)
  then obtain c c' where c: "mhash D (bytes_of_string k) = Some c" and c': "mhash D (bytes_of_string j) = Some c'" by blast
  have self: "self \<noteq> []" using assms by (simp add: dht_records_def)
  note iff = provides_iff [OF c self] provides_iff [OF c' self] Provide_snd [OF c]
  show "provides D (snd (Provide D d k)) n self k" using assms by (simp add: iff dht_records_def)
  show "provides D d n self j \<Longrightarrow> provides D (snd (Provide D d k)) n self j"
    using assms by (simp add: iff dht_records_def)
qed

text \<open>After the announcement of a manifest its root and every chunk are found at the node.\<close>

lemma ProvideBlocks_announces:
  assumes "dht_records D self n" and "k = RootCID m \<or> k \<in> set (ChunkCIDs m)"
  shows "provides D (snd (ProvideBlocks D d m)) n self k"
proof -
  have keep: "provides D d n self k \<Longrightarrow> provides D (foldl (\<lambda>d j. snd (Provide D d j)) d js) n self k" for d js
    by (induction js arbitrary: d) (simp_all add: provides_Provide [OF assms(1)])
  have new: "k \<in> set js \<Longrightarrow> provides D (foldl (\<lambda>d j. snd (Provide D d j)) d js) n self k" for d js
  proof (induction js arbitrary: d)
    case (Cons j js)
    then show ?case using keep provides_Provide(1) [OF assms(1)] by (cases "k = j") simp_all
  qed simp
  from assms(2) show ?thesis
    unfolding ProvideBlocks_def Let_def snd_conv
    using keep new provides_Provide(1) [OF assms(1)] by blast
qed

end
