(* ===== verification/Erasure.thy ===== *)
theory Erasure
  imports Chunker
begin

text \<open>
  Erasure coding (\<^verbatim>\<open>internal/erasure/erasure.go\<close>). The Reed-Solomon library is the record \<open>reedsolomon\<close>,
  an argument of the model: whether \<^verbatim>\<open>New\<close> accepts the shard counts, and \<^verbatim>\<open>Split\<close>, \<^verbatim>\<open>Encode\<close>,
  \<^verbatim>\<open>Reconstruct\<close> and \<^verbatim>\<open>Verify\<close> of the encoder it returns (\<open>None\<close> their error). A shard that is missing
  is the empty slice, as in the library. What the code relies on is \<open>rs_code\<close>.
\<close>

section \<open>Operations\<close>

record Fragment =
  f_CID :: cid
  ParentCID :: cid
  Index :: int
  Total :: int
  DataCount :: int
  IsParity :: bool
  f_Data :: bytes

record reedsolomon =
  rs_New :: "int \<Rightarrow> int \<Rightarrow> bool"
  rs_Split :: "int \<Rightarrow> int \<Rightarrow> bytes \<Rightarrow> bytes list option"
  rs_Encode :: "int \<Rightarrow> int \<Rightarrow> bytes list \<Rightarrow> bytes list option"
  rs_Reconstruct :: "int \<Rightarrow> int \<Rightarrow> bytes list \<Rightarrow> bytes list option"
  rs_Verify :: "int \<Rightarrow> int \<Rightarrow> bytes list \<Rightarrow> bool option"

datatype erasure_error =
    CreateCoder | SplitData | EncodeParity | NeedFragments int nat | ReconstructShards
  | VerifyShards | VerificationFailed | ErasurePanic go_panic

definition computeCID :: "bytes \<Rightarrow> cid" where
  "computeCID data = hex_encode (sha256 data)"

definition fragment :: "cid \<Rightarrow> int \<Rightarrow> int \<Rightarrow> nat \<Rightarrow> bytes \<Rightarrow> Fragment" where
  "fragment parentCID totalShards dataShards i shard =
     \<lparr>f_CID = computeCID shard, ParentCID = parentCID, Index = int i, Total = totalShards, DataCount = dataShards,
      IsParity = (int i \<ge> dataShards), f_Data = shard\<rparr>"

text \<open>The result has \<open>totalShards\<close> entries, those past the shards left at Go's zero value.\<close>

definition zero_Fragment :: Fragment where
  "zero_Fragment = \<lparr>f_CID = [], ParentCID = [], Index = 0, Total = 0, DataCount = 0, IsParity = False, f_Data = []\<rparr>"

definition Encode :: "reedsolomon \<Rightarrow> bytes \<Rightarrow> cid \<Rightarrow> int \<Rightarrow> int \<Rightarrow> erasure_error + Fragment list" where
  "Encode rs data parentCID dataShards parityShards =
     (if \<not> rs_New rs dataShards parityShards then Inl CreateCoder
      else case rs_Split rs dataShards parityShards data of
        None \<Rightarrow> Inl SplitData
      | Some shards0 \<Rightarrow>
          (case rs_Encode rs dataShards parityShards shards0 of
             None \<Rightarrow> Inl EncodeParity
           | Some shards \<Rightarrow>
               (let totalShards = dataShards + parityShards in
                if int (length shards) > totalShards then Inl (ErasurePanic IndexOutOfRange)
                else Inr (map (\<lambda>(i, shard). fragment parentCID totalShards dataShards i shard) (enumerate 0 shards)
                          @ replicate (nat totalShards - length shards) zero_Fragment))))"

definition place_shards :: "int \<Rightarrow> Fragment list \<Rightarrow> bytes list" where
  "place_shards totalShards fragments =
     foldl (\<lambda>shards f. if 0 \<le> Index f \<and> Index f < totalShards then shards[nat (Index f) := f_Data f] else shards)
       (replicate (nat totalShards) []) fragments"

definition Decode :: "reedsolomon \<Rightarrow> Fragment list \<Rightarrow> int \<Rightarrow> int \<Rightarrow> int \<Rightarrow> erasure_error + bytes" where
  "Decode rs fragments originalSize dataShards parityShards =
     (if int (length fragments) < dataShards then Inl (NeedFragments dataShards (length fragments))
      else if \<not> rs_New rs dataShards parityShards then Inl CreateCoder
      else case rs_Reconstruct rs dataShards parityShards (place_shards (dataShards + parityShards) fragments) of
        None \<Rightarrow> Inl ReconstructShards
      | Some shards \<Rightarrow>
          (case rs_Verify rs dataShards parityShards shards of
             None \<Rightarrow> Inl VerifyShards
           | Some ok \<Rightarrow>
               (if \<not> ok then Inl VerificationFailed
                else let result = concat (take (nat dataShards) shards)
                     in Inr (if 0 < originalSize \<and> originalSize < int (length result)
                             then take (nat originalSize) result else result))))"

definition CanReconstruct :: "Fragment list \<Rightarrow> int \<Rightarrow> bool" where
  "CanReconstruct fragments dataShards \<longleftrightarrow> int (length fragments) \<ge> dataShards"

definition StorageOverhead :: "int \<Rightarrow> int \<Rightarrow> real" where
  "StorageOverhead dataShards parityShards = real_of_int (dataShards + parityShards) / real_of_int dataShards"

section \<open>The documented behaviour of the Reed-Solomon library\<close>

definition erase :: "nat set \<Rightarrow> bytes list \<Rightarrow> bytes list" where
  "erase keep shards = map (\<lambda>i. if i \<in> keep then shards ! i else []) [0..<length shards]"

text \<open>
  \<^verbatim>\<open>New\<close> accepts only a positive number of data shards; \<^verbatim>\<open>Split\<close> of nonempty data gives shards of one
  size whose data part is the data padded with zeros; \<^verbatim>\<open>Encode\<close> keeps the data part; from an encoded
  list with at least \<open>k\<close> shards left \<^verbatim>\<open>Reconstruct\<close> restores it, with fewer it fails; \<^verbatim>\<open>Verify\<close> accepts it.
\<close>

definition encoded :: "reedsolomon \<Rightarrow> int \<Rightarrow> int \<Rightarrow> bytes \<Rightarrow> bytes list \<Rightarrow> bool" where
  "encoded rs k m data shards \<longleftrightarrow>
     (\<exists>shards0. rs_Split rs k m data = Some shards0 \<and> rs_Encode rs k m shards0 = Some shards)"

definition rs_code :: "reedsolomon \<Rightarrow> int \<Rightarrow> int \<Rightarrow> bool" where
  "rs_code rs k m \<longleftrightarrow> rs_New rs k m \<and> 0 < k \<and> 0 \<le> m
     \<and> (\<forall>data. data \<noteq> [] \<longrightarrow> (\<exists>shards. encoded rs k m data shards))
     \<and> (\<forall>data shards. data \<noteq> [] \<longrightarrow> encoded rs k m data shards \<longrightarrow>
          length shards = nat (k + m)
          \<and> (\<exists>pad. concat (take (nat k) shards) = data @ replicate pad 0)
          \<and> (\<exists>L>0. \<forall>s\<in>set shards. length s = L)
          \<and> rs_Verify rs k m shards = Some True
          \<and> (\<forall>keep \<subseteq> {..<nat (k + m)}. rs_Reconstruct rs k m (erase keep shards) =
               (if nat k \<le> card keep then Some shards else None)))"

section \<open>Lemmas\<close>

lemma length_erase [simp]: "length (erase keep shards) = length shards"
  by (simp add: erase_def)

lemma erase_empty: "erase {} shards = replicate (length shards) []"
  by (rule nth_equalityI) (simp_all add: erase_def)

lemma erase_insert: "i < length shards \<Longrightarrow> (erase keep shards)[i := shards ! i] = erase (insert i keep) shards"
  by (rule nth_equalityI) (auto simp: erase_def nth_list_update)

lemma place_shards_erase:
  assumes "totalShards = int (length shards)"
    and "\<forall>f\<in>set fs. \<exists>i<length shards. Index f = int i \<and> f_Data f = shards ! i"
  shows "place_shards totalShards fs = erase ((\<lambda>f. nat (Index f)) ` set fs) shards"
proof -
  have "foldl (\<lambda>sh f. if 0 \<le> Index f \<and> Index f < totalShards then sh[nat (Index f) := f_Data f] else sh) (erase keep shards) fs
      = erase (keep \<union> (\<lambda>f. nat (Index f)) ` set fs) shards" for keep
    using assms(2)
  proof (induction fs arbitrary: keep)
    case (Cons f fs)
    then obtain i where i: "i < length shards" "Index f = int i" "f_Data f = shards ! i" by auto
    then show ?case using Cons by (simp add: assms(1) erase_insert)
  qed simp
  from this [of "{}"] show ?thesis by (simp add: place_shards_def erase_empty assms(1))
qed

lemma Encode_fragments:
  assumes "rs_code rs k m" and "data \<noteq> []"
  obtains shards where "encoded rs k m data shards" "length shards = nat (k + m)"
    "Encode rs data parent k m = Inr (map (\<lambda>(i, shard). fragment parent (k + m) k i shard) (enumerate 0 shards))"
proof -
  from assms obtain shards where sh: "encoded rs k m data shards" by (auto simp: rs_code_def)
  moreover have len: "length shards = nat (k + m)" and "rs_New rs k m" "0 \<le> k + m"
    using assms sh unfolding rs_code_def by auto
  ultimately show thesis using that [OF sh len] by (auto simp: Encode_def encoded_def)
qed

lemma fragment_of_shards:
  assumes "fs = map (\<lambda>(i, shard). fragment parent totalShards k i shard) (enumerate 0 shards)" and "f \<in> set fs"
  shows "\<exists>i<length shards. Index f = int i \<and> f_Data f = shards ! i \<and> f_CID f = computeCID (shards ! i)
    \<and> IsParity f = (k \<le> int i)"
  using assms by (auto simp: fragment_def in_set_enumerate_eq)

lemma Encode_nth:
  assumes "rs_code rs k m" and "data \<noteq> []" and "Encode rs data parent k m = Inr frs"
  shows "length frs = nat (k + m)"
    and "i < length frs \<Longrightarrow> Index (frs ! i) = int i \<and> f_CID (frs ! i) = ComputeCID (f_Data (frs ! i))"
proof -
  obtain shards where "length shards = nat (k + m)"
      "frs = map (\<lambda>(i, shard). fragment parent (k + m) k i shard) (enumerate 0 shards)"
    using Encode_fragments [OF assms(1,2), of parent thesis] assms(3) by auto
  then show "length frs = nat (k + m)"
    "i < length frs \<Longrightarrow> Index (frs ! i) = int i \<and> f_CID (frs ! i) = ComputeCID (f_Data (frs ! i))"
    by (auto simp: nth_enumerate_eq fragment_def computeCID_def ComputeCID_def)
qed

lemma Decode_fragments:
  assumes "rs_code rs k m" and "data \<noteq> []" and "Encode rs data parent k m = Inr frs" and "set fs \<subseteq> set frs"
  shows "Decode rs fs (int (length data)) k m =
      (if \<not> CanReconstruct fs k then Inl (NeedFragments k (length fs))
       else if int (card (Index ` set fs)) < k then Inl ReconstructShards
       else Inr data)"
proof -
  obtain shards where sh: "encoded rs k m data shards" "length shards = nat (k + m)"
      "frs = map (\<lambda>(i, shard). fragment parent (k + m) k i shard) (enumerate 0 shards)"
    using Encode_fragments [OF assms(1,2), of parent thesis] assms(3) by auto
  have k: "0 < k" "0 \<le> m" "rs_New rs k m" using assms(1) by (auto simp: rs_code_def)
  have ver: "rs_Verify rs k m shards = Some True"
    and rec: "\<And>keep. keep \<subseteq> {..<nat (k + m)} \<Longrightarrow> rs_Reconstruct rs k m (erase keep shards) =
               (if nat k \<le> card keep then Some shards else None)"
    using assms(1,2) sh(1) unfolding rs_code_def by blast+
  obtain pad where pad: "concat (take (nat k) shards) = data @ replicate pad 0"
    using assms(1,2) sh(1) unfolding rs_code_def by blast
  let ?keep = "(\<lambda>f. nat (Index f)) ` set fs"
  have idx: "\<forall>f\<in>set fs. \<exists>i<length shards. Index f = int i \<and> f_Data f = shards ! i"
    using fragment_of_shards [OF sh(3)] assms(4) by blast
  have place: "place_shards (k + m) fs = erase ?keep shards"
    using place_shards_erase [OF _ idx] sh(2) k by simp
  have keep: "?keep \<subseteq> {..<nat (k + m)}" using idx sh(2) by fastforce
  have "\<forall>x\<in>Index ` set fs. 0 \<le> x" using idx by fastforce
  then have inj: "inj_on nat (Index ` set fs)" by (intro inj_onI) (metis int_nat_eq)
  then have card: "card ?keep = card (Index ` set fs)" by (simp add: card_image flip: image_image)
  have data: "0 < length data" using assms(2) by simp
  show ?thesis
    using k data by (auto simp: Decode_def CanReconstruct_def place rec [OF keep] card ver pad Let_def)
qed

section \<open>Properties\<close>

text \<open>
  C11. Decoding any fragments (in any order, repetitions allowed) of an encoded block with the block's
  size: with fewer fragments than data shards, or fewer distinct ones, it is an error; with at least
  as many distinct fragments as data shards it gives back exactly the block. \<^verbatim>\<open>CanReconstruct\<close> only
  counts fragments, so it also accepts repeated ones that do not suffice.
\<close>

theorem Encode_then_Decode:
  assumes "rs_code rs k m" and "data \<noteq> []" and "Encode rs data parent k m = Inr frs" and "set fs \<subseteq> set frs"
  shows "length frs = nat (k + m)
    \<and> Decode rs fs (int (length data)) k m =
      (if \<not> CanReconstruct fs k then Inl (NeedFragments k (length fs))
       else if int (card (Index ` set fs)) < k then Inl ReconstructShards
       else Inr data)"
  using Encode_nth(1) [OF assms(1-3)] Decode_fragments [OF assms] by simp

text \<open>A concrete code for one data shard: every shard is the data.\<close>

definition wit_rs :: reedsolomon where
  "wit_rs = \<lparr>rs_New = (\<lambda>k m. k = 1 \<and> m = 1),
     rs_Split = (\<lambda>k m data. if data = [] then None else Some [data, replicate (length data) 0]),
     rs_Encode = (\<lambda>k m sh. Some [sh ! 0, sh ! 0]),
     rs_Reconstruct = (\<lambda>k m sh. if sh ! 0 \<noteq> [] then Some [sh ! 0, sh ! 0] else if sh ! 1 \<noteq> [] then Some [sh ! 1, sh ! 1] else None),
     rs_Verify = (\<lambda>k m sh. Some (sh ! 0 = sh ! 1))\<rparr>"

lemma wit_rs_Reconstruct:
  assumes "keep \<subseteq> {..<2}" and "d \<noteq> []"
  shows "rs_Reconstruct wit_rs 1 1 (erase keep [d, d]) = (if 1 \<le> card keep then Some [d, d] else None)"
proof -
  have er: "erase keep [d, d] = [if 0 \<in> keep then d else [], if 1 \<in> keep then d else []]"
    by (simp add: erase_def upt_rec)
  have "keep = {} \<or> keep = {0} \<or> keep = {1} \<or> keep = {0, 1}"
    using assms(1) by (auto simp: lessThan_nat_numeral lessThan_Suc)
  then show ?thesis unfolding er using assms(2) by (elim disjE) (simp_all add: wit_rs_def)
qed

lemma encoded_wit_rs: "encoded wit_rs 1 1 data shards \<longleftrightarrow> data \<noteq> [] \<and> shards = [data, data]"
  by (auto simp: encoded_def wit_rs_def)

lemma rs_code_wit_rs: "rs_code wit_rs 1 1"
  unfolding rs_code_def encoded_wit_rs
proof (intro conjI allI impI)
  show "rs_New wit_rs 1 1" by (simp add: wit_rs_def)
next
  fix data :: bytes and shards assume d: "data \<noteq> []" "data \<noteq> [] \<and> shards = [data, data]"
  show "length shards = nat (1 + 1)" "rs_Verify wit_rs 1 1 shards = Some True" using d by (simp_all add: wit_rs_def)
  show "\<exists>pad. concat (take (nat 1) shards) = data @ replicate pad 0" using d by (intro exI [of _ 0]) simp
  show "\<exists>L>0. \<forall>s\<in>set shards. length s = L" using d by (intro exI [of _ "length data"]) simp
  show "rs_Reconstruct wit_rs 1 1 (erase keep shards) = (if nat 1 \<le> card keep then Some shards else None)"
    if "keep \<subseteq> {..<nat (1 + 1)}" for keep
    using wit_rs_Reconstruct [of keep data] that d by simp
qed simp_all

theorem Encode_then_Decode_witness:
  "Decode wit_rs [fragment ''k'' 2 1 1 [7, 8]] 2 1 1 = Inr [7, 8]"
  using Encode_then_Decode [OF rs_code_wit_rs, of "[7, 8]" "''k''"
      "[fragment ''k'' 2 1 0 [7, 8], fragment ''k'' 2 1 1 [7, 8]]" "[fragment ''k'' 2 1 1 [7, 8]]"]
  by (simp add: CanReconstruct_def Encode_def wit_rs_def)

text \<open>
  Encoded blocks take \<^verbatim>\<open>StorageOverhead\<close> times the size of the padded data.
\<close>

lemma Encode_overhead:
  assumes "rs_code rs k m" and "data \<noteq> []" and "Encode rs data parent k m = Inr frs"
  shows "\<exists>L>0. length data \<le> nat k * L
    \<and> real (\<Sum>f\<leftarrow>frs. length (f_Data f)) = StorageOverhead k m * real (nat k * L)"
proof -
  obtain shards where sh: "encoded rs k m data shards" "length shards = nat (k + m)"
      "frs = map (\<lambda>(i, shard). fragment parent (k + m) k i shard) (enumerate 0 shards)"
    using Encode_fragments [OF assms(1,2), of parent thesis] assms(3) by auto
  have k: "0 < k" "0 \<le> m" using assms(1) by (auto simp: rs_code_def)
  obtain L where L: "0 < L" "\<forall>s\<in>set shards. length s = L"
    using assms(1,2) sh(1) unfolding rs_code_def by blast
  obtain pad where pad: "concat (take (nat k) shards) = data @ replicate pad 0"
    using assms(1,2) sh(1) unfolding rs_code_def by blast
  have sum: "(\<Sum>s\<leftarrow>ss. length s) = length ss * L" if "set ss \<subseteq> set shards" for ss
    using that L(2) by (induction ss) auto
  have "map f_Data frs = shards" unfolding sh(3) by (simp add: fragment_def comp_def case_prod_beta map_snd_enumerate)
  then have "(\<Sum>f\<leftarrow>frs. length (f_Data f)) = nat (k + m) * L"
    using sum [of shards] sh(2) by (simp add: comp_def flip: map_map [of length f_Data, unfolded comp_def])
  moreover have "length data \<le> nat k * L"
    using arg_cong [OF pad, of length] sum [OF set_take_subset, of "nat k"] sh(2) k by (simp add: length_concat)
  ultimately show ?thesis using L(1) k by (intro exI [of _ L]) (simp add: StorageOverhead_def field_simps)
qed

end
