(* ===== verification/Transport.thy ===== *)
theory Transport
  imports Routing
begin

text \<open>
  Setting up a host (\<^verbatim>\<open>internal/transport\<close>): the private key that is the node's identity, kept in a file
  of the data directory (\<^verbatim>\<open>host.go\<close>), bootstrap peers, the DHT and local discovery (\<^verbatim>\<open>discovery.go\<close>), and
  relays (\<^verbatim>\<open>relay.go\<close>). libp2p, its key and address libraries are arguments. A private key is its raw bytes.
\<close>

section \<open>The host and its key\<close>

type_synonym PrivKey = bytes

record crypto_lib =
  UnmarshalPrivateKey :: "bytes \<Rightarrow> PrivKey option"
  GenerateEd25519Key :: "PrivKey option"
  MarshalPrivateKey :: "PrivKey \<Rightarrow> bytes option"

datatype key_error = MakeDataDir | GenerateKey | MarshalKey | WriteKey

definition keyFileName :: string where
  "keyFileName = ''peer.key''"

definition loadOrGenerateKey :: "crypto_lib \<Rightarrow> os \<Rightarrow> string \<Rightarrow> file_system \<Rightarrow> (key_error + PrivKey) \<times> file_system" where
  "loadOrGenerateKey lib os dataDir fs =
     (if os_mkdir_fails os dataDir then (Inl MakeDataDir, fs)
      else let keyPath = path_Join [dataDir, keyFileName] in
        case (case os_ReadFile os keyPath fs of ReadOk data \<Rightarrow> UnmarshalPrivateKey lib data | _ \<Rightarrow> None) of
          Some priv \<Rightarrow> (Inr priv, fs)
        | None \<Rightarrow>
            (case GenerateEd25519Key lib of
               None \<Rightarrow> (Inl GenerateKey, fs)
             | Some priv \<Rightarrow>
                 (case MarshalPrivateKey lib priv of
                    None \<Rightarrow> (Inl MarshalKey, fs)
                  | Some raw \<Rightarrow>
                      (case os_WriteFile os keyPath raw fs of
                         (True, fs') \<Rightarrow> (Inr priv, fs')
                       | (False, fs') \<Rightarrow> (Inl WriteKey, fs')))))"

record HostConfig =
  hc_ListenAddrs :: "string list"
  hc_DataDir :: string
  hc_EnableRelay :: bool
  ForcePrivate :: bool
  hc_Registry :: bool

text \<open>The options given to \<^verbatim>\<open>libp2p.New\<close>.\<close>

datatype libp2p_option =
    Identity PrivKey | ListenAddrStrings "string list" | ResourceManager | EnableHolePunching
  | EnableRelayTransport | ForceReachabilityPrivate | PrometheusRegisterer

record host_env =
  he_crypto :: crypto_lib
  he_rcmgr :: bool
  he_new :: "libp2p_option list \<Rightarrow> peer_id option"

datatype host_error = LoadKey key_error | CreateResourceManager | CreateLibp2pHost

definition host_options :: "HostConfig \<Rightarrow> PrivKey \<Rightarrow> libp2p_option list" where
  "host_options cfg priv =
     [Identity priv, ListenAddrStrings (hc_ListenAddrs cfg), ResourceManager, EnableHolePunching]
     @ (if hc_EnableRelay cfg then [EnableRelayTransport] else [])
     @ (if ForcePrivate cfg then [ForceReachabilityPrivate] else [])
     @ (if hc_Registry cfg then [PrometheusRegisterer] else [])"

definition NewHost :: "host_env \<Rightarrow> os \<Rightarrow> HostConfig \<Rightarrow> file_system \<Rightarrow> (host_error + peer_id) \<times> file_system" where
  "NewHost env os cfg fs =
     (case loadOrGenerateKey (he_crypto env) os (hc_DataDir cfg) fs of
        (Inl e, fs') \<Rightarrow> (Inl (LoadKey e), fs')
      | (Inr priv, fs') \<Rightarrow>
          (if \<not> he_rcmgr env then (Inl CreateResourceManager, fs')
           else case he_new env (host_options cfg priv) of
             None \<Rightarrow> (Inl CreateLibp2pHost, fs')
           | Some h \<Rightarrow> (Inr h, fs')))"

section \<open>Discovery\<close>

text \<open>A multiaddress is its text.\<close>

type_synonym multiaddr = string

record addr_lib =
  NewMultiaddr :: "string \<Rightarrow> multiaddr option"
  AddrInfoFromP2pAddr :: "multiaddr \<Rightarrow> AddrInfo option"

datatype bootstrap_error = ParseMultiaddr string | ParsePeerInfo string

fun ParseBootstrapPeers :: "addr_lib \<Rightarrow> string list \<Rightarrow> bootstrap_error + AddrInfo list" where
  "ParseBootstrapPeers lib [] = Inr []"
| "ParseBootstrapPeers lib (s # addrs) =
     (case NewMultiaddr lib s of
        None \<Rightarrow> Inl (ParseMultiaddr s)
      | Some maddr \<Rightarrow>
          (case AddrInfoFromP2pAddr lib maddr of
             None \<Rightarrow> Inl (ParsePeerInfo s)
           | Some info \<Rightarrow>
               (case ParseBootstrapPeers lib addrs of Inl e \<Rightarrow> Inl e | Inr peers \<Rightarrow> Inr (info # peers))))"

record dht_env =
  dht_New :: bool
  dht_Bootstrap :: bool
  host_Connect :: "AddrInfo \<Rightarrow> bool"

datatype dht_error = CreateDHT | BootstrapDHT

text \<open>
  On success the bootstrap peers that were connected. The connections are made concurrently and do not
  depend on each other; a failed one is only logged.
\<close>

definition SetupDHT :: "dht_env \<Rightarrow> AddrInfo list \<Rightarrow> dht_error + AddrInfo list" where
  "SetupDHT env bootstrapPeers =
     (if \<not> dht_New env then Inl CreateDHT
      else if \<not> dht_Bootstrap env then Inl BootstrapDHT
      else Inr (filter (host_Connect env) bootstrapPeers))"

text \<open>The peer that a mDNS announcement makes the host \<open>self\<close> connect to; \<open>ended\<close>: its context has ended.\<close>

definition HandlePeerFound :: "peer_id \<Rightarrow> bool \<Rightarrow> (AddrInfo \<Rightarrow> bool) \<Rightarrow> AddrInfo \<Rightarrow> peer_id option" where
  "HandlePeerFound self ended connect info =
     (if ai_ID info = self then None else if ended then None else if connect info then Some (ai_ID info) else None)"

section \<open>Relays\<close>

datatype relay_error = NoRelayAddress | RelayComponent | CircuitComponent | TargetComponent

definition BuildRelayAddr ::
  "(string \<Rightarrow> string \<Rightarrow> 'c option) \<Rightarrow> (multiaddr \<Rightarrow> 'c \<Rightarrow> multiaddr) \<Rightarrow>
     peer_id \<Rightarrow> peer_id \<Rightarrow> multiaddr list \<Rightarrow> relay_error + multiaddr" where
  "BuildRelayAddr NewComponent Encapsulate relayID targetID relayAddrs =
     (case relayAddrs of
        [] \<Rightarrow> Inl NoRelayAddress
      | base # _ \<Rightarrow>
          (case NewComponent ''p2p'' relayID of
             None \<Rightarrow> Inl RelayComponent
           | Some relayComponent \<Rightarrow>
               (case NewComponent ''p2p-circuit'' [] of
                  None \<Rightarrow> Inl CircuitComponent
                | Some circuitComponent \<Rightarrow>
                    (case NewComponent ''p2p'' targetID of
                       None \<Rightarrow> Inl TargetComponent
                     | Some targetComponent \<Rightarrow>
                         Inr (Encapsulate (Encapsulate (Encapsulate base relayComponent) circuitComponent) targetComponent)))))"

text \<open>\<open>protocols p\<close> is what the peerstore knows of peer \<open>p\<close>, \<open>None\<close> on an error.\<close>

fun EnumerateRelayPeers :: "(peer_id \<Rightarrow> string list option) \<Rightarrow> (peer_id \<Rightarrow> multiaddr list) \<Rightarrow> peer_id list \<Rightarrow> AddrInfo list" where
  "EnumerateRelayPeers protocols addrs [] = []"
| "EnumerateRelayPeers protocols addrs (p # ps) =
     (case protocols p of
        None \<Rightarrow> EnumerateRelayPeers protocols addrs ps
      | Some protos \<Rightarrow>
          (if ''/libp2p/circuit/relay/0.2.0/hop'' \<in> set protos
           then \<lparr>ai_ID = p, ai_Addrs = addrs p\<rparr> # EnumerateRelayPeers protocols addrs ps
           else EnumerateRelayPeers protocols addrs ps))"

section \<open>Lemmas\<close>

lemma key_path_end: "last (path_Join [dd, keyFileName]) = CHR ''y''"
  by (simp add: keyFileName_def path_Join_plain plain_name_def)

text \<open>The files the store writes do not end like the key file.\<close>

lemma block_path_end: "slash_free k \<Longrightarrow> last (blockPath s k) = CHR ''k''"
  by (simp add: blockPath_plain)

lemma manifest_path_end: "slash_free k \<Longrightarrow> last (manifestPath s k) = CHR ''n''"
  by (simp add: manifestPath_plain)

lemma pins_path_end: "store_at dd s \<Longrightarrow> last (pinFile s) = CHR ''n''"
  by (simp add: store_at_def path_Join_plain plain_name_def)

lemma loadOrGenerateKey_other: "p \<noteq> path_Join [dd, keyFileName] \<Longrightarrow> snd (loadOrGenerateKey lib os dd fs) p = fs p"
  by (auto simp: loadOrGenerateKey_def Let_def os_WriteFile_def split: option.split write_outcome.split)

lemma NewHost_other: "p \<noteq> path_Join [hc_DataDir cfg, keyFileName] \<Longrightarrow> snd (NewHost env os cfg fs) p = fs p"
  using loadOrGenerateKey_other [of p "hc_DataDir cfg" "he_crypto env" os fs]
  by (auto simp: NewHost_def split: prod.splits sum.splits option.splits)

lemma NewHost_blocks: "slash_free k \<Longrightarrow> store_lookup st (snd (NewHost env os cfg fs)) k = store_lookup st fs k"
proof -
  assume "slash_free k"
  then have "last (blockPath st k) \<noteq> last (path_Join [hc_DataDir cfg, keyFileName])" by (simp add: block_path_end key_path_end)
  then have "blockPath st k \<noteq> path_Join [hc_DataDir cfg, keyFileName]" by metis
  then show ?thesis unfolding store_lookup_def by (rule NewHost_other)
qed

text \<open>The key a host was started with is in its file, under a key library whose codings are inverse.\<close>

lemma loadOrGenerateKey_saved:
  assumes "\<And>k raw. MarshalPrivateKey lib k = Some raw \<Longrightarrow> UnmarshalPrivateKey lib raw = Some k"
    and "loadOrGenerateKey lib os dd fs = (Inr priv, fs')"
  shows "\<exists>raw. fs' (path_Join [dd, keyFileName]) = Some raw \<and> UnmarshalPrivateKey lib raw = Some priv"
proof (cases "case os_ReadFile os (path_Join [dd, keyFileName]) fs of ReadOk data \<Rightarrow> UnmarshalPrivateKey lib data | _ \<Rightarrow> None")
  case (Some k)
  then have "k = priv" "fs' = fs" using assms(2) by (auto simp: loadOrGenerateKey_def Let_def split: if_splits)
  with Some show ?thesis by (auto simp: os_ReadFile_def split: option.splits if_splits)
next
  case None
  then obtain raw where "MarshalPrivateKey lib priv = Some raw" "fs' = fs(path_Join [dd, keyFileName] \<mapsto> raw)"
    using assms(2) by (auto simp: loadOrGenerateKey_def Let_def os_WriteFile_def split: if_splits option.splits write_outcome.splits)
  with assms(1) show ?thesis by simp
qed

lemma loadOrGenerateKey_loads:
  assumes "fs (path_Join [dd, keyFileName]) = Some raw" and "UnmarshalPrivateKey lib raw = Some priv"
    and "\<not> os_read_fails os (path_Join [dd, keyFileName])" and "\<not> os_mkdir_fails os dd"
  shows "loadOrGenerateKey lib os dd fs = (Inr priv, fs)"
  using assms by (simp add: loadOrGenerateKey_def Let_def os_ReadFile_def)

text \<open>A key file that cannot be read is overwritten with a new key.\<close>

lemma unreadable_key_replaced:
  assumes "os_read_fails os (path_Join [dd, keyFileName])" and "\<not> os_mkdir_fails os dd"
    and "GenerateEd25519Key lib = Some priv" and "MarshalPrivateKey lib priv = Some raw"
    and "os_write os (path_Join [dd, keyFileName]) = WriteOk"
  shows "loadOrGenerateKey lib os dd fs = (Inr priv, fs(path_Join [dd, keyFileName] \<mapsto> raw))"
  using assms by (simp add: loadOrGenerateKey_def Let_def os_ReadFile_def os_WriteFile_def split: option.split)

lemma NewHost_Inr:
  assumes "NewHost env os cfg fs = (Inr h, fs')"
  obtains priv where "loadOrGenerateKey (he_crypto env) os (hc_DataDir cfg) fs = (Inr priv, fs')" "he_new env (host_options cfg priv) = Some h"
  using assms by (auto simp: NewHost_def split: prod.splits sum.splits if_splits option.splits)

lemma EnumerateRelayPeers_eq:
  "map ai_ID (EnumerateRelayPeers protocols addrs ps) =
     filter (\<lambda>p. \<exists>protos. protocols p = Some protos \<and> ''/libp2p/circuit/relay/0.2.0/hop'' \<in> set protos) ps"
  by (induction ps) (auto split: option.split)

lemma ParseBootstrapPeers_Inr:
  "ParseBootstrapPeers lib addrs = Inr peers \<Longrightarrow>
   list_all2 (\<lambda>s info. Option.bind (NewMultiaddr lib s) (AddrInfoFromP2pAddr lib) = Some info) addrs peers"
  by (induction addrs arbitrary: peers) (auto split: option.splits sum.splits)

lemma HandlePeerFound_not_self: "HandlePeerFound self ended connect info \<noteq> Some self"
  by (simp add: HandlePeerFound_def)

lemma BuildRelayAddr_order:
  assumes "\<And>m c. Encapsulate m c = m @ c" and "\<And>p v. NewComponent p v = Some (''/'' @ p @ (if v = [] then [] else ''/'' @ v))"
    and "relayID \<noteq> []" and "targetID \<noteq> []"
  shows "BuildRelayAddr NewComponent Encapsulate relayID targetID (base # rest) =
    Inr (base @ ''/p2p/'' @ relayID @ ''/p2p-circuit/p2p/'' @ targetID)"
  by (simp add: BuildRelayAddr_def assms)

end
