(* ===== verification/Node.thy ===== *)
theory Node
  imports Block_Transfer Cache_Summary Path_Manager Replication Routing Erasure Transport
begin

text \<open>
  The node (\<^verbatim>\<open>internal/node/config.go\<close>, \<^verbatim>\<open>internal/node/node.go\<close>): configuration, the state that \<^verbatim>\<open>Start\<close>
  wires together, and the background replication of popular blocks, whole or erasure coded. Pointer
  fields that are nil before \<^verbatim>\<open>Start\<close> are options; using one that is nil is a panic. Each node has a disk
  of its own. The rest of the network is a value \<open>w\<close> that a dialled stream may change: \<open>dial w p req\<close>
  is the answer of peer \<open>p\<close> to the bytes \<open>req\<close> and the network after it.
\<close>

section \<open>Configuration\<close>

record Config =
  ListenAddrs :: "string list"
  BootstrapPeers :: "string list"
  DataDir :: string
  EnableRelay :: bool
  EnableMDNS :: bool
  APIAddr :: string
  MetricsAddr :: string
  PathPolicy :: string
  CacheMaxBytes :: int
  ChunkSizeBytes :: int
  EnableErasure :: bool
  DataShards :: int
  ParityShards :: int
  AdaptiveChunking :: bool
  MinChunkSize :: int
  MaxChunkSize :: int
  PathEpsilon :: real
  DisableBloomExchange :: bool
  ProbeInterval :: duration
  ProbeTimeout :: duration
  LogLevel :: string

definition Second :: duration where
  "Second = 1000000000"

definition DefaultConfig :: "string \<Rightarrow> Config" where
  "DefaultConfig home =
     \<lparr>ListenAddrs = [''/ip4/0.0.0.0/tcp/9000''], BootstrapPeers = [],
      DataDir = path_Join [home, ''.pathaware-libp2p''], EnableRelay = True, EnableMDNS = True,
      APIAddr = ''127.0.0.1:9090'', MetricsAddr = '':2112'', PathPolicy = ''balanced'',
      CacheMaxBytes = 128 * 1024 * 1024, ChunkSizeBytes = 256 * 1024, EnableErasure = False,
      DataShards = 4, ParityShards = 2, AdaptiveChunking = False, MinChunkSize = 64 * 1024,
      MaxChunkSize = 1024 * 1024, PathEpsilon = 1 / 10, DisableBloomExchange = False,
      ProbeInterval = 10 * Second, ProbeTimeout = 3 * Second, LogLevel = ''info''\<rparr>"

section \<open>State\<close>

record Node =
  Cfg :: Config
  Host :: "peer_id option"
  PathManager :: "Manager option"
  ContentStore :: "Store option"
  ContentRouter :: bool
  BlockCache :: "LRUCache option"
  node_Tracker :: "ReplicationTracker option"
  PeerBlooms :: "PeerBloomStore option"
  mdns :: bool
  cancel :: bool
  Disk :: file_system

definition New :: "Config \<Rightarrow> file_system \<Rightarrow> Node" where
  "New cfg fs = \<lparr>Cfg = cfg, Host = None, PathManager = None, ContentStore = None, ContentRouter = False,
     BlockCache = None, node_Tracker = None, PeerBlooms = None, mdns = False, cancel = False, Disk = fs\<rparr>"

text \<open>What \<^verbatim>\<open>Start\<close> meets: the operating system, libp2p and its libraries, and the decoder of the pin file.\<close>

record start_env =
  se_host :: host_env
  se_os :: os
  se_unmarshal :: "bytes \<Rightarrow> cid list option"
  se_addrs :: addr_lib
  se_dht :: dht_env
  se_mdns :: bool

datatype start_error =
    CreateHost host_error | CreateStore store_error | ParseBootstrap bootstrap_error | StartDHT dht_error | CreateManager string

definition host_config :: "Config \<Rightarrow> HostConfig" where
  "host_config cfg = \<lparr>hc_ListenAddrs = ListenAddrs cfg, hc_DataDir = DataDir cfg, hc_EnableRelay = EnableRelay cfg,
     ForcePrivate = False, hc_Registry = True\<rparr>"

definition new_cache :: "Config \<Rightarrow> LRUCache" where
  "new_cache cfg = SetMetricsHook (SetPinChecker (NewLRUCache (CacheMaxBytes cfg)) True) \<lparr>OnHit = Some 0, OnMiss = Some 0\<rparr>"

text \<open>
  \<^verbatim>\<open>Start\<close> in the order of the code; an error leaves the fields set so far. The handlers it registers
  are the stream handlers of the protocol theories on this state; failures of the relay service and
  of mDNS are only logged.
\<close>

definition Start :: "start_env \<Rightarrow> Node \<Rightarrow> start_error option \<times> Node" where
  "Start env n =
     (case NewHost (se_host env) (se_os env) (host_config (Cfg n)) (Disk n) of
        (Inl e, fs) \<Rightarrow> (Some (CreateHost e), n\<lparr>cancel := True, Disk := fs\<rparr>)
      | (Inr self, fs) \<Rightarrow>
          (let n1 = n\<lparr>cancel := True, Host := Some self, Disk := fs\<rparr> in
           case NewStore (se_unmarshal env) (se_os env) (DataDir (Cfg n)) fs of
             Inl e \<Rightarrow> (Some (CreateStore e), n1)
           | Inr store \<Rightarrow>
               (let n2 = n1\<lparr>ContentStore := Some store, BlockCache := Some (new_cache (Cfg n)),
                            node_Tracker := Some (NewReplicationTracker 5), PeerBlooms := Some NewPeerBloomStore\<rparr>
                in case (if BootstrapPeers (Cfg n) \<noteq> [] then ParseBootstrapPeers (se_addrs env) (BootstrapPeers (Cfg n)) else Inr []) of
                     Inl e \<Rightarrow> (Some (ParseBootstrap e), n2)
                   | Inr bootstrapPeers \<Rightarrow>
                       (case SetupDHT (se_dht env) bootstrapPeers of
                          Inl e \<Rightarrow> (Some (StartDHT e), n2)
                        | Inr conns \<Rightarrow>
                            (let n3 = n2\<lparr>ContentRouter := True, mdns := (EnableMDNS (Cfg n) \<and> se_mdns env)\<rparr> in
                             case NewManager self (PathPolicy (Cfg n)) (PathEpsilon (Cfg n)) of
                               Inl e \<Rightarrow> (Some (CreateManager e), n3)
                             | Inr pm \<Rightarrow> (None, n3\<lparr>PathManager := Some pm\<rparr>))))))"

lemma new_cache_fresh: "lru_wf (new_cache cfg)" "lru_lookup (new_cache cfg) k = None"
proof -
  show "lru_wf (new_cache cfg)" unfolding new_cache_def by (intro wf_intros)
  show "lru_lookup (new_cache cfg) k = None"
    by (simp add: new_cache_def lru_lookup_def SetMetricsHook_def SetPinChecker_def NewLRUCache_def)
qed

lemma Start_fields:
  assumes "Start se (New cfg fs) = (None, n)"
  obtains st self fs' where "NewHost (se_host se) (se_os se) (host_config cfg) fs = (Inr self, fs')"
    "NewStore (se_unmarshal se) (se_os se) (DataDir cfg) fs' = Inr st" "store_at (DataDir cfg) st"
    "ContentStore n = Some st" "BlockCache n = Some (new_cache cfg)" "Disk n = fs'" "Cfg n = cfg" "Host n = Some self"
proof -
  obtain r fs' where h: "NewHost (se_host se) (se_os se) (host_config cfg) fs = (r, fs')" by fastforce
  with assms obtain self where self: "r = Inr self" by (cases r) (simp_all add: Start_def New_def)
  from assms h self obtain st where st: "NewStore (se_unmarshal se) (se_os se) (DataDir cfg) fs' = Inr st"
    by (cases "NewStore (se_unmarshal se) (se_os se) (DataDir cfg) fs'") (simp_all add: Start_def New_def Let_def)
  show thesis using assms h self st
    by (intro that [OF _ st store_at_NewStore [OF st]])
      (auto simp: Start_def New_def Let_def split: sum.splits if_splits)
qed

section \<open>Shutdown\<close>

text \<open>
  \<^verbatim>\<open>Stop\<close> closes the handles the node holds, in order, and returns the error of the host alone
  (\<open>close_ok\<close>). The DHT and the content router are set together.
\<close>

datatype stop_action = StopPathManager | CloseMDNS | CancelContext | CloseDHT | CloseHost

definition Stop :: "bool \<Rightarrow> Node \<Rightarrow> bool \<times> stop_action list" where
  "Stop close_ok n =
     (Host n = None \<or> close_ok,
      (if PathManager n \<noteq> None then [StopPathManager] else []) @ (if mdns n then [CloseMDNS] else [])
      @ (if cancel n then [CancelContext] else []) @ (if ContentRouter n then [CloseDHT] else [])
      @ (if Host n \<noteq> None then [CloseHost] else []))"

text \<open>
  However far \<^verbatim>\<open>Start\<close> got, \<^verbatim>\<open>Stop\<close> closes what it opened: always the context, the host exactly when one
  was made and after everything else.
\<close>

lemma Stop_after_Start:
  assumes "Start se (New cfg fs) = (e, n)"
  shows "CancelContext \<in> set (snd (Stop ok n))" and "distinct (snd (Stop ok n))"
    and "case e of Some (CreateHost _) \<Rightarrow> snd (Stop ok n) = [CancelContext] | _ \<Rightarrow> last (snd (Stop ok n)) = CloseHost"
    and "e = None \<Longrightarrow> {StopPathManager, CancelContext, CloseDHT, CloseHost} \<subseteq> set (snd (Stop ok n))"
  using assms by (auto simp: Start_def New_def Stop_def Let_def split: sum.splits if_splits prod.splits option.splits)

section \<open>Replication of popular blocks\<close>

type_synonym 'w dialer = "'w \<Rightarrow> peer_id \<Rightarrow> bytes \<Rightarrow> bytes option \<times> 'w"

definition push :: "'w dialer \<Rightarrow> 'w \<Rightarrow> peer_id \<Rightarrow> Block \<Rightarrow> (push_error + unit) \<times> 'w" where
  "push dial w p b = (PushBlock (\<lambda>req. fst (dial w p req)) b, snd (dial w p (push_request b)))"

text \<open>
  A failed push is logged with the first eight characters of the peer and of the block's identifier;
  slicing a shorter string panics.
\<close>

fun push_to_peers ::
  "'w dialer \<Rightarrow> peer_id \<Rightarrow> cid \<Rightarrow> Block \<Rightarrow> peer_id list \<Rightarrow> nat \<Rightarrow> 'w \<Rightarrow> go_panic + nat \<times> 'w" where
  "push_to_peers dial self cid block [] replicated w = Inr (replicated, w)"
| "push_to_peers dial self cid block (p # ps) replicated w =
     (if p = self then push_to_peers dial self cid block ps replicated w
      else case push dial w p block of
        (Inl err, w') \<Rightarrow>
          (if length p < 8 \<or> length cid < 8 then Inl IndexOutOfRange
           else push_to_peers dial self cid block ps replicated w')
      | (Inr _, w') \<Rightarrow> push_to_peers dial self cid block ps (replicated + 1) w')"

fun replicate_whole ::
  "'w dialer \<Rightarrow> os \<Rightarrow> Store \<Rightarrow> file_system \<Rightarrow> peer_id \<Rightarrow> peer_id list \<Rightarrow> cid list \<Rightarrow> nat \<Rightarrow> 'w \<Rightarrow> go_panic + nat \<times> 'w" where
  "replicate_whole dial os st fs self peers [] replicated w = Inr (replicated, w)"
| "replicate_whole dial os st fs self peers (cid # cids) replicated w =
     (case Store_Get os st cid fs of
        Inl err \<Rightarrow> replicate_whole dial os st fs self peers cids replicated w
      | Inr block \<Rightarrow>
          (case push_to_peers dial self cid block peers replicated w of
             Inl e \<Rightarrow> Inl e
           | Inr (replicated', w') \<Rightarrow> replicate_whole dial os st fs self peers cids replicated' w'))"

fun put_fragments :: "os \<Rightarrow> Store \<Rightarrow> cid \<Rightarrow> Fragment list \<Rightarrow> file_system \<Rightarrow> go_panic + file_system" where
  "put_fragments os st cid [] fs = Inr fs"
| "put_fragments os st cid (f # fs') fs =
     (case PutFragment os st cid (Index f) (f_Data f) fs of
        (Some err, fs1) \<Rightarrow> (if length cid < 8 then Inl IndexOutOfRange else put_fragments os st cid fs' fs1)
      | (None, fs1) \<Rightarrow> put_fragments os st cid fs' fs1)"

fun push_fragments ::
  "'w dialer \<Rightarrow> peer_id list \<Rightarrow> nat \<Rightarrow> Fragment list \<Rightarrow> nat \<Rightarrow> 'w \<Rightarrow> go_panic + nat \<times> 'w" where
  "push_fragments dial eligible i [] replicated w = Inr (replicated, w)"
| "push_fragments dial eligible i (f # fs) replicated w =
     (let target = eligible ! (i mod length eligible)
      in case push dial w target \<lparr>CID = f_CID f, Data = f_Data f\<rparr> of
           (Inl err, w') \<Rightarrow>
             (if length target < 8 then Inl IndexOutOfRange else push_fragments dial eligible (Suc i) fs replicated w')
         | (Inr _, w') \<Rightarrow> push_fragments dial eligible (Suc i) fs (replicated + 1) w')"

fun replicateWithErasure ::
  "'w dialer \<Rightarrow> reedsolomon \<Rightarrow> os \<Rightarrow> Store \<Rightarrow> peer_id \<Rightarrow> int \<Rightarrow> int \<Rightarrow> peer_id list \<Rightarrow> cid list \<Rightarrow>
     nat \<Rightarrow> file_system \<Rightarrow> 'w \<Rightarrow> go_panic + nat \<times> file_system \<times> 'w" where
  "replicateWithErasure dial rs os st self k m peers [] replicated fs w = Inr (replicated, fs, w)"
| "replicateWithErasure dial rs os st self k m peers (cid # cids) replicated fs w =
     (let skip = replicateWithErasure dial rs os st self k m peers cids in
      case Store_Get os st cid fs of
        Inl err \<Rightarrow> skip replicated fs w
      | Inr block \<Rightarrow>
          (case Encode rs (Data block) cid k m of
             Inl err \<Rightarrow> (if length cid < 8 then Inl IndexOutOfRange else skip replicated fs w)
           | Inr fragments \<Rightarrow>
               (case put_fragments os st cid fragments fs of
                  Inl e \<Rightarrow> Inl e
                | Inr fs' \<Rightarrow>
                    (let eligible = filter (\<lambda>p. p \<noteq> self) peers in
                     if eligible = [] then skip replicated fs' w
                     else case push_fragments dial eligible 0 fragments replicated w of
                       Inl e \<Rightarrow> Inl e
                     | Inr (replicated', w') \<Rightarrow> skip replicated' fs' w'))))"

definition erasure_shards :: "Config \<Rightarrow> int \<times> int" where
  "erasure_shards cfg = (if DataShards cfg \<le> 0 then 4 else DataShards cfg, if ParityShards cfg \<le> 0 then 2 else ParityShards cfg)"

definition replicatePopularBlocks ::
  "'w dialer \<Rightarrow> reedsolomon \<Rightarrow> cid list \<Rightarrow> os \<Rightarrow> peer_id list \<Rightarrow> Node \<Rightarrow> 'w \<Rightarrow> go_panic + nat \<times> Node \<times> 'w" where
  "replicatePopularBlocks dial rs iter os peers n w =
     (case node_Tracker n of
        None \<Rightarrow> Inl NilDereference
      | Some rt \<Rightarrow>
          (let popular = PopularBlocks iter rt in
           if popular = [] \<or> peers = [] then Inr (0, n, w)
           else case (Host n, ContentStore n) of
             (Some self, Some st) \<Rightarrow>
               (if EnableErasure (Cfg n) then
                  (case erasure_shards (Cfg n) of (k, m) \<Rightarrow>
                     (case replicateWithErasure dial rs os st self k m peers popular 0 (Disk n) w of
                        Inl e \<Rightarrow> Inl e
                      | Inr (replicated, fs', w') \<Rightarrow> Inr (replicated, n\<lparr>Disk := fs'\<rparr>, w')))
                else case replicate_whole dial os st (Disk n) self peers popular 0 w of
                       Inl e \<Rightarrow> Inl e
                     | Inr (replicated, w') \<Rightarrow> Inr (replicated, n, w'))
           | _ \<Rightarrow> Inl NilDereference))"

section \<open>A network of nodes\<close>

text \<open>
  The handlers of a started node, and a network whose peers are nodes. A handler that does not
  return (a cache full of pinned blocks) leaves the client without an answer.
\<close>

definition node_push :: "os \<Rightarrow> Node \<Rightarrow> bytes \<Rightarrow> (bytes \<times> Node) option" where
  "node_push os n req =
     (case ContentStore n of
        None \<Rightarrow> None
      | Some st \<Rightarrow>
          map_option (\<lambda>(resp, c, fs). (resp, n\<lparr>BlockCache := c, Disk := fs\<rparr>))
            (BlockPush_handleStream os st (Store_IsPinned st) (BlockCache n) (Disk n) req))"

definition node_serve :: "os \<Rightarrow> Node \<Rightarrow> bytes \<Rightarrow> (bytes \<times> Node) option" where
  "node_serve os n req =
     (case ContentStore n of
        None \<Rightarrow> None
      | Some st \<Rightarrow>
          map_option (\<lambda>(resp, c). (resp, n\<lparr>BlockCache := c\<rparr>))
            (BlockTransfer_handleStream os st (Store_IsPinned st) (BlockCache n) (Disk n) req))"

definition dial_push :: "os \<Rightarrow> (peer_id \<Rightarrow> Node option) dialer" where
  "dial_push os net p req =
     (case net p of
        None \<Rightarrow> (None, net)
      | Some n \<Rightarrow> (case node_push os n req of
            None \<Rightarrow> (None, net)
          | Some (resp, n') \<Rightarrow> (Some resp, net(p \<mapsto> n'))))"

text \<open>The blocks of \<open>cids\<close> that the store returns.\<close>

definition local_blocks :: "os \<Rightarrow> Store \<Rightarrow> file_system \<Rightarrow> cid list \<Rightarrow> Block list" where
  "local_blocks os st fs cids = concat (map (\<lambda>k. case Store_Get os st k fs of Inl _ \<Rightarrow> [] | Inr b \<Rightarrow> [b]) cids)"

text \<open>The fragments of a block the store returns.\<close>

definition block_fragments :: "reedsolomon \<Rightarrow> os \<Rightarrow> Store \<Rightarrow> int \<Rightarrow> int \<Rightarrow> file_system \<Rightarrow> cid \<Rightarrow> Fragment list" where
  "block_fragments rs os st k m fs cid =
     (case Store_Get os st cid fs of
        Inl _ \<Rightarrow> []
      | Inr b \<Rightarrow> (case Encode rs (Data b) cid k m of Inl _ \<Rightarrow> [] | Inr frs \<Rightarrow> frs))"

lemma block_not_fragment: "slash_free k \<Longrightarrow> blockPath s k \<noteq> fragPath s parent i"
  using last_neq [of "''.block''" "''.frag''"]
  by (simp add: blockPath_plain fragPath_def path_Join_plain frag_name_plain flip: append_assoc)

lemma Store_Get_cong:
  "store_lookup st fs' k = store_lookup st fs k \<Longrightarrow> Store_Get os st k fs' = Store_Get os st k fs"
  by (simp add: Store_Get_def os_ReadFile_def store_lookup_def)

lemma put_fragments_blocks:
  assumes "8 \<le> length cid"
  shows "\<exists>fs'. put_fragments os st cid frs fs = Inr fs' \<and> (\<forall>k. slash_free k \<longrightarrow> store_lookup st fs' k = store_lookup st fs k)"
proof (induction frs arbitrary: fs)
  case (Cons f frs)
  obtain err fs1 where p: "PutFragment os st cid (Index f) (f_Data f) fs = (err, fs1)" by fastforce
  then have "fs1 q = fs q" if "q \<noteq> fragPath st cid (Index f)" for q
    using that by (auto simp: PutFragment_def os_WriteFile_def split: if_splits write_outcome.splits)
  then have same: "store_lookup st fs1 k = store_lookup st fs k" if "slash_free k" for k
    using block_not_fragment [OF that] by (simp add: store_lookup_def)
  from Cons.IH [of fs1] obtain fs' where "put_fragments os st cid frs fs1 = Inr fs'"
      "\<forall>k. slash_free k \<longrightarrow> store_lookup st fs' k = store_lookup st fs1 k" by blast
  with p same assms show ?case by (cases err) auto
qed simp

section \<open>What replication relies on in the network\<close>

text \<open>
  \<open>live w p\<close>: peer \<open>p\<close> answers and its disk accepts blocks; \<open>holds w p k d\<close>: it has \<open>d\<close> under the key
  \<open>k\<close>. Pushing an acceptable block to a live peer succeeds and makes the peer hold it; a push takes
  nothing away but what it overwrites.
\<close>

locale push_network =
  fixes dial :: "'w dialer"
    and live :: "'w \<Rightarrow> peer_id \<Rightarrow> bool"
    and holds :: "'w \<Rightarrow> peer_id \<Rightarrow> cid \<Rightarrow> bytes \<Rightarrow> bool"
    and ok :: "Block \<Rightarrow> bool"
  assumes push_ok: "live w p \<Longrightarrow> ok b \<Longrightarrow> fst (push dial w p b) = Inr ()"
    and push_holds: "live w p \<Longrightarrow> ok b \<Longrightarrow> holds (snd (push dial w p b)) p (CID b) (Data b)"
    and push_keeps: "live w p \<Longrightarrow> ok b \<Longrightarrow> holds w q k d \<Longrightarrow> (k = CID b \<longrightarrow> d = Data b) \<Longrightarrow>
      holds (snd (push dial w p b)) q k d"
    and push_live: "live w p \<Longrightarrow> ok b \<Longrightarrow> live w q \<Longrightarrow> live (snd (push dial w p b)) q"
begin

lemma push_cases:
  assumes "live w p" and "ok b"
  obtains w' where "push dial w p b = (Inr (), w')" "holds w' p (CID b) (Data b)" "\<And>q. live w q \<Longrightarrow> live w' q"
    "\<And>q k d. holds w q k d \<Longrightarrow> (k = CID b \<longrightarrow> d = Data b) \<Longrightarrow> holds w' q k d"
  using that [of "snd (push dial w p b)"] push_ok [OF assms] push_holds [OF assms] push_keeps [OF assms] push_live [OF assms]
  by (cases "push dial w p b") simp

lemma push_to_peers_spec:
  assumes "\<forall>p\<in>set ps. p \<noteq> self \<longrightarrow> live w p" and "ok b"
  shows "\<exists>w'. push_to_peers dial self cid b ps n w = Inr (n + tally (\<lambda>p. p \<noteq> self) ps, w')
    \<and> (\<forall>q. live w q \<longrightarrow> live w' q) \<and> (\<forall>p\<in>set ps. p \<noteq> self \<longrightarrow> holds w' p (CID b) (Data b))
    \<and> (\<forall>q k d. holds w q k d \<longrightarrow> (k = CID b \<longrightarrow> d = Data b) \<longrightarrow> holds w' q k d)"
  using assms(1)
proof (induction ps arbitrary: n w)
  case (Cons p ps)
  show ?case
  proof (cases "p = self")
    case True
    with Cons show ?thesis by (simp add: tally_def)
  next
    case False
    then have l: "live w p" using Cons.prems by simp
    obtain w1 where w1: "push dial w p b = (Inr (), w1)" "holds w1 p (CID b) (Data b)" "\<And>q. live w q \<Longrightarrow> live w1 q"
        "\<And>q k d. holds w q k d \<Longrightarrow> (k = CID b \<longrightarrow> d = Data b) \<Longrightarrow> holds w1 q k d"
      using push_cases [OF l assms(2)] by blast
    have "\<forall>p\<in>set ps. p \<noteq> self \<longrightarrow> live w1 p" using Cons.prems w1(3) by simp
    from Cons.IH [OF this, of "n + 1"] obtain w' where
      w': "push_to_peers dial self cid b ps (n + 1) w1 = Inr (n + 1 + tally (\<lambda>p. p \<noteq> self) ps, w')"
        "\<And>q. live w1 q \<Longrightarrow> live w' q" "\<forall>p\<in>set ps. p \<noteq> self \<longrightarrow> holds w' p (CID b) (Data b)"
        "\<And>q k d. holds w1 q k d \<Longrightarrow> (k = CID b \<longrightarrow> d = Data b) \<Longrightarrow> holds w' q k d" by blast
    have "push_to_peers dial self cid b (p # ps) n w = push_to_peers dial self cid b ps (n + 1) w1"
      using False w1(1) by simp
    moreover have "holds w' p (CID b) (Data b)" using w1(2) w'(4) by simp
    ultimately show ?thesis
      using w' False w1(3,4) by (intro exI [of _ w']) (auto simp: tally_def)
  qed
qed (simp add: tally_def)

lemma replicate_whole_spec:
  assumes "\<forall>p\<in>set peers. p \<noteq> self \<longrightarrow> live w p" and "\<forall>b\<in>set (local_blocks os st fs cids). ok b"
  shows "\<exists>w'. replicate_whole dial os st fs self peers cids n w
      = Inr (n + length (local_blocks os st fs cids) * tally (\<lambda>p. p \<noteq> self) peers, w')
    \<and> (\<forall>p\<in>set peers. p \<noteq> self \<longrightarrow> (\<forall>b\<in>set (local_blocks os st fs cids). holds w' p (CID b) (Data b)))
    \<and> (\<forall>q k d. holds w q k d \<longrightarrow> (\<forall>b\<in>set (local_blocks os st fs cids). k = CID b \<longrightarrow> d = Data b) \<longrightarrow> holds w' q k d)"
  using assms
proof (induction cids arbitrary: n w)
  case (Cons cid cids)
  show ?case
  proof (cases "Store_Get os st cid fs")
    case (Inl e)
    with Cons show ?thesis by (simp add: local_blocks_def)
  next
    case (Inr b)
    then have blocks: "local_blocks os st fs (cid # cids) = b # local_blocks os st fs cids"
      by (simp add: local_blocks_def)
    have b: "ok b" "CID b = cid" using Cons.prems(2) Store_Get_SomeD [OF Inr] by (simp_all add: blocks)
    have same: "c = b" if "c \<in> set (local_blocks os st fs cids)" "CID c = cid" for c
    proof -
      from that(1) obtain k where k: "Store_Get os st k fs = Inr c" by (auto simp: local_blocks_def split: sum.splits)
      with Store_Get_SomeD [OF k] that(2) Inr show ?thesis by simp
    qed
    obtain w1 where w1: "push_to_peers dial self cid b peers n w = Inr (n + tally (\<lambda>p. p \<noteq> self) peers, w1)"
        "\<And>q. live w q \<Longrightarrow> live w1 q" "\<forall>p\<in>set peers. p \<noteq> self \<longrightarrow> holds w1 p (CID b) (Data b)"
        "\<And>q k d. holds w q k d \<Longrightarrow> (k = CID b \<longrightarrow> d = Data b) \<Longrightarrow> holds w1 q k d"
      using push_to_peers_spec [OF Cons.prems(1) b(1)] by blast
    have "\<forall>p\<in>set peers. p \<noteq> self \<longrightarrow> live w1 p" "\<forall>b\<in>set (local_blocks os st fs cids). ok b"
      using Cons.prems w1(2) by (auto simp: blocks)
    from Cons.IH [OF this, of "n + tally (\<lambda>p. p \<noteq> self) peers"] obtain w2 where
      w2: "replicate_whole dial os st fs self peers cids (n + tally (\<lambda>p. p \<noteq> self) peers) w1
         = Inr (n + tally (\<lambda>p. p \<noteq> self) peers + length (local_blocks os st fs cids) * tally (\<lambda>p. p \<noteq> self) peers, w2)"
        "\<forall>p\<in>set peers. p \<noteq> self \<longrightarrow> (\<forall>b\<in>set (local_blocks os st fs cids). holds w2 p (CID b) (Data b))"
        "\<And>q k d. holds w1 q k d \<Longrightarrow> (\<forall>b\<in>set (local_blocks os st fs cids). k = CID b \<longrightarrow> d = Data b) \<Longrightarrow> holds w2 q k d"
      by blast
    have "\<forall>p\<in>set peers. p \<noteq> self \<longrightarrow> holds w2 p (CID b) (Data b)" 
    proof (intro ballI impI)
      fix p assume "p \<in> set peers" "p \<noteq> self"
      then show "holds w2 p (CID b) (Data b)" using w1(3) same b(2) by (intro w2(3)) auto
    qed
    then have held: "\<forall>p\<in>set peers. p \<noteq> self \<longrightarrow> (\<forall>b\<in>set (local_blocks os st fs (cid # cids)). holds w2 p (CID b) (Data b))"
      using w2(2) by (simp add: blocks)
    have kept: "holds w2 q k d" if "holds w q k d" "\<forall>b\<in>set (local_blocks os st fs (cid # cids)). k = CID b \<longrightarrow> d = Data b"
      for q k d
      using w2(3) [OF w1(4) [OF that(1)]] that(2) by (simp add: blocks)
    have "replicate_whole dial os st fs self peers (cid # cids) n w
        = Inr (n + length (local_blocks os st fs (cid # cids)) * tally (\<lambda>p. p \<noteq> self) peers, w2)"
      using Inr w1(1) w2(1) by (simp add: blocks add.assoc)
    with held kept show ?thesis by blast
  qed
qed (simp add: local_blocks_def)

lemma push_fragments_spec:
  assumes "eligible \<noteq> []" and "\<forall>p\<in>set eligible. live w p"
    and "\<forall>f\<in>set fs. ok \<lparr>CID = f_CID f, Data = f_Data f\<rparr>"
    and "\<forall>f\<in>set fs. \<forall>g\<in>set fs. f_CID f = f_CID g \<longrightarrow> f_Data f = f_Data g"
  shows "\<exists>w'. push_fragments dial eligible i fs n w = Inr (n + length fs, w') \<and> (\<forall>q. live w q \<longrightarrow> live w' q)
    \<and> (\<forall>j<length fs. holds w' (eligible ! ((i + j) mod length eligible)) (f_CID (fs ! j)) (f_Data (fs ! j)))
    \<and> (\<forall>q k d. holds w q k d \<longrightarrow> (\<forall>f\<in>set fs. k = f_CID f \<longrightarrow> d = f_Data f) \<longrightarrow> holds w' q k d)"
  using assms(2-4)
proof (induction fs arbitrary: i n w)
  case (Cons f fs)
  let ?t = "eligible ! (i mod length eligible)" and ?b = "\<lparr>CID = f_CID f, Data = f_Data f\<rparr>"
  have l: "live w ?t" using Cons.prems(1) assms(1) by simp
  have ok: "ok ?b" using Cons.prems(2) by simp
  obtain w1 where w1: "push dial w ?t ?b = (Inr (), w1)" "holds w1 ?t (f_CID f) (f_Data f)" "\<And>q. live w q \<Longrightarrow> live w1 q"
      "\<And>q k d. holds w q k d \<Longrightarrow> (k = f_CID f \<longrightarrow> d = f_Data f) \<Longrightarrow> holds w1 q k d"
    using push_cases [OF l ok] by (metis Block.select_convs(1,2))
  have "\<forall>p\<in>set eligible. live w1 p" "\<forall>f\<in>set fs. ok \<lparr>CID = f_CID f, Data = f_Data f\<rparr>"
      "\<forall>f\<in>set fs. \<forall>g\<in>set fs. f_CID f = f_CID g \<longrightarrow> f_Data f = f_Data g"
    using Cons.prems(1,2) w1(3) by (simp, simp, use Cons.prems(3) in \<open>meson list.set_intros(2)\<close>)
  from Cons.IH [OF this, of "Suc i" "n + 1"] obtain w' where
    w': "push_fragments dial eligible (Suc i) fs (n + 1) w1 = Inr (n + 1 + length fs, w')" "\<And>q. live w1 q \<Longrightarrow> live w' q"
      "\<And>j. j < length fs \<Longrightarrow> holds w' (eligible ! ((Suc i + j) mod length eligible)) (f_CID (fs ! j)) (f_Data (fs ! j))"
      "\<And>q k d. holds w1 q k d \<Longrightarrow> (\<forall>f\<in>set fs. k = f_CID f \<longrightarrow> d = f_Data f) \<Longrightarrow> holds w' q k d"
    by blast
  have st: "push_fragments dial eligible i (f # fs) n w = push_fragments dial eligible (Suc i) fs (n + 1) w1"
    using w1(1) by (simp add: Let_def)
  have first: "holds w' ?t (f_CID f) (f_Data f)"
  proof (rule w'(4) [OF w1(2)], intro ballI impI)
    fix g assume "g \<in> set fs" "f_CID f = f_CID g"
    then show "f_Data f = f_Data g" using Cons.prems(3) by (meson list.set_intros)
  qed
  have all: "holds w' (eligible ! ((i + j) mod length eligible)) (f_CID ((f # fs) ! j)) (f_Data ((f # fs) ! j))"
    if "j < length (f # fs)" for j
    using that first w'(3) [of "j - 1"] by (cases j) auto
  have keep: "holds w' q k d" if "holds w q k d" "\<forall>g\<in>set (f # fs). k = f_CID g \<longrightarrow> d = f_Data g" for q k d
    using that w1(4) by (intro w'(4)) auto
  have "push_fragments dial eligible i (f # fs) n w = Inr (n + length (f # fs), w')" using st w'(1) by simp
  moreover have "\<forall>q. live w q \<longrightarrow> live w' q" using w'(2) w1(3) by blast
  ultimately show ?case using all keep by blast
next
  case Nil
  show ?case by (rule exI [of _ w]) simp
qed

lemma replicateWithErasure_step:
  assumes "eligible = filter (\<lambda>p. p \<noteq> self) peers" and "eligible \<noteq> []" and "\<forall>p\<in>set eligible. live w p"
    and "8 \<le> length c" and F: "F = block_fragments rs os st k m fs c"
    and "\<forall>f\<in>set F. ok \<lparr>CID = f_CID f, Data = f_Data f\<rparr>"
    and "\<forall>f\<in>set F. \<forall>g\<in>set F. f_CID f = f_CID g \<longrightarrow> f_Data f = f_Data g"
  shows "\<exists>fs1 w1. replicateWithErasure dial rs os st self k m peers (c # cids) n fs w
        = replicateWithErasure dial rs os st self k m peers cids (n + length F) fs1 w1
      \<and> (\<forall>q. live w q \<longrightarrow> live w1 q) \<and> (\<forall>k. slash_free k \<longrightarrow> store_lookup st fs1 k = store_lookup st fs k)
      \<and> (\<forall>j<length F. holds w1 (eligible ! (j mod length eligible)) (f_CID (F ! j)) (f_Data (F ! j)))
      \<and> (\<forall>q key d. holds w q key d \<longrightarrow> (\<forall>f\<in>set F. key = f_CID f \<longrightarrow> d = f_Data f) \<longrightarrow> holds w1 q key d)"
proof (cases "\<exists>b frs. Store_Get os st c fs = Inr b \<and> Encode rs (Data b) c k m = Inr frs")
  case False
  then have "F = []" by (auto simp: F block_fragments_def split: sum.splits)
  with False assms(4) show ?thesis by (intro exI [of _ fs] exI [of _ w]) (auto simp: Let_def split: sum.splits)
next
  case True
  then obtain b where b: "Store_Get os st c fs = Inr b" "Encode rs (Data b) c k m = Inr F"
    by (auto simp: F block_fragments_def)
  obtain fs1 where fs1: "put_fragments os st c F fs = Inr fs1"
      "\<forall>k. slash_free k \<longrightarrow> store_lookup st fs1 k = store_lookup st fs k" using put_fragments_blocks [OF assms(4)] by blast
  from push_fragments_spec [OF assms(2,3,6,7), of 0 n] obtain w1 where
    w1: "push_fragments dial eligible 0 F n w = Inr (n + length F, w1)" "\<forall>q. live w q \<longrightarrow> live w1 q"
      "\<forall>j<length F. holds w1 (eligible ! (j mod length eligible)) (f_CID (F ! j)) (f_Data (F ! j))"
      "\<forall>q k d. holds w q k d \<longrightarrow> (\<forall>f\<in>set F. k = f_CID f \<longrightarrow> d = f_Data f) \<longrightarrow> holds w1 q k d"
    by auto
  have "replicateWithErasure dial rs os st self k m peers (c # cids) n fs w
      = replicateWithErasure dial rs os st self k m peers cids (n + length F) fs1 w1"
    using b fs1(1) w1(1) assms(1,2) by (simp add: Let_def)
  with w1(2-4) fs1(2) show ?thesis by blast
qed

text \<open>Distribution of the fragments \<open>F\<close> of all blocks in \<open>cids\<close>, round robin over the eligible peers.\<close>

lemma replicateWithErasure_spec:
  assumes "eligible = filter (\<lambda>p. p \<noteq> self) peers" and "eligible \<noteq> []" and "\<forall>p\<in>set eligible. live w p"
    and "\<forall>c\<in>set cids. slash_free c \<and> 8 \<le> length c" and "\<forall>c\<in>set cids. F c = block_fragments rs os st k m fs c"
    and ok: "\<forall>c\<in>C. \<forall>f\<in>set (F c). ok \<lparr>CID = f_CID f, Data = f_Data f\<rparr>"
    and uniq: "\<And>c c' f g. c \<in> C \<Longrightarrow> c' \<in> C \<Longrightarrow> f \<in> set (F c) \<Longrightarrow> g \<in> set (F c') \<Longrightarrow> f_CID f = f_CID g \<Longrightarrow> f_Data f = f_Data g"
    and "set cids \<subseteq> C"
  shows "\<exists>fs' w'. replicateWithErasure dial rs os st self k m peers cids n fs w
        = Inr (n + (\<Sum>c\<leftarrow>cids. length (F c)), fs', w')
    \<and> (\<forall>c. slash_free c \<longrightarrow> store_lookup st fs' c = store_lookup st fs c)
    \<and> (\<forall>c\<in>set cids. \<forall>j<length (F c). holds w' (eligible ! (j mod length eligible)) (f_CID (F c ! j)) (f_Data (F c ! j)))
    \<and> (\<forall>q key d. holds w q key d \<longrightarrow> (\<forall>c\<in>set cids. \<forall>f\<in>set (F c). key = f_CID f \<longrightarrow> d = f_Data f) \<longrightarrow> holds w' q key d)"
  using assms(3-5,8)
proof (induction cids arbitrary: n fs w)
  case (Cons c cids)
  have c: "8 \<le> length c" "F c = block_fragments rs os st k m fs c" "c \<in> C" "set cids \<subseteq> C" using Cons.prems(2-4) by simp_all
  have okc: "\<forall>f\<in>set (F c). ok \<lparr>CID = f_CID f, Data = f_Data f\<rparr>" using ok c(3) by blast
  have uc: "\<forall>f\<in>set (F c). \<forall>g\<in>set (F c). f_CID f = f_CID g \<longrightarrow> f_Data f = f_Data g" using uniq c(3) by blast
  from replicateWithErasure_step [OF assms(1,2) Cons.prems(1) c(1,2) okc uc, of cids n]
  obtain fs1 w1 where s1: "replicateWithErasure dial rs os st self k m peers (c # cids) n fs w
        = replicateWithErasure dial rs os st self k m peers cids (n + length (F c)) fs1 w1"
      "\<And>q. live w q \<Longrightarrow> live w1 q" "\<And>k. slash_free k \<Longrightarrow> store_lookup st fs1 k = store_lookup st fs k"
      "\<And>j. j < length (F c) \<Longrightarrow> holds w1 (eligible ! (j mod length eligible)) (f_CID (F c ! j)) (f_Data (F c ! j))"
      "\<And>q key d. holds w q key d \<Longrightarrow> (\<forall>f\<in>set (F c). key = f_CID f \<longrightarrow> d = f_Data f) \<Longrightarrow> holds w1 q key d"
    by blast
  have F1: "\<forall>c'\<in>set cids. F c' = block_fragments rs os st k m fs1 c'"
  proof
    fix c' assume c': "c' \<in> set cids"
    then have "slash_free c'" using Cons.prems(2) by simp
    from Store_Get_cong [OF s1(3) [OF this]] have "block_fragments rs os st k m fs1 c' = block_fragments rs os st k m fs c'"
      by (simp only: block_fragments_def)
    with Cons.prems(3) c' show "F c' = block_fragments rs os st k m fs1 c'" by simp
  qed
  have live1: "\<forall>p\<in>set eligible. live w1 p" using Cons.prems(1) s1(2) by blast
  have sf: "\<forall>c\<in>set cids. slash_free c \<and> 8 \<le> length c" using Cons.prems(2) by simp
  from Cons.IH [OF live1 sf F1 c(4), of "n + length (F c)"] obtain fs2 w2 where
    s2: "replicateWithErasure dial rs os st self k m peers cids (n + length (F c)) fs1 w1
        = Inr (n + length (F c) + (\<Sum>c\<leftarrow>cids. length (F c)), fs2, w2)"
      "\<forall>c. slash_free c \<longrightarrow> store_lookup st fs2 c = store_lookup st fs1 c"
      "\<forall>c\<in>set cids. \<forall>j<length (F c). holds w2 (eligible ! (j mod length eligible)) (f_CID (F c ! j)) (f_Data (F c ! j))"
      "\<forall>q key d. holds w1 q key d \<longrightarrow> (\<forall>c\<in>set cids. \<forall>f\<in>set (F c). key = f_CID f \<longrightarrow> d = f_Data f) \<longrightarrow> holds w2 q key d"
    by (elim exE conjE) (rule that)
  have "holds w2 (eligible ! (j mod length eligible)) (f_CID (F c ! j)) (f_Data (F c ! j))" if "j < length (F c)" for j
    using s2(4) s1(4) [OF that] uniq [OF c(3)] nth_mem [OF that] c(4) by blast
  then have held: "\<forall>c'\<in>set (c # cids). \<forall>j<length (F c').
      holds w2 (eligible ! (j mod length eligible)) (f_CID (F c' ! j)) (f_Data (F c' ! j))" using s2(3) by simp
  have kept: "\<forall>q key d. holds w q key d \<longrightarrow> (\<forall>c\<in>set (c # cids). \<forall>f\<in>set (F c). key = f_CID f \<longrightarrow> d = f_Data f) \<longrightarrow> holds w2 q key d"
    using s2(4) s1(5) by (metis list.set_intros)
  have "replicateWithErasure dial rs os st self k m peers (c # cids) n fs w = Inr (n + (\<Sum>c\<leftarrow>c # cids. length (F c)), fs2, w2)"
    using s1(1) s2(1) by simp
  moreover have "\<forall>c. slash_free c \<longrightarrow> store_lookup st fs2 c = store_lookup st fs c" using s2(2) s1(3) by simp
  ultimately show ?case using held kept by blast
next
  case Nil
  show ?case by (intro exI [of _ fs] exI [of _ w]) simp
qed

end

section \<open>A network of nodes as such a network\<close>

definition node_live :: "os \<Rightarrow> (peer_id \<Rightarrow> Node option) \<Rightarrow> peer_id \<Rightarrow> bool" where
  "node_live os net p \<longleftrightarrow> (\<forall>f. os_write os f = WriteOk)
     \<and> (\<exists>n st. net p = Some n \<and> ContentStore n = Some st \<and> cache_ok (BlockCache n) \<and> (\<forall>k. \<not> Store_IsPinned st k))"

definition node_holds :: "(peer_id \<Rightarrow> Node option) \<Rightarrow> peer_id \<Rightarrow> cid \<Rightarrow> bytes \<Rightarrow> bool" where
  "node_holds net p k d \<longleftrightarrow> slash_free k
     \<and> (\<exists>n st. net p = Some n \<and> ContentStore n = Some st \<and> store_lookup st (Disk n) k = Some d)"

definition pushable :: "Block \<Rightarrow> bool" where
  "pushable b \<longleftrightarrow> content_addressed b \<and> length (Data b) \<le> 16 * 1024 * 1024"

lemma cache_put_returns:
  assumes "cache_ok cache" and "\<forall>k. \<not> P k"
  shows "\<exists>cache'. cache_put P cache b = Some cache'"
proof (cases cache)
  case (Some c)
  have "\<exists>c'. LRUCache_Put P c b = Some c'"
  proof (cases "items c (CID b)")
    case None
    have "room_possible P (int (length (Data b))) c" using assms(2) by (simp add: room_possible_def)
    then show ?thesis
      using evict_loop_returns_iff [of c P "int (length (Data b))"] assms(1) Some
      by (auto simp: LRUCache_Put_new [OF None] cache_ok_def)
  next
    case (Some e)
    then show ?thesis by (simp add: LRUCache_Put_old [OF Some])
  qed
  with Some show ?thesis by (auto simp: cache_put_def)
qed (simp add: cache_put_def)

lemma dial_push_live:
  assumes "node_live os net p" and "pushable b"
  obtains n st cache' where "net p = Some n" "ContentStore n = Some st" "cache_ok cache'" "\<forall>k. \<not> Store_IsPinned st k"
    "dial_push os net p (push_request b) = (Some [1], net(p \<mapsto> n\<lparr>BlockCache := cache', Disk := (Disk n)(blockPath st (CID b) \<mapsto> Data b)\<rparr>))"
proof -
  from assms(1) obtain n st where n: "net p = Some n" "ContentStore n = Some st" "cache_ok (BlockCache n)"
      "\<forall>k. \<not> Store_IsPinned st k" "\<forall>f. os_write os f = WriteOk" by (auto simp: node_live_def)
  obtain cache' where c: "cache_put (Store_IsPinned st) (BlockCache n) b = Some cache'"
    using cache_put_returns [OF n(3,4)] by blast
  have "BlockPush_handleStream os st (Store_IsPinned st) (BlockCache n) (Disk n) (push_request b)
      = Some ([1], cache', (Disk n)(blockPath st (CID b) \<mapsto> Data b))"
    using assms(2) c n(5) by (subst push_handler_request) (simp_all add: pushable_def content_addressed_def Store_Put_cases)
  then have "dial_push os net p (push_request b)
      = (Some [1], net(p \<mapsto> n\<lparr>BlockCache := cache', Disk := (Disk n)(blockPath st (CID b) \<mapsto> Data b)\<rparr>))"
    using n by (simp add: dial_push_def node_push_def)
  with that n cache_put_ok [OF n(3) c] show thesis by blast
qed

interpretation nodes: push_network "dial_push os" "node_live os" node_holds pushable for os
proof
  fix net p b assume l: "node_live os net p" and ok: "pushable b"
  obtain n st cache' where d: "net p = Some n" "ContentStore n = Some st" "cache_ok cache'" "\<forall>k. \<not> Store_IsPinned st k"
    "dial_push os net p (push_request b) = (Some [1], net(p \<mapsto> n\<lparr>BlockCache := cache', Disk := (Disk n)(blockPath st (CID b) \<mapsto> Data b)\<rparr>))"
    using dial_push_live [OF l ok] by blast
  have w: "snd (push (dial_push os) net p b) = net(p \<mapsto> n\<lparr>BlockCache := cache', Disk := (Disk n)(blockPath st (CID b) \<mapsto> Data b)\<rparr>)"
    by (simp add: push_def d(5))
  have sf: "slash_free (CID b)" using ok by (simp add: pushable_def content_addressed_def)
  have one: "ReadFull (Suc 0) [1::byte] = Some ([1], [])" by (simp add: ReadFull_def)
  show "fst (push (dial_push os) net p b) = Inr ()" by (simp add: push_def PushBlock_def d(5) one)
  show "node_holds (snd (push (dial_push os) net p b)) p (CID b) (Data b)"
    using d(2) sf by (simp add: w node_holds_def store_lookup_def)
  show "node_holds (snd (push (dial_push os) net p b)) q k dat"
    if "node_holds net q k dat" "k = CID b \<longrightarrow> dat = Data b" for q k dat
    using that d(1,2) sf by (auto simp: w node_holds_def store_lookup_def blockPath_inject)
  show "node_live os (snd (push (dial_push os) net p b)) q" if "node_live os net q" for q
    using that d(1-4) l by (auto simp: w node_live_def)
qed

section \<open>Properties\<close>


definition wit_tracker :: ReplicationTracker where
  "wit_tracker = \<lparr>fetchCount = [ComputeCID [7] \<mapsto> 0], threshold = 5, rt_heap = (\<lambda>_. 5), rt_next = 1\<rparr>"

definition wit_node :: Node where
  "wit_node = (New (DefaultConfig ''h'') [blockPath wit_store (ComputeCID [7]) \<mapsto> [7]])
     \<lparr>Host := Some ''node0000'', ContentStore := Some wit_store, node_Tracker := Some wit_tracker\<rparr>"

definition wit_peers :: "peer_id \<Rightarrow> Node option" where
  "wit_peers = (\<lambda>_. Some (wit_node\<lparr>Disk := (\<lambda>_. None)\<rparr>))"

lemma wit_popular: "PopularBlocks [ComputeCID [7]] wit_tracker = [ComputeCID [7]]"
  by (simp add: PopularBlocks_def map_range_def wit_tracker_def fetches_def)

lemma wit_get: "Store_Get os_ok wit_store (ComputeCID [7]) (Disk wit_node) = Inr (block_of [7])"
  by (simp add: Store_Get_def os_ReadFile_def wit_node_def New_def os_ok_def block_of_def)

lemma wit_live: "node_live os_ok wit_peers p"
  by (simp add: node_live_def os_ok_def wit_peers_def wit_node_def New_def cache_ok_def Store_IsPinned_def wit_store_def)


text \<open>The fragments that the peers of \<open>S\<close> received.\<close>

definition surviving :: "peer_id list \<Rightarrow> peer_id set \<Rightarrow> Fragment list \<Rightarrow> Fragment list" where
  "surviving eligible S frs = map snd (filter (\<lambda>(i, f). eligible ! (i mod length eligible) \<in> S) (enumerate 0 frs))"

lemma set_surviving:
  "set (surviving eligible S frs) = {frs ! i | i. i < length frs \<and> eligible ! (i mod length eligible) \<in> S}"
  by (auto simp: surviving_def in_set_enumerate_eq image_iff)

lemma card_surviving:
  assumes "\<forall>i<length frs. Index (frs ! i) = int i"
  shows "card (Index ` set (surviving eligible S frs)) = length (surviving eligible S frs)"
proof -
  have "map Index (surviving eligible S frs) = map (int \<circ> fst) (filter (\<lambda>(i, f). eligible ! (i mod length eligible) \<in> S) (enumerate 0 frs))"
    using assms by (auto simp: surviving_def in_set_enumerate_eq)
  moreover have "distinct (map fst (filter P (enumerate 0 frs)))" for P
    by (rule distinct_map_filter) (simp add: map_fst_enumerate)
  then have "distinct (map (int \<circ> fst) (filter P (enumerate 0 frs)))" for P
    unfolding map_map [symmetric] by (subst distinct_map) simp
  ultimately have "distinct (map Index (surviving eligible S frs))" by simp
  from distinct_card [OF this] show ?thesis by simp
qed

text \<open>
  C10. A replication round with erasure coding survives the loss of peers: after the round the fragments
  of a popular block lie on the connected peers in turn, and whenever the peers that survive hold at
  least \<open>k\<close> fragments of the block, decoding those gives back the block. The Reed-Solomon library
  behaves as documented and no two different fragments have the same hash.
\<close>

theorem erasure_survives:
  assumes "node_Tracker n = Some rt" and "Host n = Some self" and "ContentStore n = Some st" and "EnableErasure (Cfg n)"
    and "erasure_shards (Cfg n) = (k, m)" and "rs_code rs k m" and "popular = PopularBlocks iter rt"
    and "\<forall>c\<in>set popular. slash_free c \<and> 8 \<le> length c"
    and "eligible = filter (\<lambda>p. p \<noteq> self) peers" and "eligible \<noteq> []" and "\<forall>p\<in>set eligible. node_live os net p"
    and "F = block_fragments rs os st k m (Disk n)"
    and "\<forall>c\<in>set popular. \<forall>f\<in>set (F c). length (f_Data f) \<le> 16 * 1024 * 1024"
    and "inj_on ComputeCID (\<Union>c\<in>set popular. f_Data ` set (F c))"
    and "\<forall>c\<in>set popular. \<forall>b. Store_Get os st c (Disk n) = Inr b \<longrightarrow> Data b \<noteq> []"
    and "c \<in> set popular" and "Store_Get os st c (Disk n) = Inr b"
  shows "\<exists>r n' net'. replicatePopularBlocks (dial_push os) rs iter os peers n net = Inr (r, n', net')
    \<and> length (F c) = nat (k + m)
    \<and> (\<forall>i<length (F c). node_holds net' (eligible ! (i mod length eligible)) (f_CID (F c ! i)) (f_Data (F c ! i)))
    \<and> (\<forall>S. k \<le> int (length (surviving eligible S (F c))) \<longrightarrow>
         Decode rs (surviving eligible S (F c)) (int (length (Data b))) k m = Inr (Data b))"
proof -
  have enc: "length (F d) = nat (k + m) \<and> (\<forall>i<length (F d). Index (F d ! i) = int i \<and> f_CID (F d ! i) = ComputeCID (f_Data (F d ! i)))
      \<and> Encode rs (Data b) d k m = Inr (F d)"
    if d: "d \<in> set popular" "Store_Get os st d (Disk n) = Inr b" for d b
  proof -
    have ne: "Data b \<noteq> []" using assms(15) d by blast
    obtain frs where "Encode rs (Data b) d k m = Inr frs" using Encode_fragments [OF assms(6) ne] by blast
    with Encode_nth [OF assms(6) ne this] d(2) show ?thesis by (simp add: assms(12) block_fragments_def)
  qed
  have hash: "f_CID f = ComputeCID (f_Data f)" if "d \<in> set popular" "f \<in> set (F d)" for d f
  proof -
    have "\<exists>b. Store_Get os st d (Disk n) = Inr b"
      using that(2) by (cases "Store_Get os st d (Disk n)") (auto simp: assms(12) block_fragments_def)
    then show ?thesis using enc [OF that(1)] that(2) by (metis in_set_conv_nth)
  qed
  have ok: "\<forall>d\<in>set popular. \<forall>f\<in>set (F d). pushable \<lparr>CID = f_CID f, Data = f_Data f\<rparr>"
    using hash assms(13) by (simp add: pushable_def content_addressed_def)
  have uniq: "f_Data f = f_Data g" if "d \<in> set popular" "d' \<in> set popular" "f \<in> set (F d)" "g \<in> set (F d')" "f_CID f = f_CID g" for d d' f g
    using that hash inj_onD [OF assms(14)] by (metis UN_I imageI)
  have F: "\<forall>c\<in>set popular. F c = block_fragments rs os st k m (Disk n) c" by (simp add: assms(12))
  have "\<exists>fs' net'. replicateWithErasure (dial_push os) rs os st self k m peers popular 0 (Disk n) net
        = Inr (0 + (\<Sum>c\<leftarrow>popular. length (F c)), fs', net')
      \<and> (\<forall>c. slash_free c \<longrightarrow> store_lookup st fs' c = store_lookup st (Disk n) c)
      \<and> (\<forall>c\<in>set popular. \<forall>j<length (F c). node_holds net' (eligible ! (j mod length eligible)) (f_CID (F c ! j)) (f_Data (F c ! j)))
      \<and> (\<forall>q key d. node_holds net q key d \<longrightarrow> (\<forall>c\<in>set popular. \<forall>f\<in>set (F c). key = f_CID f \<longrightarrow> d = f_Data f) \<longrightarrow> node_holds net' q key d)"
    by (rule nodes.replicateWithErasure_spec [OF assms(9,10,11,8) F ok]) (erule (4) uniq, simp)
  then obtain fs' net' where r: "replicateWithErasure (dial_push os) rs os st self k m peers popular 0 (Disk n) net
        = Inr (0 + (\<Sum>c\<leftarrow>popular. length (F c)), fs', net')"
      "\<forall>c\<in>set popular. \<forall>j<length (F c). node_holds net' (eligible ! (j mod length eligible)) (f_CID (F c ! j)) (f_Data (F c ! j))"
    by (elim exE conjE) (rule that)
  have "popular \<noteq> []" "peers \<noteq> []" using assms(9,10,16) by auto
  then have run: "replicatePopularBlocks (dial_push os) rs iter os peers n net
      = Inr (\<Sum>c\<leftarrow>popular. length (F c), n\<lparr>Disk := fs'\<rparr>, net')"
    using assms(1-5,7) r(1) by (simp add: replicatePopularBlocks_def Let_def)
  have c: "length (F c) = nat (k + m)" "\<forall>i<length (F c). Index (F c ! i) = int i" "Encode rs (Data b) c k m = Inr (F c)"
    using enc [OF assms(16,17)] by auto
  have ne: "Data b \<noteq> []" using assms(15-17) by blast
  have dec: "Decode rs (surviving eligible S (F c)) (int (length (Data b))) k m = Inr (Data b)"
    if "k \<le> int (length (surviving eligible S (F c)))" for S
  proof -
    have "set (surviving eligible S (F c)) \<subseteq> set (F c)" by (auto simp: set_surviving)
    from Decode_fragments [OF assms(6) ne c(3) this] card_surviving [OF c(2), of eligible S] that
    show ?thesis by (simp add: CanReconstruct_def)
  qed
  from run c(1) r(2) assms(16) dec show ?thesis by blast
qed

definition wit_erasure_node :: Node where
  "wit_erasure_node = wit_node\<lparr>Cfg := (DefaultConfig ''h'')\<lparr>EnableErasure := True, DataShards := 1, ParityShards := 1\<rparr>\<rparr>"

lemma wit_fragments:
  "block_fragments wit_rs os_ok wit_store 1 1 (Disk wit_node) (ComputeCID [7])
     = [fragment (ComputeCID [7]) 2 1 0 [7], fragment (ComputeCID [7]) 2 1 1 [7]]"
  by (simp add: block_fragments_def wit_get Encode_def wit_rs_def)

theorem erasure_survives_witness:
  "\<exists>r n' net'. replicatePopularBlocks (dial_push os_ok) wit_rs [ComputeCID [7]] os_ok [''peer0001'', ''peer0002''] wit_erasure_node wit_peers
       = Inr (r, n', net')
     \<and> Decode wit_rs (surviving [''peer0001'', ''peer0002''] {''peer0002''} [fragment (ComputeCID [7]) 2 1 0 [7], fragment (ComputeCID [7]) 2 1 1 [7]])
         1 1 1 = Inr [7]"
proof -
  let ?k = "ComputeCID [7]" and ?ps = "[''peer0001'', ''peer0002'']" and ?F = "block_fragments wit_rs os_ok wit_store 1 1 (Disk wit_node)"
  have n: "node_Tracker wit_erasure_node = Some wit_tracker" "Host wit_erasure_node = Some ''node0000''"
    "ContentStore wit_erasure_node = Some wit_store" "EnableErasure (Cfg wit_erasure_node)"
    "erasure_shards (Cfg wit_erasure_node) = (1, 1)" "Disk wit_erasure_node = Disk wit_node"
    by (simp_all add: wit_erasure_node_def wit_node_def New_def erasure_shards_def)
  have len: "length (surviving ?ps {''peer0002''} (?F ?k)) = 1" unfolding wit_fragments by (simp add: surviving_def)
  have "\<exists>r n' net'. replicatePopularBlocks (dial_push os_ok) wit_rs [?k] os_ok ?ps wit_erasure_node wit_peers = Inr (r, n', net')
    \<and> length (?F ?k) = nat (1 + 1)
    \<and> (\<forall>i<length (?F ?k). node_holds net' (?ps ! (i mod length ?ps)) (f_CID (?F ?k ! i)) (f_Data (?F ?k ! i)))
    \<and> (\<forall>S. 1 \<le> int (length (surviving ?ps S (?F ?k))) \<longrightarrow>
         Decode wit_rs (surviving ?ps S (?F ?k)) (int (length (Data (block_of [7])))) 1 1 = Inr (Data (block_of [7])))"
    by (rule erasure_survives [OF n(1-5) rs_code_wit_rs refl, where eligible = ?ps and F = ?F and c = ?k and b = "block_of [7]"])
       (simp_all add: wit_popular wit_live n(6) wit_get wit_fragments fragment_def)
  then show ?thesis using len unfolding wit_fragments by auto
qed

end
