(* ===== verification/Providers.thy ===== *)
theory Providers
  imports Node
begin

text \<open>
  Fetching a block from the network (\<^verbatim>\<open>fetchBlockFromNetwork\<close> and its helpers in
  \<^verbatim>\<open>internal/node/api.go\<close>): the providers the DHT names are ranked by the quality of the paths to them,
  those whose cache summary claims the block are moved to the front, the block is raced over all of
  them and, if that fails, asked for in turn. The answers of the peers, the order in which the raced
  answers arrive and what the random source delivers to each path selection are arguments.
\<close>

section \<open>Ranking\<close>

record net_env =
  ne_find :: "cid \<Rightarrow> routing_error + AddrInfo list"
  ne_race :: "peer_id \<Rightarrow> bytes \<Rightarrow> bytes option"
  ne_serial :: "peer_id \<Rightarrow> bytes \<Rightarrow> bytes option"
  ne_arrival :: "nat list"
  ne_iter :: "nat \<Rightarrow> string list"
  ne_sel :: "nat \<Rightarrow> sel_env"

definition path_score :: "Path option \<Rightarrow> real" where
  "path_score best =
     (case best of
        None \<Rightarrow> -1
      | Some p \<Rightarrow> (if AvgRTT (p_Metrics p) > 0 then SuccessRate (p_Metrics p) / Seconds (AvgRTT (p_Metrics p))
                   else SuccessRate (p_Metrics p)))"

fun score_loop ::
  "(nat \<Rightarrow> string list) \<Rightarrow> (nat \<Rightarrow> sel_env) \<Rightarrow> nat \<Rightarrow> AddrInfo list \<Rightarrow> Manager \<Rightarrow> (nat \<times> real) list \<times> Manager" where
  "score_loop iters sels i [] pm = ([], pm)"
| "score_loop iters sels i (p # ps) pm =
     (case BestPath (iters i) (sels i) pm (ai_ID p) of
        (best, pm1) \<Rightarrow> (case score_loop iters sels (Suc i) ps pm1 of
            (scores, pm2) \<Rightarrow> ((i, path_score best) # scores, pm2)))"

definition sortProvidersByPathQuality ::
  "(nat \<Rightarrow> string list) \<Rightarrow> (nat \<Rightarrow> sel_env) \<Rightarrow> AddrInfo list \<Rightarrow> Manager \<Rightarrow> AddrInfo list \<times> Manager" where
  "sortProvidersByPathQuality iters sels providers pm =
     (case score_loop iters sels 0 providers pm of
        (scores, pm') \<Rightarrow> (map (\<lambda>(idx, score). providers ! idx) (insertion_sort_desc snd scores), pm'))"

fun boost_loop ::
  "PeerBloomStore \<Rightarrow> cid \<Rightarrow> AddrInfo list \<Rightarrow> AddrInfo list \<Rightarrow> AddrInfo list \<Rightarrow> go_panic + AddrInfo list" where
  "boost_loop blooms cid cached rest [] = Inr (cached @ rest)"
| "boost_loop blooms cid cached rest (p # ps) =
     (case PeerMayHave blooms (ai_ID p) cid of
        Inl e \<Rightarrow> Inl e
      | Inr True \<Rightarrow> boost_loop blooms cid (cached @ [p]) rest ps
      | Inr False \<Rightarrow> boost_loop blooms cid cached (rest @ [p]) ps)"

definition boostCachedProviders :: "PeerBloomStore \<Rightarrow> AddrInfo list \<Rightarrow> cid \<Rightarrow> go_panic + AddrInfo list" where
  "boostCachedProviders blooms providers cid = boost_loop blooms cid [] [] providers"

section \<open>Fetching\<close>

datatype net_error = NoContentRouter | FindFailed routing_error | NoProviderHad cid | MultipathFailed fetch_error

fun fetchBlockSerial :: "(peer_id \<Rightarrow> bytes \<Rightarrow> bytes option) \<Rightarrow> cid \<Rightarrow> AddrInfo list \<Rightarrow> net_error + Block" where
  "fetchBlockSerial dial cid [] = Inl (NoProviderHad cid)"
| "fetchBlockSerial dial cid (p # ps) =
     (case FetchBlock (dial (ai_ID p)) cid of Inl err \<Rightarrow> fetchBlockSerial dial cid ps | Inr block \<Rightarrow> Inr block)"

text \<open>Reading the results in the order in which they arrive.\<close>

fun first_success :: "(fetch_error + Block) list \<Rightarrow> fetch_error \<Rightarrow> net_error + Block" where
  "first_success [] lastErr = Inl (MultipathFailed lastErr)"
| "first_success (r # rs) lastErr = (case r of Inr block \<Rightarrow> Inr block | Inl err \<Rightarrow> first_success rs err)"

definition fetchBlockMultipath :: "net_env \<Rightarrow> Node \<Rightarrow> cid \<Rightarrow> AddrInfo list \<Rightarrow> net_error + Block" where
  "fetchBlockMultipath env n cid providers =
     (if PathManager n = None \<or> length providers < 2 then fetchBlockSerial (ne_race env) cid providers
      else first_success (map (\<lambda>i. FetchBlock (ne_race env (ai_ID (providers ! i))) cid) (ne_arrival env)) FetchStream)"

text \<open>
  The serial fallback of \<^verbatim>\<open>fetchBlockFromNetwork\<close>, which also asks for the best path to the successful
  provider to count its type (the metrics exist in every started node); failures are logged with a
  slice of the provider's identifier.
\<close>

fun serial_fallback ::
  "net_env \<Rightarrow> nat \<Rightarrow> cid \<Rightarrow> AddrInfo list \<Rightarrow> Manager option \<Rightarrow> go_panic + (net_error + Block) \<times> Manager option" where
  "serial_fallback env i cid [] pm = Inr (Inl (NoProviderHad cid), pm)"
| "serial_fallback env i cid (p # ps) pm =
     (case FetchBlock (ne_serial env (ai_ID p)) cid of
        Inl err \<Rightarrow> (if length (ai_ID p) < 8 then Inl IndexOutOfRange else serial_fallback env (Suc i) cid ps pm)
      | Inr block \<Rightarrow> Inr (Inr block, map_option (\<lambda>m. snd (BestPath (ne_iter env i) (ne_sel env i) m (ai_ID p))) pm))"

definition rank_providers :: "net_env \<Rightarrow> Node \<Rightarrow> cid \<Rightarrow> AddrInfo list \<Rightarrow> go_panic + AddrInfo list \<times> Manager option" where
  "rank_providers env n cid filtered =
     (let (sorted, pm) = (case PathManager n of
            None \<Rightarrow> (filtered, None)
          | Some m \<Rightarrow> (case sortProvidersByPathQuality (ne_iter env) (ne_sel env) filtered m of (ps, m') \<Rightarrow> (ps, Some m')))
      in case PeerBlooms n of
           None \<Rightarrow> Inr (sorted, pm)
         | Some blooms \<Rightarrow> (case boostCachedProviders blooms sorted cid of Inl e \<Rightarrow> Inl e | Inr ps \<Rightarrow> Inr (ps, pm)))"

definition fetchBlockFromNetwork ::
  "net_env \<Rightarrow> Node \<Rightarrow> cid \<Rightarrow> go_panic + (net_error + Block) \<times> Manager option" where
  "fetchBlockFromNetwork env n cid =
     (if \<not> ContentRouter n then Inr (Inl NoContentRouter, PathManager n)
      else case ne_find env cid of
        Inl e \<Rightarrow> Inr (Inl (FindFailed e), PathManager n)
      | Inr providers \<Rightarrow>
          (case Host n of
             None \<Rightarrow> Inl NilDereference
           | Some self \<Rightarrow>
               (let filtered = filter (\<lambda>p. ai_ID p \<noteq> self) providers in
                if filtered = [] then Inr (Inl (NoProviderHad cid), PathManager n)
                else case rank_providers env n cid filtered of
                  Inl e \<Rightarrow> Inl e
                | Inr (ranked, pm) \<Rightarrow>
                    (let serial = serial_fallback env (length ranked) cid ranked pm in
                     if 2 \<le> length ranked \<and> PathManager n \<noteq> None then
                       (case fetchBlockMultipath env n cid ranked of
                          Inr block \<Rightarrow> Inr (Inr block, pm)
                        | Inl err \<Rightarrow> serial)
                     else serial))))"

section \<open>Lemmas\<close>

lemma score_loop_fst: "map fst (fst (score_loop iters sels i ps pm)) = [i..<i + length ps]"
proof (induction ps arbitrary: i pm)
  case (Cons p ps)
  obtain best pm1 where b: "BestPath (iters i) (sels i) pm (ai_ID p) = (best, pm1)" by fastforce
  obtain scores pm2 where sc: "score_loop iters sels (Suc i) ps pm1 = (scores, pm2)" by fastforce
  have "map fst scores = [Suc i..<Suc i + length ps]" using Cons.IH [of "Suc i" pm1] sc by simp
  moreover have "[i..<i + length (p # ps)] = i # [Suc i..<Suc i + length ps]"
    using upt_conv_Cons [of i "i + length (p # ps)"] by simp
  ultimately show ?case using b sc by (simp del: upt_Suc)
qed simp

text \<open>The quality of the \<open>i\<close>-th provider as the loop computed it.\<close>

definition provider_score :: "(nat \<Rightarrow> string list) \<Rightarrow> (nat \<Rightarrow> sel_env) \<Rightarrow> AddrInfo list \<Rightarrow> Manager \<Rightarrow> nat \<Rightarrow> real" where
  "provider_score iters sels providers pm i = snd (fst (score_loop iters sels 0 providers pm) ! i)"

lemma scores_eq:
  "fst (score_loop iters sels 0 providers pm)
     = map (\<lambda>i. (i, provider_score iters sels providers pm i)) [0..<length providers]"
proof -
  let ?s = "fst (score_loop iters sels 0 providers pm)"
  have f: "map fst ?s = [0..<length providers]" using score_loop_fst [of iters sels 0 providers pm] by simp
  then have l: "length ?s = length providers" by (metis length_map length_upt minus_nat.diff_0)
  show ?thesis
  proof (rule nth_equalityI)
    fix i assume "i < length ?s"
    then show "?s ! i = map (\<lambda>i. (i, provider_score iters sels providers pm i)) [0..<length providers] ! i"
      using l arg_cong [OF f, of "\<lambda>xs. xs ! i"] by (cases "?s ! i") (simp add: provider_score_def)
  qed (simp add: l)
qed

lemma sort_key_map_pairs:
  "sort_key (\<lambda>x. - snd x) (map (\<lambda>i. (i, f i)) xs) = map (\<lambda>i. (i, f i)) (sort_key (\<lambda>i. - f i) xs)" for f :: "nat \<Rightarrow> real"
proof -
  have ins: "insort_key (\<lambda>x. - snd x) (a, f a) (map (\<lambda>i. (i, f i)) ys) = map (\<lambda>i. (i, f i)) (insort_key (\<lambda>i. - f i) a ys)" for a ys
    by (induction ys) auto
  show ?thesis by (induction xs) (simp_all add: ins)
qed

text \<open>The insertion sort on indices and scores is the stable sort by descending quality.\<close>

lemma sortProviders_eq:
  "fst (sortProvidersByPathQuality iters sels providers pm)
     = map (\<lambda>i. providers ! i) (sort_key (\<lambda>i. - provider_score iters sels providers pm i) [0..<length providers])"
  using scores_eq [of iters sels providers pm]
  by (simp add: sortProvidersByPathQuality_def insertion_sort_desc_eq sort_key_map_pairs case_prod_beta comp_def)

lemma mset_sortProviders: "mset (fst (sortProvidersByPathQuality iters sels providers pm)) = mset providers"
proof -
  have "mset (map (\<lambda>i. providers ! i) (sort_key k [0..<length providers])) = mset (map (\<lambda>i. providers ! i) [0..<length providers])"
    for k :: "nat \<Rightarrow> real" by (simp only: mset_map mset_sort)
  then show ?thesis by (simp add: sortProviders_eq map_nth)
qed

lemma boost_loop_eq:
  "boost_loop blooms cid cached rest ps = Inr r \<Longrightarrow>
     r = cached @ filter (\<lambda>p. PeerMayHave blooms (ai_ID p) cid = Inr True) ps
       @ rest @ filter (\<lambda>p. PeerMayHave blooms (ai_ID p) cid = Inr False) ps"
  by (induction blooms cid cached rest ps rule: boost_loop.induct) (auto split: sum.splits bool.splits)

lemma boost_loop_returns:
  "(\<And>p. p \<in> set ps \<Longrightarrow> \<exists>b. PeerMayHave blooms (ai_ID p) cid = Inr b) \<Longrightarrow> \<exists>r. boost_loop blooms cid cached rest ps = Inr r"
proof (induction blooms cid cached rest ps rule: boost_loop.induct)
  case (2 blooms cid cached rest p ps)
  obtain b where "PeerMayHave blooms (ai_ID p) cid = Inr b" using "2.prems" [of p] by auto
  with 2 show ?case by (cases b) auto
qed simp

lemma first_success_Inr: "first_success rs e = Inr b \<Longrightarrow> Inr b \<in> set rs"
  by (induction rs arbitrary: e) (auto split: sum.splits)

lemma fetchBlockSerial_Inr:
  "fetchBlockSerial dial cid ps = Inr b \<Longrightarrow> \<exists>p\<in>set ps. FetchBlock (dial (ai_ID p)) cid = Inr b"
  by (induction ps) (auto split: sum.splits)

lemma multipath_Inr:
  assumes "fetchBlockMultipath env n cid ps = Inr b" and "set (ne_arrival env) \<subseteq> {..<length ps}"
  shows "\<exists>p\<in>set ps. FetchBlock (ne_race env (ai_ID p)) cid = Inr b"
  using assms
  by (auto simp: fetchBlockMultipath_def split: if_splits dest!: fetchBlockSerial_Inr first_success_Inr)
     (metis eq_commute lessThan_iff nth_mem subset_iff)

lemma serial_fallback_Inr:
  "serial_fallback env i cid ps pm = Inr (Inr b, pm') \<Longrightarrow> \<exists>p\<in>set ps. FetchBlock (ne_serial env (ai_ID p)) cid = Inr b"
  by (induction env i cid ps pm rule: serial_fallback.induct) (auto split: sum.splits if_splits)

lemma serial_fallback_complete:
  "\<forall>p\<in>set ps. 8 \<le> length (ai_ID p) \<Longrightarrow>
   \<exists>r pm'. serial_fallback env i cid ps pm = Inr (r, pm')
     \<and> ((\<exists>p\<in>set ps. \<exists>b. FetchBlock (ne_serial env (ai_ID p)) cid = Inr b) \<longrightarrow> (\<exists>b. r = Inr b))"
  by (induction env i cid ps pm rule: serial_fallback.induct) (auto split: sum.splits)

lemma rank_providers_cases:
  obtains sorted pm where "mset sorted = mset ps"
    "rank_providers env n cid ps = (case PeerBlooms n of
       None \<Rightarrow> Inr (sorted, pm)
     | Some blooms \<Rightarrow> (case boost_loop blooms cid [] [] sorted of Inl e \<Rightarrow> Inl e | Inr r \<Rightarrow> Inr (r, pm)))"
proof (cases "PathManager n")
  case None
  then show thesis using that [of ps None] unfolding rank_providers_def boostCachedProviders_def by simp
next
  case (Some m)
  obtain sorted m' where sp: "sortProvidersByPathQuality (ne_iter env) (ne_sel env) ps m = (sorted, m')" by fastforce
  then have "mset sorted = mset ps" using mset_sortProviders [of "ne_iter env" "ne_sel env" ps m] by simp
  with Some sp show thesis using that [of sorted "Some m'"] unfolding rank_providers_def boostCachedProviders_def by simp
qed

lemma boost_loop_mset:
  "boost_loop blooms cid cached rest ps = Inr r \<Longrightarrow> mset r = mset cached + mset rest + mset ps"
  by (induction blooms cid cached rest ps rule: boost_loop.induct) (auto split: sum.splits bool.splits)

lemma rank_providers_mset:
  assumes "rank_providers env n cid ps = Inr (ranked, pm)"
  shows "mset ranked = mset ps"
  using assms boost_loop_mset
  by (cases rule: rank_providers_cases [of ps env n cid]) (fastforce split: option.splits sum.splits)

lemma rank_providers_returns:
  assumes "\<forall>blooms. PeerBlooms n = Some blooms \<longrightarrow> (\<forall>p\<in>set ps. \<exists>c. PeerMayHave blooms (ai_ID p) cid = Inr c)"
  shows "\<exists>ranked pm. rank_providers env n cid ps = Inr (ranked, pm)"
proof (cases rule: rank_providers_cases [of ps env n cid])
  case (1 sorted pm)
  show ?thesis
  proof (cases "PeerBlooms n")
    case (Some blooms)
    have "set sorted = set ps" using 1(1) by (metis set_mset_mset)
    then obtain r where "boost_loop blooms cid [] [] sorted = Inr r" using boost_loop_returns [of sorted] assms Some by blast
    with 1(2) Some show ?thesis by simp
  qed (use 1(2) in simp)
qed

lemma boost_loop_no_panic:
  "boost_loop blooms cid cached rest ps = Inr r \<Longrightarrow> p \<in> set ps \<Longrightarrow> \<exists>b. PeerMayHave blooms (ai_ID p) cid = Inr b"
  by (induction blooms cid cached rest ps rule: boost_loop.induct) (auto split: sum.splits bool.splits)

text \<open>Whatever the peers answer and in whichever order, a block that is returned was verified.\<close>

lemma fetchBlockFromNetwork_InrD:
  assumes "fetchBlockFromNetwork env n cid = Inr (Inr b, pm)"
  shows "CID b = cid \<and> content_addressed b"
proof -
  have "\<exists>peer. FetchBlock peer cid = Inr b" if "fetchBlockMultipath env n cid ps = Inr b" for ps
    using that by (auto simp: fetchBlockMultipath_def split: if_splits dest!: fetchBlockSerial_Inr first_success_Inr)
      (metis)
  moreover have "\<exists>peer. FetchBlock peer cid = Inr b" if "serial_fallback env i cid ps pm0 = Inr (Inr b, pm)" for i ps pm0
    using serial_fallback_Inr [OF that] by blast
  ultimately have "\<exists>peer. FetchBlock peer cid = Inr b"
    using assms by (auto simp: fetchBlockFromNetwork_def Let_def split: if_splits sum.splits option.splits)
  then show ?thesis using FetchBlock_InrD by blast
qed

section \<open>Properties\<close>

text \<open>
  C7. Fetching a block from the network, whoever the providers are: a block that is returned has the
  identifier asked for, hashes to it and was sent by a provider other than the node; and if one of
  the providers the DHT names sends such a block when asked, a block is returned, however the race
  ends, provided the cache summaries of the providers are well formed.
\<close>

theorem network_fetch_correct:
  assumes "Host n = Some self" and "ne_find env cid = Inr ps"
    and "set (ne_arrival env) \<subseteq> {..<length (filter (\<lambda>p. ai_ID p \<noteq> self) ps)}"
  shows "(\<forall>b pm. fetchBlockFromNetwork env n cid = Inr (Inr b, pm) \<longrightarrow> CID b = cid \<and> content_addressed b
      \<and> (\<exists>p\<in>set ps. ai_ID p \<noteq> self \<and> (FetchBlock (ne_race env (ai_ID p)) cid = Inr b \<or> FetchBlock (ne_serial env (ai_ID p)) cid = Inr b)))
    \<and> (ContentRouter n \<and> (\<forall>p\<in>set ps. 8 \<le> length (ai_ID p)) \<and>
       (\<forall>blooms. PeerBlooms n = Some blooms \<longrightarrow> (\<forall>p\<in>set ps. \<exists>c. PeerMayHave blooms (ai_ID p) cid = Inr c)) \<and>
       (\<exists>p\<in>set ps. ai_ID p \<noteq> self \<and> (\<exists>b. FetchBlock (ne_serial env (ai_ID p)) cid = Inr b)) \<longrightarrow>
       (\<exists>b pm. fetchBlockFromNetwork env n cid = Inr (Inr b, pm)))"
proof -
  let ?f = "filter (\<lambda>p. ai_ID p \<noteq> self) ps"
  have rank: "set ranked = set ?f \<and> length ranked = length ?f" if "rank_providers env n cid ?f = Inr (ranked, pm)" for ranked pm
    using rank_providers_mset [OF that] by (metis set_mset_mset size_mset)
  have sound: "\<exists>p\<in>set ps. ai_ID p \<noteq> self \<and> (FetchBlock (ne_race env (ai_ID p)) cid = Inr b \<or> FetchBlock (ne_serial env (ai_ID p)) cid = Inr b)"
    if r: "fetchBlockFromNetwork env n cid = Inr (Inr b, pm)" for b pm
  proof -
    from r assms(1,2) obtain ranked pm0 where rk: "rank_providers env n cid ?f = Inr (ranked, pm0)"
      and src: "fetchBlockMultipath env n cid ranked = Inr b \<or> (\<exists>pm. serial_fallback env (length ranked) cid ranked pm0 = Inr (Inr b, pm))"
      by (auto simp: fetchBlockFromNetwork_def Let_def split: if_splits sum.splits)
    have "set (ne_arrival env) \<subseteq> {..<length ranked}" using assms(3) rank [OF rk] by simp
    with src have "\<exists>p\<in>set ranked. FetchBlock (ne_race env (ai_ID p)) cid = Inr b \<or> FetchBlock (ne_serial env (ai_ID p)) cid = Inr b"
      using multipath_Inr [of env n cid ranked b] serial_fallback_Inr by blast
    then show ?thesis using rank [OF rk] by auto
  qed
  have complete: "\<exists>b pm. fetchBlockFromNetwork env n cid = Inr (Inr b, pm)"
    if h: "ContentRouter n" "\<forall>p\<in>set ps. 8 \<le> length (ai_ID p)"
      "\<forall>blooms. PeerBlooms n = Some blooms \<longrightarrow> (\<forall>p\<in>set ps. \<exists>c. PeerMayHave blooms (ai_ID p) cid = Inr c)"
      "\<exists>p\<in>set ps. ai_ID p \<noteq> self \<and> (\<exists>b. FetchBlock (ne_serial env (ai_ID p)) cid = Inr b)"
  proof -
    obtain ranked pm0 where rk: "rank_providers env n cid ?f = Inr (ranked, pm0)"
      using rank_providers_returns [of n ?f cid env] h(3) by auto
    have "\<forall>p\<in>set ranked. 8 \<le> length (ai_ID p)" "\<exists>p\<in>set ranked. \<exists>b. FetchBlock (ne_serial env (ai_ID p)) cid = Inr b"
      using h(2,4) rank [OF rk] by auto
    then obtain b pm' where "serial_fallback env (length ranked) cid ranked pm0 = Inr (Inr b, pm')"
      using serial_fallback_complete [of ranked env "length ranked" cid pm0] by blast
    then show ?thesis using assms(1,2) h(1,4) rk
      by (auto simp: fetchBlockFromNetwork_def Let_def filter_empty_conv split: sum.split)
  qed
  have "CID b = cid \<and> content_addressed b" if "fetchBlockFromNetwork env n cid = Inr (Inr b, pm)" for b pm
    using sound [OF that] FetchBlock_InrD by blast
  with sound complete show ?thesis by blast
qed

definition wit_net_env :: net_env where
  "wit_net_env = \<lparr>ne_find = (\<lambda>_. Inr [\<lparr>ai_ID = ''peer0001'', ai_Addrs = []\<rparr>, \<lparr>ai_ID = ''node0000'', ai_Addrs = []\<rparr>]),
     ne_race = (\<lambda>_ _. None), ne_serial = (\<lambda>_ req. Some ([1] @ word_be_enc (1 :: u32) @ [7])),
     ne_arrival = [], ne_iter = (\<lambda>_. []), ne_sel = (\<lambda>_. wit_sel)\<rparr>"

lemma wit_net_fetch: "FetchBlock (ne_serial wit_net_env p) (ComputeCID [7]) = Inr (block_of [7])"
  using fetch_response_found [of "block_of [7]" "ne_serial wit_net_env p"] by (simp add: wit_net_env_def)

theorem network_fetch_correct_witness:
  "\<exists>b pm. fetchBlockFromNetwork wit_net_env (wit_node\<lparr>ContentRouter := True\<rparr>) (ComputeCID [7]) = Inr (Inr b, pm)"
proof -
  have n: "Host (wit_node\<lparr>ContentRouter := True\<rparr>) = Some ''node0000''" by (simp add: wit_node_def)
  have ps: "ne_find wit_net_env (ComputeCID [7]) = Inr [\<lparr>ai_ID = ''peer0001'', ai_Addrs = []\<rparr>, \<lparr>ai_ID = ''node0000'', ai_Addrs = []\<rparr>]"
    and arr: "ne_arrival wit_net_env = []" by (simp_all add: wit_net_env_def)
  have "PeerBlooms (wit_node\<lparr>ContentRouter := True\<rparr>) = None" by (simp add: wit_node_def New_def)
  with network_fetch_correct [OF n ps] arr wit_net_fetch show ?thesis by simp
qed



text \<open>
  C35. One summary crashes the node: after a peer sent a cache summary whose filter has size zero and at
  least one hash function, fetching any block for which the DHT names that peer panics with a division
  by zero, when the summaries of the other peers are harmless.
\<close>

theorem summary_crashes_fetch:
  assumes "ContentRouter n" and "Host n = Some self" and "PeerBlooms n = Some (receive_summary blooms p (SendCacheSummary evil))"
    and "evil = word_le_enc (0 :: u32) @ word_le_enc h" and "0 < (h :: u32)"
    and "ne_find env cid = Inr ps" and "p \<noteq> self" and "p \<in> ai_ID ` set ps"
    and "\<forall>q. q \<noteq> p \<longrightarrow> (\<exists>b. PeerMayHave blooms q cid = Inr b)"
  shows "fetchBlockFromNetwork env n cid = Inl DivideByZero"
proof -
  have "CacheSummary_handler (SendCacheSummary evil) = Some evil"
    by (rule handler_SendCacheSummary) (simp add: assms(4))
  then obtain bf where bf: "receive_summary blooms p (SendCacheSummary evil) = PeerBloom_Set blooms p bf"
      "PeerMayHave (PeerBloom_Set blooms p bf) p cid = Inl DivideByZero"
    using untrusted_filter_panics [OF assms(5,5), of blooms p cid] by (auto simp: receive_summary_def OnReceive_def assms(4))
  have other: "\<exists>b. PeerMayHave (PeerBloom_Set blooms p bf) q cid = Inr b" if "q \<noteq> p" for q
    using assms(9) that by (auto simp: PeerMayHave_def PeerBloom_Set_def)
  have boost: "boost_loop (PeerBloom_Set blooms p bf) cid c r qs = Inl DivideByZero" if "p \<in> ai_ID ` set qs" for c r qs
    using that
  proof (induction qs arbitrary: c r)
    case (Cons q qs)
    show ?case
    proof (cases "ai_ID q = p")
      case True
      with bf(2) show ?thesis by simp
    next
      case False
      with other [of "ai_ID q"] obtain b where "PeerMayHave (PeerBloom_Set blooms p bf) (ai_ID q) cid = Inr b" by blast
      with Cons False show ?thesis by (cases b) auto
    qed
  qed simp
  let ?f = "filter (\<lambda>q. ai_ID q \<noteq> self) ps"
  have p: "p \<in> ai_ID ` set ?f" using assms(7,8) by auto
  have "rank_providers env n cid ?f = Inl DivideByZero"
  proof (cases rule: rank_providers_cases [of ?f env n cid])
    case (1 sorted pm)
    then have "p \<in> ai_ID ` set sorted" using p by (metis set_mset_mset)
    with 1(2) boost assms(3) bf(1) show ?thesis by simp
  qed
  moreover have "?f \<noteq> []" using p by (metis empty_iff empty_set image_empty)
  ultimately show ?thesis using assms(1,2,6) by (simp add: fetchBlockFromNetwork_def Let_def)
qed

theorem summary_crashes_fetch_witness:
  "fetchBlockFromNetwork wit_net_env
     (wit_node\<lparr>ContentRouter := True,
        PeerBlooms := Some (receive_summary NewPeerBloomStore ''peer0001'' (SendCacheSummary (word_le_enc (0 :: u32) @ word_le_enc (1 :: u32))))\<rparr>)
     ''k'' = Inl DivideByZero"
  by (rule summary_crashes_fetch [OF _ _ _ refl, where h = 1 and self = "''node0000''" and p = "''peer0001''" and blooms = NewPeerBloomStore
        and ps = "[\<lparr>ai_ID = ''peer0001'', ai_Addrs = []\<rparr>, \<lparr>ai_ID = ''node0000'', ai_Addrs = []\<rparr>]"])
     (simp_all add: wit_node_def wit_net_env_def PeerMayHave_def NewPeerBloomStore_def, blast)

end
