(* ===== verification/API.thy ===== *)
theory API
  imports Providers "HOL-Library.Sublist"
begin

text \<open>
  The HTTP interface of the node (\<^verbatim>\<open>internal/node/api.go\<close>): publishing a file, fetching it back,
  manifests, pins, providers and pings. A handler maps the request and the node to the reply, an error
  status or a value that the server encodes as JSON, and the node after it. JSON coding, Ed25519 and
  the answers of the network are arguments. Metrics and log records are left out.
\<close>

section \<open>Replies\<close>

datatype http_method = GET | POST | DELETE | OtherMethod

datatype http_status =
    StatusMethodNotAllowed | StatusServiceUnavailable | StatusBadRequest | StatusInternalServerError
  | StatusNotFound | StatusForbidden

section \<open>Publishing\<close>

record publish_request =
  FilePath :: string
  req_Name :: string

record publish_response =
  resp_RootCID :: cid
  resp_Name :: string
  resp_TotalSize :: int
  NumChunks :: nat

record 'k publish_env =
  pe_os :: os
  pe_read :: "string \<Rightarrow> bytes option"
  pe_peers :: "peer_id list"
  pe_iter :: "nat \<Rightarrow> string list"
  pe_sel :: "nat \<Rightarrow> sel_env"
  pe_key :: bytes
  pe_newKey :: "bytes \<Rightarrow> 'k"
  pe_pub :: "'k \<Rightarrow> bytes"
  pe_sign :: "'k \<Rightarrow> bytes \<Rightarrow> bytes"
  pe_marshal :: "Manifest \<Rightarrow> bytes option"

text \<open>The best round trip time over the connected peers, in milliseconds; the default counts as unset.\<close>

fun best_rtt :: "(nat \<Rightarrow> string list) \<Rightarrow> (nat \<Rightarrow> sel_env) \<Rightarrow> nat \<Rightarrow> peer_id list \<Rightarrow> Manager \<Rightarrow> real \<Rightarrow> real \<times> Manager" where
  "best_rtt iters sels i [] pm bestRTTms = (bestRTTms, pm)"
| "best_rtt iters sels i (pid # pids) pm bestRTTms =
     (case BestPath (iters i) (sels i) pm pid of
        (None, pm') \<Rightarrow> best_rtt iters sels (Suc i) pids pm' bestRTTms
      | (Some bp, pm') \<Rightarrow>
          best_rtt iters sels (Suc i) pids pm'
            (if AvgRTT (p_Metrics bp) > 0 then
               let rttMs = real_of_int (AvgRTT (p_Metrics bp) sdiv 1000000)
               in if bestRTTms = 10 \<or> rttMs < bestRTTms then rttMs else bestRTTms
             else bestRTTms))"

definition publish_chunk_size :: "'k publish_env \<Rightarrow> Node \<Rightarrow> bytes \<Rightarrow> int \<times> Node" where
  "publish_chunk_size env n data =
     (let chunkSize = (if ChunkSizeBytes (Cfg n) \<le> 0 then 256 * 1024 else ChunkSizeBytes (Cfg n)) in
      if AdaptiveChunking (Cfg n) then
        (let (bestRTTms, pm) = (case PathManager n of
               None \<Rightarrow> (10, None)
             | Some m \<Rightarrow> (case best_rtt (pe_iter env) (pe_sel env) 0 (pe_peers env) m 10 of (r, m') \<Rightarrow> (r, Some m')))
         in (AdaptiveChunkSize (int (length data)) bestRTTms (MinChunkSize (Cfg n)) (MaxChunkSize (Cfg n)), n\<lparr>PathManager := pm\<rparr>))
      else (chunkSize, n))"

fun store_blocks :: "os \<Rightarrow> Store \<Rightarrow> Block list \<Rightarrow> file_system \<Rightarrow> store_error option \<times> file_system" where
  "store_blocks os st [] fs = (None, fs)"
| "store_blocks os st (b # bs) fs =
     (case Store_Put os st b fs of (Some err, fs') \<Rightarrow> (Some err, fs') | (None, fs') \<Rightarrow> store_blocks os st bs fs')"

definition publish_manifest :: "'k publish_env \<Rightarrow> string \<Rightarrow> bytes \<Rightarrow> Block list \<Rightarrow> Manifest" where
  "publish_manifest env name data blocks =
     (let manifest = BuildManifest name (int (length data)) blocks; privKey = pe_key env in
      if 32 \<le> length privKey then SignManifest (pe_pub env) (pe_sign env) manifest (pe_newKey env (take 32 privKey))
      else manifest)"

text \<open>
  The last component is the manifest handed to the goroutine that announces it, if there is a router.
\<close>

definition handlePublish ::
  "'k publish_env \<Rightarrow> http_method \<Rightarrow> publish_request option \<Rightarrow> Node \<Rightarrow>
     (http_status + publish_response) \<times> Node \<times> Manifest option" where
  "handlePublish env method body n =
     (if method \<noteq> POST then (Inl StatusMethodNotAllowed, n, None)
      else case ContentStore n of
        None \<Rightarrow> (Inl StatusServiceUnavailable, n, None)
      | Some st \<Rightarrow>
          (case body of
             None \<Rightarrow> (Inl StatusBadRequest, n, None)
           | Some req \<Rightarrow>
               (case pe_read env (FilePath req) of
                  None \<Rightarrow> (Inl StatusBadRequest, n, None)
                | Some data \<Rightarrow>
                    (case publish_chunk_size env n data of (chunkSize, n1) \<Rightarrow>
                       (case Chunk \<lparr>rd_data = data, rd_fail = None\<rparr> chunkSize of
                          Inl err \<Rightarrow> (Inl StatusInternalServerError, n1, None)
                        | Inr blocks \<Rightarrow>
                            (case store_blocks (pe_os env) st blocks (Disk n1) of
                               (Some err, fs) \<Rightarrow> (Inl StatusInternalServerError, n1\<lparr>Disk := fs\<rparr>, None)
                             | (None, fs) \<Rightarrow>
                                 (let manifest = publish_manifest env (req_Name req) data blocks in
                                  case PutManifest (pe_marshal env) (pe_os env) st manifest fs of
                                    (Some err, fs') \<Rightarrow> (Inl StatusInternalServerError, n1\<lparr>Disk := fs'\<rparr>, None)
                                  | (None, fs') \<Rightarrow>
                                      (Inr \<lparr>resp_RootCID = RootCID manifest, resp_Name = Name manifest,
                                            resp_TotalSize = TotalSize manifest, NumChunks = length blocks\<rparr>,
                                       n1\<lparr>Disk := fs'\<rparr>, if ContentRouter n then Some manifest else None))))))))"

section \<open>Fetching\<close>

text \<open>
  The goroutines of a batch run concurrently; their atomic steps are the lookup in the cache, the read
  from the store, the fetch from the network and the write to the store. \<open>fetch_step\<close> is the next step
  of goroutine \<open>i\<close>.
\<close>

datatype phase = Spawned | Missed | NotLocal | Fetched Block | Finished

record fetch_env =
  fe_os :: os
  fe_unmarshal :: "bytes \<Rightarrow> Manifest option"
  fe_verify :: "bytes \<Rightarrow> bytes \<Rightarrow> bytes \<Rightarrow> bool"
  fe_net :: "nat \<Rightarrow> net_env"
  fe_sched :: "nat \<Rightarrow> nat list"

record fetch_state =
  fs_node :: Node
  fs_phases :: "phase list"
  fs_blocks :: "Block list"
  fs_err :: "cid option"

definition finish :: "nat \<Rightarrow> Block \<Rightarrow> fetch_state \<Rightarrow> fetch_state" where
  "finish i b s = s\<lparr>fs_blocks := (fs_blocks s)[i := b], fs_phases := (fs_phases s)[i := Finished]\<rparr>"

definition at_phase :: "nat \<Rightarrow> phase \<Rightarrow> fetch_state \<Rightarrow> fetch_state" where
  "at_phase i ph s = s\<lparr>fs_phases := (fs_phases s)[i := ph]\<rparr>"

definition fetch_step :: "fetch_env \<Rightarrow> Store \<Rightarrow> cid list \<Rightarrow> nat \<Rightarrow> fetch_state \<Rightarrow> go_panic + fetch_state" where
  "fetch_step env st cids i s =
     (let chunkCID = cids ! i; n = fs_node s in
      case fs_phases s ! i of
        Spawned \<Rightarrow>
          (case BlockCache n of
             None \<Rightarrow> Inr (at_phase i Missed s)
           | Some c \<Rightarrow>
               (case LRUCache_Get c chunkCID of
                  (Some b, c') \<Rightarrow> Inr (finish i b (s\<lparr>fs_node := n\<lparr>BlockCache := Some c'\<rparr>\<rparr>))
                | (None, c') \<Rightarrow> Inr (at_phase i Missed (s\<lparr>fs_node := n\<lparr>BlockCache := Some c'\<rparr>\<rparr>))))
      | Missed \<Rightarrow>
          (case Store_Get (fe_os env) st chunkCID (Disk n) of
             Inr b \<Rightarrow> Inr (finish i b s)
           | Inl err \<Rightarrow> Inr (at_phase i NotLocal s))
      | NotLocal \<Rightarrow>
          (case fetchBlockFromNetwork (fe_net env i) n chunkCID of
             Inl e \<Rightarrow> Inl e
           | Inr (Inr b, pm) \<Rightarrow> Inr (at_phase i (Fetched b) (s\<lparr>fs_node := n\<lparr>PathManager := pm\<rparr>\<rparr>))
           | Inr (Inl err, pm) \<Rightarrow>
               Inr (at_phase i Finished (s\<lparr>fs_node := n\<lparr>PathManager := pm\<rparr>,
                      fs_err := (if fs_err s = None then Some chunkCID else fs_err s)\<rparr>)))
      | Fetched b \<Rightarrow> Inr (finish i b (s\<lparr>fs_node := n\<lparr>Disk := snd (Store_Put (fe_os env) st b (Disk n))\<rparr>\<rparr>))
      | Finished \<Rightarrow> Inr s)"

fun run_steps :: "fetch_env \<Rightarrow> Store \<Rightarrow> cid list \<Rightarrow> nat list \<Rightarrow> fetch_state \<Rightarrow> go_panic + fetch_state" where
  "run_steps env st cids [] s = Inr s"
| "run_steps env st cids (i # is) s =
     (case fetch_step env st cids i s of Inl e \<Rightarrow> Inl e | Inr s' \<Rightarrow> run_steps env st cids is s')"

text \<open>
  A batch: the goroutines of the indices from \<open>lo\<close> to \<open>hi\<close> take steps in the order of the schedule; a
  goroutine has at most four, so after the schedule each takes what is left (\<^verbatim>\<open>wg.Wait\<close>).
\<close>

definition run_batch :: "fetch_env \<Rightarrow> Store \<Rightarrow> cid list \<Rightarrow> nat \<Rightarrow> nat \<Rightarrow> fetch_state \<Rightarrow> go_panic + fetch_state" where
  "run_batch env st cids lo hi s =
     run_steps env st cids
       (filter (\<lambda>i. lo \<le> i \<and> i < hi) (fe_sched env lo) @ concat (map (\<lambda>i. [i, i, i, i]) [lo..<hi])) s"

definition fetchConcurrency :: nat where
  "fetchConcurrency = 4"

function batch_loop :: "fetch_env \<Rightarrow> Store \<Rightarrow> cid list \<Rightarrow> nat \<Rightarrow> fetch_state \<Rightarrow> go_panic + fetch_state" where
  "batch_loop env st cids batchStart s =
     (if batchStart < length cids then
        (case run_batch env st cids batchStart (min (batchStart + fetchConcurrency) (length cids)) s of
           Inl e \<Rightarrow> Inl e
         | Inr s' \<Rightarrow> (if fs_err s' \<noteq> None then Inr s' else batch_loop env st cids (batchStart + fetchConcurrency) s'))
      else Inr s)"
  by pat_completeness auto
termination
  by (relation "measure (\<lambda>(env, st, cids, b, s). length cids - b)") (auto simp: fetchConcurrency_def)

declare batch_loop.simps [simp del]

definition init_fetch :: "Node \<Rightarrow> cid list \<Rightarrow> fetch_state" where
  "init_fetch n cids = \<lparr>fs_node = n, fs_phases = replicate (length cids) Spawned,
     fs_blocks = replicate (length cids) \<lparr>CID = [], Data = []\<rparr>, fs_err = None\<rparr>"

definition handleFetch ::
  "fetch_env \<Rightarrow> http_method \<Rightarrow> cid \<Rightarrow> Node \<Rightarrow> go_panic + (http_status + bytes) \<times> Node" where
  "handleFetch env method rootCID n =
     (if method \<noteq> GET then Inr (Inl StatusMethodNotAllowed, n)
      else case ContentStore n of
        None \<Rightarrow> Inr (Inl StatusServiceUnavailable, n)
      | Some st \<Rightarrow>
          (if rootCID = [] then Inr (Inl StatusBadRequest, n)
           else case GetManifest (fe_unmarshal env) (fe_os env) st rootCID (Disk n) of
             Inl err \<Rightarrow> Inr (Inl StatusNotFound, n)
           | Inr manifest \<Rightarrow>
               (if Signature manifest \<noteq> [] \<and> VerifyManifest (fe_verify env) manifest \<noteq> Inr () then Inr (Inl StatusForbidden, n)
                else case batch_loop env st (ChunkCIDs manifest) 0 (init_fetch n (ChunkCIDs manifest)) of
                  Inl e \<Rightarrow> Inl e
                | Inr s \<Rightarrow>
                    (if fs_err s \<noteq> None then Inr (Inl StatusNotFound, fs_node s)
                     else Inr (Inr (concat (map Data (fs_blocks s))), fs_node s)))))"

section \<open>Lemmas: running the goroutines\<close>

lemma run_steps_append:
  "run_steps env st cids (is @ js) s = (case run_steps env st cids is s of Inl e \<Rightarrow> Inl e | Inr s' \<Rightarrow> run_steps env st cids js s')"
  by (induction "is" arbitrary: s) (auto split: sum.split)

text \<open>\<open>keeps\<close>: every step keeps \<open>Inv\<close>; \<open>runs\<close>: no step panics from a state with \<open>Inv\<close>.\<close>

definition keeps :: "fetch_env \<Rightarrow> Store \<Rightarrow> cid list \<Rightarrow> (fetch_state \<Rightarrow> bool) \<Rightarrow> bool" where
  "keeps env st cids Inv \<longleftrightarrow> (\<forall>i s s'. Inv s \<longrightarrow> i < length cids \<longrightarrow> fetch_step env st cids i s = Inr s' \<longrightarrow> Inv s')"

definition runs :: "fetch_env \<Rightarrow> Store \<Rightarrow> cid list \<Rightarrow> (fetch_state \<Rightarrow> bool) \<Rightarrow> bool" where
  "runs env st cids Inv \<longleftrightarrow> (\<forall>i s. Inv s \<longrightarrow> i < length cids \<longrightarrow> (\<exists>s'. fetch_step env st cids i s = Inr s'))"

lemma run_steps_inv:
  "keeps env st cids Inv \<Longrightarrow> Inv s \<Longrightarrow> set is \<subseteq> {..<length cids} \<Longrightarrow> run_steps env st cids is s = Inr s' \<Longrightarrow> Inv s'"
  by (induction "is" arbitrary: s) (auto simp: keeps_def split: sum.splits)

lemma run_steps_runs:
  "keeps env st cids Inv \<Longrightarrow> runs env st cids Inv \<Longrightarrow> Inv s \<Longrightarrow> set is \<subseteq> {..<length cids} \<Longrightarrow>
   \<exists>s'. run_steps env st cids is s = Inr s'"
proof (induction "is" arbitrary: s)
  case (Cons i "is")
  have "i < length cids" using Cons.prems(4) by simp
  with Cons.prems(2,3) obtain s1 where s1: "fetch_step env st cids i s = Inr s1" unfolding runs_def by blast
  with Cons.prems have "Inv s1" by (auto simp: keeps_def)
  with Cons s1 show ?case by simp
qed simp

lemma batch_indices:
  "set (filter (\<lambda>i. lo \<le> i \<and> i < hi) sched @ concat (map (\<lambda>i. [i, i, i, i]) [lo..<hi])) \<subseteq> {lo..<hi}"
  by auto

lemma run_batch_inv:
  assumes "keeps env st cids Inv" and "Inv s" and "hi \<le> length cids"
  shows "run_batch env st cids lo hi s = Inr s' \<Longrightarrow> Inv s'"
    and "runs env st cids Inv \<Longrightarrow> \<exists>s'. run_batch env st cids lo hi s = Inr s'"
proof -
  have sub: "{lo..<hi} \<subseteq> {..<length cids}" using assms(3) by auto
  show "run_batch env st cids lo hi s = Inr s' \<Longrightarrow> Inv s'"
    unfolding run_batch_def by (rule run_steps_inv [OF assms(1,2) order_trans [OF batch_indices sub]])
  show "runs env st cids Inv \<Longrightarrow> \<exists>s'. run_batch env st cids lo hi s = Inr s'"
    unfolding run_batch_def by (rule run_steps_runs [OF assms(1) _ assms(2) order_trans [OF batch_indices sub]])
qed

lemma batch_loop_inv:
  "keeps env st cids Inv \<Longrightarrow> Inv s \<Longrightarrow> batch_loop env st cids b s = Inr s' \<Longrightarrow> Inv s'"
proof (induction env st cids b s rule: batch_loop.induct)
  case (1 env st cids b s)
  show ?case
  proof (cases "b < length cids")
    case True
    let ?hi = "min (b + fetchConcurrency) (length cids)"
    from True "1.prems"(3) obtain s1 where s1: "run_batch env st cids b ?hi s = Inr s1"
      by (subst (asm) batch_loop.simps) (auto split: sum.splits)
    have "Inv s1" using run_batch_inv(1) [OF "1.prems"(1,2) _ s1] by simp
    then show ?thesis
      using "1.IH" [OF True s1] "1.prems"(1,3) True s1 by (subst (asm) batch_loop.simps) (auto split: if_splits)
  next
    case False
    with "1.prems" show ?thesis by (subst (asm) batch_loop.simps) simp
  qed
qed

lemma batch_loop_runs:
  "keeps env st cids Inv \<Longrightarrow> runs env st cids Inv \<Longrightarrow> Inv s \<Longrightarrow> \<exists>s'. batch_loop env st cids b s = Inr s'"
proof (induction env st cids b s rule: batch_loop.induct)
  case (1 env st cids b s)
  show ?case
  proof (cases "b < length cids")
    case True
    let ?hi = "min (b + fetchConcurrency) (length cids)"
    obtain s1 where s1: "run_batch env st cids b ?hi s = Inr s1"
      using run_batch_inv(2) [OF "1.prems"(1,3) _ "1.prems"(2), of ?hi b] by auto
    have "Inv s1" using run_batch_inv(1) [OF "1.prems"(1,3) _ s1] by simp
    with "1.IH" [OF True s1] "1.prems"(1,2) True s1 show ?thesis by (subst batch_loop.simps) auto
  next
    case False
    then show ?thesis by (subst batch_loop.simps) simp
  qed
qed

text \<open>Progress: a step of an unfinished goroutine brings it closer to its end and leaves the others alone.\<close>

fun phase_rank :: "phase \<Rightarrow> nat" where
  "phase_rank Spawned = 4"
| "phase_rank Missed = 3"
| "phase_rank NotLocal = 2"
| "phase_rank (Fetched b) = 1"
| "phase_rank Finished = 0"

lemma phase_rank_0 [simp]: "phase_rank ph = 0 \<longleftrightarrow> ph = Finished"
  by (cases ph) auto

lemma fetch_step_progress:
  assumes "fetch_step env st cids i s = Inr s'" and "i < length (fs_phases s)"
  shows "length (fs_phases s') = length (fs_phases s)"
    and "phase_rank (fs_phases s' ! i) \<le> phase_rank (fs_phases s ! i) - 1"
    and "j \<noteq> i \<Longrightarrow> fs_phases s' ! j = fs_phases s ! j"
  using assms
  by (auto simp: fetch_step_def Let_def finish_def at_phase_def split: phase.splits option.splits prod.splits sum.splits)


lemma run_steps_progress:
  assumes "run_steps env st cids is s = Inr s'" and "set is \<subseteq> {..<length (fs_phases s)}"
  shows "length (fs_phases s') = length (fs_phases s) \<and> (fs_phases s ! j = Finished \<longrightarrow> fs_phases s' ! j = Finished)
    \<and> phase_rank (fs_phases s' ! j) \<le> phase_rank (fs_phases s ! j) - length (filter (\<lambda>i. i = j) is)"
  using assms
proof (induction "is" arbitrary: s)
  case (Cons i "is")
  then obtain s1 where s1: "fetch_step env st cids i s = Inr s1" "run_steps env st cids is s1 = Inr s'"
    by (auto split: sum.splits)
  have i: "i < length (fs_phases s)" using Cons.prems(2) by simp
  note p = fetch_step_progress [OF s1(1) i]
  have "set is \<subseteq> {..<length (fs_phases s1)}" using Cons.prems(2) p(1) by simp
  note IH = Cons.IH [OF s1(2) this]
  show ?case
  proof (cases "j = i")
    case True
    have "fs_phases s ! j = Finished \<longrightarrow> fs_phases s1 ! j = Finished" using p(2) True by (metis diff_0_eq_0 le_zero_eq phase_rank_0)
    with IH p(1,2) True show ?thesis by auto
  next
    case False
    with IH p(1) p(3) [of j] show ?thesis by auto
  qed
qed simp

lemma run_batch_finishes:
  assumes "run_batch env st cids lo hi s = Inr s'" and "hi \<le> length (fs_phases s)"
  shows "length (fs_phases s') = length (fs_phases s)"
    and "fs_phases s ! j = Finished \<or> lo \<le> j \<and> j < hi \<Longrightarrow> fs_phases s' ! j = Finished"
proof -
  let ?is = "filter (\<lambda>i. lo \<le> i \<and> i < hi) (fe_sched env lo) @ concat (map (\<lambda>i. [i, i, i, i]) [lo..<hi])"
  have "set ?is \<subseteq> {..<length (fs_phases s)}"
    using batch_indices [of lo hi "fe_sched env lo"] assms(2) by fastforce
  note p = run_steps_progress [OF assms(1) [unfolded run_batch_def] this]
  show "length (fs_phases s') = length (fs_phases s)" using p by blast
  have count: "length (filter (\<lambda>i. i = j) (concat (map (\<lambda>i. [i, i, i, i]) [lo..<hi]))) = 4" if "lo \<le> j" "j < hi"
  proof -
    have "[lo..<hi] = [lo..<j] @ j # [Suc j..<hi]" using that by (metis le_add_diff_inverse less_imp_le upt_add_eq_append upt_conv_Cons)
    moreover have "filter (\<lambda>i. i = j) (concat (map (\<lambda>i. [i, i, i, i]) [a..<b])) = []" if "j \<notin> {a..<b}" for a b
      using that by (auto simp: filter_empty_conv)
    ultimately show ?thesis by simp
  qed
  have le: "phase_rank (fs_phases s ! j) \<le> 4" by (cases "fs_phases s ! j") auto
  show "fs_phases s' ! j = Finished" if "fs_phases s ! j = Finished \<or> lo \<le> j \<and> j < hi"
    using that
  proof
    assume j: "lo \<le> j \<and> j < hi"
    then have "phase_rank (fs_phases s ! j) - length (filter (\<lambda>i. i = j) ?is) = 0"
      using count le by simp
    with p [of j] have "phase_rank (fs_phases s' ! j) = 0" by linarith
    then show ?thesis by simp
  qed (use p [of j] in blast)
qed

lemma batch_loop_finishes:
  "batch_loop env st cids b s = Inr s' \<Longrightarrow> fs_err s' = None \<Longrightarrow> length (fs_phases s) = length cids \<Longrightarrow>
   \<forall>j<min b (length cids). fs_phases s ! j = Finished \<Longrightarrow> j < length cids \<Longrightarrow> fs_phases s' ! j = Finished"
proof (induction env st cids b s rule: batch_loop.induct)
  case (1 env st cids b s)
  show ?case
  proof (cases "b < length cids")
    case True
    let ?hi = "min (b + fetchConcurrency) (length cids)"
    from True "1.prems"(1) obtain s1 where s1: "run_batch env st cids b ?hi s = Inr s1"
      by (subst (asm) batch_loop.simps) (auto split: sum.splits)
    note f = run_batch_finishes [OF s1]
    have len: "length (fs_phases s1) = length cids" using f(1) "1.prems"(3) by simp
    have fin: "\<forall>j<min (b + fetchConcurrency) (length cids). fs_phases s1 ! j = Finished"
      using f(2) "1.prems"(3,4) by (metis min.cobounded2 min_less_iff_conj not_le_imp_less)
    have "fs_err s1 = None \<and> batch_loop env st cids (b + fetchConcurrency) s1 = Inr s'"
      using "1.prems"(1,2) True s1 by (subst (asm) batch_loop.simps) (auto split: if_splits)
    then show ?thesis using "1.IH" [OF True s1 _ _ "1.prems"(2) len fin "1.prems"(5)] by simp
  next
    case False
    with "1.prems" show ?thesis by (subst (asm) batch_loop.simps) simp
  qed
qed

section \<open>Authentic blocks\<close>

text \<open>Every slash-free key of the cache and of the disk is the hash of its data.\<close>

definition node_trusted :: "Node \<Rightarrow> bool" where
  "node_trusted n \<longleftrightarrow> cache_ok (BlockCache n) \<and> trusted (cache_view (BlockCache n)) slash_free
     \<and> (\<forall>st. ContentStore n = Some st \<longrightarrow> trusted (store_lookup st (Disk n)) slash_free)"

definition authentic :: "cid \<Rightarrow> Block \<Rightarrow> bool" where
  "authentic k b \<longleftrightarrow> CID b = k \<and> (slash_free k \<longrightarrow> content_addressed b)"

definition fetch_inv :: "Store \<Rightarrow> cid list \<Rightarrow> fetch_state \<Rightarrow> bool" where
  "fetch_inv st cids s \<longleftrightarrow> node_trusted (fs_node s) \<and> ContentStore (fs_node s) = Some st
     \<and> length (fs_phases s) = length cids \<and> length (fs_blocks s) = length cids
     \<and> (\<forall>i<length cids. case fs_phases s ! i of
          Fetched b \<Rightarrow> CID b = cids ! i \<and> content_addressed b
        | Finished \<Rightarrow> fs_err s \<noteq> None \<or> authentic (cids ! i) (fs_blocks s ! i)
        | _ \<Rightarrow> True)"

lemma node_trusted_other [simp]: "node_trusted (n\<lparr>PathManager := pm\<rparr>) = node_trusted n"
  by (simp add: node_trusted_def)

lemma node_trusted_Get:
  assumes "node_trusted n" and "BlockCache n = Some c" and "LRUCache_Get c k = (r, c')"
  shows "node_trusted (n\<lparr>BlockCache := Some c'\<rparr>)" and "r = Some b \<Longrightarrow> authentic k b"
proof -
  have ok: "cache_ok (Some c)" "trusted (cache_view (Some c)) slash_free" using assms(1,2) by (auto simp: node_trusted_def)
  have c': "Some c' = map_option (\<lambda>c. snd (LRUCache_Get c k)) (Some c)" "r = lru_lookup c k"
    using assms(3) LRUCache_Get_result [of c k] by simp_all
  show "node_trusted (n\<lparr>BlockCache := Some c'\<rparr>)"
    using assms(1) cache_ok_Get [OF ok(1), of k] ok(2) cache_view_Get [of k "Some c"] c' unfolding node_trusted_def by simp
  show "authentic k b" if "r = Some b"
    using that c'(2) ok lru_lookup_CID [of c k b]
    by (auto simp: authentic_def content_addressed_def cache_ok_def trusted_def cache_view_def)
qed

lemma node_trusted_Store_Get:
  assumes "node_trusted n" and "ContentStore n = Some st" and "Store_Get os st k (Disk n) = Inr b"
  shows "authentic k b"
  using assms Store_Get_SomeD [OF assms(3)] by (auto simp: node_trusted_def authentic_def content_addressed_def trusted_def)

lemma node_trusted_Store_Put:
  assumes "node_trusted n" and "ContentStore n = Some st" and "content_addressed b" and "\<forall>p j. os_write os p \<noteq> WritePartial j"
  shows "node_trusted (n\<lparr>Disk := snd (Store_Put os st b (Disk n))\<rparr>)"
  using assms Store_Put_trusted [of st "Disk n" b os] by (auto simp: node_trusted_def content_addressed_def)

lemma fetch_inv_at:
  assumes "fetch_inv st cids s" and "i < length cids" and "node_trusted n" and "ContentStore n = Some st"
    and "case ph of Fetched b \<Rightarrow> CID b = cids ! i \<and> content_addressed b | Finished \<Rightarrow> False | _ \<Rightarrow> True"
  shows "fetch_inv st cids (at_phase i ph (s\<lparr>fs_node := n\<rparr>))"
  using assms by (auto simp: fetch_inv_def at_phase_def nth_list_update split: phase.splits)

lemma fetch_inv_finish:
  assumes "fetch_inv st cids s" and "i < length cids" and "node_trusted n" and "ContentStore n = Some st"
    and "authentic (cids ! i) b"
  shows "fetch_inv st cids (finish i b (s\<lparr>fs_node := n\<rparr>))"
  using assms by (auto simp: fetch_inv_def finish_def nth_list_update split: phase.splits)

lemma fetch_inv_keeps:
  assumes "\<forall>p j. os_write (fe_os env) p \<noteq> WritePartial j"
  shows "keeps env st cids (fetch_inv st cids)"
  unfolding keeps_def
proof (intro allI impI)
  fix i s s' assume inv: "fetch_inv st cids s" and i: "i < length cids" and step: "fetch_step env st cids i s = Inr s'"
  let ?n = "fs_node s"
  have n: "node_trusted ?n" "ContentStore ?n = Some st" using inv by (simp_all add: fetch_inv_def)
  have self: "s\<lparr>fs_node := ?n\<rparr> = s" by simp
  note at = fetch_inv_at [OF inv i] and fin = fetch_inv_finish [OF inv i]
  show "fetch_inv st cids s'"
  proof (cases "fs_phases s ! i")
    case Spawned
    show ?thesis
    proof (cases "BlockCache ?n")
      case None
      with step Spawned at [OF n, of Missed] show ?thesis by (simp add: fetch_step_def)
    next
      case (Some c)
      obtain r c' where g: "LRUCache_Get c (cids ! i) = (r, c')" by fastforce
      note t = node_trusted_Get [OF n(1) Some g]
      from step Spawned Some g show ?thesis
        using at [OF t(1), of Missed] fin [OF t(1)] n(2) t(2) by (cases r) (auto simp: fetch_step_def)
    qed
  next
    case Missed
    then show ?thesis using step at [OF n, of NotLocal] fin [OF n] node_trusted_Store_Get [OF n]
      by (auto simp: fetch_step_def Let_def split: sum.splits)
  next
    case NotLocal
    with step obtain r pm where r: "fetchBlockFromNetwork (fe_net env i) ?n (cids ! i) = Inr (r, pm)"
      by (auto simp: fetch_step_def Let_def split: sum.splits)
    show ?thesis
    proof (cases r)
      case (Inl e)
      with step NotLocal r inv i show ?thesis
        by (auto simp: fetch_step_def fetch_inv_def at_phase_def nth_list_update split: phase.splits if_splits)
    next
      case (Inr b)
      with r fetchBlockFromNetwork_InrD have "CID b = cids ! i \<and> content_addressed b" by blast
      with step NotLocal r Inr show ?thesis using at [of "?n\<lparr>PathManager := pm\<rparr>" "Fetched b"] n by (simp add: fetch_step_def)
    qed
  next
    case (Fetched b)
    have b: "CID b = cids ! i" "content_addressed b" using inv i Fetched by (auto simp: fetch_inv_def split: phase.splits)
    then have "authentic (cids ! i) b" by (simp add: authentic_def)
    with step Fetched show ?thesis using fin [OF node_trusted_Store_Put [OF n b(2) assms], of b] n(2)
      by (simp add: fetch_step_def Let_def)
  next
    case Finished
    with step inv show ?thesis by (simp add: fetch_step_def)
  qed
qed

lemma fetch_inv_init:
  "node_trusted n \<Longrightarrow> ContentStore n = Some st \<Longrightarrow> fetch_inv st cids (init_fetch n cids)"
  by (simp add: fetch_inv_def init_fetch_def)

lemma fetch_step_config: "fetch_step env st cids i s = Inr s' \<Longrightarrow> Cfg (fs_node s') = Cfg (fs_node s)"
  by (auto simp: fetch_step_def Let_def finish_def at_phase_def split: phase.splits option.splits prod.splits sum.splits)

lemma handleFetch_cases:
  assumes "handleFetch env method rootCID n = Inr (reply, n')"
  obtains (refused) status where "reply = Inl status" "n' = n"
  | (ran) st m s where "method = GET" "ContentStore n = Some st" "GetManifest (fe_unmarshal env) (fe_os env) st rootCID (Disk n) = Inr m"
      "Signature m \<noteq> [] \<longrightarrow> VerifyManifest (fe_verify env) m = Inr ()"
      "batch_loop env st (ChunkCIDs m) 0 (init_fetch n (ChunkCIDs m)) = Inr s" "n' = fs_node s"
      "reply = (if fs_err s \<noteq> None then Inl StatusNotFound else Inr (concat (map Data (fs_blocks s))))"
proof -
  consider status where "handleFetch env method rootCID n = Inr (Inl status, n)"
    | st m where "method = GET" "ContentStore n = Some st" "rootCID \<noteq> []" "GetManifest (fe_unmarshal env) (fe_os env) st rootCID (Disk n) = Inr m"
      "Signature m \<noteq> [] \<longrightarrow> VerifyManifest (fe_verify env) m = Inr ()"
  proof (cases "method = GET \<and> rootCID \<noteq> [] \<and> ContentStore n \<noteq> None")
    case True
    then obtain st where st: "ContentStore n = Some st" by blast
    show thesis
    proof (cases "GetManifest (fe_unmarshal env) (fe_os env) st rootCID (Disk n)")
      case (Inl e)
      with True st show thesis by (intro that(1)) (simp add: handleFetch_def)
    next
      case (Inr m)
      with True st show thesis
        by (cases "Signature m \<noteq> [] \<longrightarrow> VerifyManifest (fe_verify env) m = Inr ()") (auto simp: handleFetch_def intro: that)
    qed
  next
    case False
    then have "\<exists>status. handleFetch env method rootCID n = Inr (Inl status, n)"
      by (auto simp: handleFetch_def split: option.split)
    with that(1) show thesis by blast
  qed
  then show thesis
  proof cases
    case 2
    then obtain s where s: "batch_loop env st (ChunkCIDs m) 0 (init_fetch n (ChunkCIDs m)) = Inr s"
      using assms by (auto simp: handleFetch_def split: sum.splits)
    show thesis by (rule ran [OF 2(1,2,4,5) s]) (use assms 2 s in \<open>auto simp: handleFetch_def split: if_splits\<close>)
  qed (use assms refused in simp)
qed

text \<open>A fetch keeps the configuration, the store and the authenticity of the node.\<close>

lemma handleFetch_keeps:
  assumes "node_trusted n" and "\<forall>p j. os_write (fe_os env) p \<noteq> WritePartial j"
    and "handleFetch env method rootCID n = Inr (reply, n')"
  shows "node_trusted n' \<and> ContentStore n' = ContentStore n \<and> Cfg n' = Cfg n"
  using assms(3)
proof (cases rule: handleFetch_cases)
  case (ran st m s)
  have "fetch_inv st (ChunkCIDs m) s"
    using batch_loop_inv [OF fetch_inv_keeps [OF assms(2)] fetch_inv_init [OF assms(1) ran(2)] ran(5)] .
  moreover have "Cfg (fs_node s) = Cfg n"
  proof (rule batch_loop_inv [OF _ _ ran(5)])
    show "keeps env st (ChunkCIDs m) (\<lambda>s. Cfg (fs_node s) = Cfg n)" by (auto simp: keeps_def fetch_step_config)
  qed (simp add: init_fetch_def)
  ultimately show ?thesis using ran by (simp add: fetch_inv_def)
qed (use assms(1) in simp)

section \<open>Fetching what the node has\<close>

text \<open>The data \<open>ds\<close> of the chunks \<open>cids\<close> is on the disk of the node, and its cache does not contradict it.\<close>

definition holds_locally :: "Store \<Rightarrow> cid list \<Rightarrow> bytes list \<Rightarrow> Node \<Rightarrow> bool" where
  "holds_locally st cids ds n \<longleftrightarrow> length ds = length cids
     \<and> (\<forall>i<length cids. cache_view (BlockCache n) (cids ! i) \<in> {None, Some (ds ! i)} \<and> store_lookup st (Disk n) (cids ! i) = Some (ds ! i))"

definition local_inv :: "Store \<Rightarrow> cid list \<Rightarrow> bytes list \<Rightarrow> fetch_state \<Rightarrow> bool" where
  "local_inv st cids ds s \<longleftrightarrow> holds_locally st cids ds (fs_node s) \<and> fs_err s = None
     \<and> length (fs_phases s) = length cids \<and> length (fs_blocks s) = length cids
     \<and> (\<forall>i<length cids. fs_phases s ! i \<in> {Spawned, Missed} \<or> fs_phases s ! i = Finished \<and> Data (fs_blocks s ! i) = ds ! i)"

lemma local_inv_finish:
  assumes "local_inv st cids ds s" and "i < length cids" and "holds_locally st cids ds n" and "Data b = ds ! i"
  shows "local_inv st cids ds (finish i b (s\<lparr>fs_node := n\<rparr>))"
  using assms by (auto simp: local_inv_def finish_def nth_list_update)

lemma local_inv_step:
  assumes "\<forall>p. \<not> os_read_fails (fe_os env) p" and "local_inv st cids ds s" and "i < length cids"
  shows "\<exists>s'. fetch_step env st cids i s = Inr s' \<and> local_inv st cids ds s'"
proof -
  let ?n = "fs_node s"
  have h: "holds_locally st cids ds ?n" using assms(2) by (simp add: local_inv_def)
  consider "fs_phases s ! i = Spawned" | "fs_phases s ! i = Missed" | "fs_phases s ! i = Finished"
    using assms(2,3) by (auto simp: local_inv_def)
  then show ?thesis
  proof cases
    case 1
    have at: "local_inv st cids ds (at_phase i Missed (s\<lparr>fs_node := n\<rparr>))" if "holds_locally st cids ds n" for n
      using assms(2,3) that by (auto simp: local_inv_def at_phase_def nth_list_update)
    show ?thesis
    proof (cases "BlockCache ?n")
      case None
      with 1 at [OF h] show ?thesis by (simp add: fetch_step_def)
    next
      case (Some c)
      obtain r c' where g: "LRUCache_Get c (cids ! i) = (r, c')" by fastforce
      have c': "Some c' = map_option (\<lambda>c. snd (LRUCache_Get c (cids ! i))) (Some c)" "r = lru_lookup c (cids ! i)"
        using g LRUCache_Get_result [of c "cids ! i"] by simp_all
      have h': "holds_locally st cids ds (?n\<lparr>BlockCache := Some c'\<rparr>)"
        using h Some cache_view_Get [of "cids ! i" "Some c"] c'(1) by (simp add: holds_locally_def)
      have "Data b = ds ! i" if "r = Some b" for b
        using h Some that c'(2) assms(3) by (auto simp: holds_locally_def cache_view_def)
      then show ?thesis using 1 Some g at [OF h'] local_inv_finish [OF assms(2,3) h'] by (cases r) (simp_all add: fetch_step_def)
    qed
  next
    case 2
    have "Store_Get (fe_os env) st (cids ! i) (Disk ?n) = Inr \<lparr>CID = cids ! i, Data = ds ! i\<rparr>"
      using h assms(1,3) by (simp add: Store_Get_lookup holds_locally_def)
    then show ?thesis using 2 local_inv_finish [OF assms(2,3) h, of "\<lparr>CID = cids ! i, Data = ds ! i\<rparr>"] by (simp add: fetch_step_def)
  next
    case 3
    then show ?thesis using assms(2) by (simp add: fetch_step_def)
  qed
qed

lemma handleFetch_local:
  assumes "ContentStore n = Some st" and "rootCID \<noteq> []" and "GetManifest (fe_unmarshal env) (fe_os env) st rootCID (Disk n) = Inr m"
    and "Signature m \<noteq> [] \<longrightarrow> VerifyManifest (fe_verify env) m = Inr ()"
    and "holds_locally st (ChunkCIDs m) ds n" and "\<forall>p. \<not> os_read_fails (fe_os env) p"
  shows "\<exists>n'. handleFetch env GET rootCID n = Inr (Inr (concat ds), n')"
proof -
  let ?cids = "ChunkCIDs m" let ?inv = "local_inv st ?cids ds"
  have step: "\<exists>s'. fetch_step env st ?cids i s = Inr s' \<and> ?inv s'" if "?inv s" "i < length ?cids" for i s
    using local_inv_step [OF assms(6) that] .
  then have k: "keeps env st ?cids ?inv" and r: "runs env st ?cids ?inv"
    unfolding keeps_def runs_def by (metis sum.inject(2), blast)
  have i0: "?inv (init_fetch n ?cids)" using assms(5) by (simp add: local_inv_def init_fetch_def)
  obtain s where s: "batch_loop env st ?cids 0 (init_fetch n ?cids) = Inr s" using batch_loop_runs [OF k r i0] by blast
  have inv: "?inv s" by (rule batch_loop_inv [OF k i0 s])
  then have err: "fs_err s = None" by (simp add: local_inv_def)
  have "map Data (fs_blocks s) = ds"
  proof (rule nth_equalityI)
    show "length (map Data (fs_blocks s)) = length ds" using inv by (simp add: local_inv_def holds_locally_def)
    fix i assume "i < length (map Data (fs_blocks s))"
    then have i: "i < length ?cids" using inv by (simp add: local_inv_def)
    have "fs_phases s ! i = Finished" using batch_loop_finishes [OF s err _ _ i] by (simp add: init_fetch_def)
    then show "map Data (fs_blocks s) ! i = ds ! i" using inv i by (auto simp: local_inv_def)
  qed
  with assms(1-4) s err show ?thesis by (auto simp: handleFetch_def)
qed

section \<open>Publishing\<close>

lemma store_blocks_lookup:
  assumes "store_blocks os st bs fs = (None, fs')" and "\<forall>b\<in>set bs. slash_free (CID b)"
    and "\<forall>b\<in>set bs. \<forall>c\<in>set bs. CID b = CID c \<longrightarrow> Data b = Data c"
  shows "(\<forall>b\<in>set bs. store_lookup st fs' (CID b) = Some (Data b))
    \<and> (\<forall>k. slash_free k \<and> k \<notin> CID ` set bs \<longrightarrow> store_lookup st fs' k = store_lookup st fs k)"
  using assms
proof (induction bs arbitrary: fs)
  case (Cons b bs)
  obtain fs1 where put: "Store_Put os st b fs = (None, fs1)" and rest: "store_blocks os st bs fs1 = (None, fs')"
    using Cons.prems(1) by (auto split: prod.splits option.splits)
  have fs1: "fs1 = fs(blockPath st (CID b) \<mapsto> Data b)" using put by (simp add: Store_Put_cases split: write_outcome.splits)
  have IH: "(\<forall>b\<in>set bs. store_lookup st fs' (CID b) = Some (Data b))
    \<and> (\<forall>k. slash_free k \<and> k \<notin> CID ` set bs \<longrightarrow> store_lookup st fs' k = store_lookup st fs1 k)"
    by (rule Cons.IH [OF rest]) (use Cons.prems(2,3) in \<open>meson list.set_intros(2)\<close>)+
  have b: "store_lookup st fs' (CID b) = Some (Data b)"
  proof (cases "CID b \<in> CID ` set bs")
    case True
    then obtain c where c: "c \<in> set bs" "CID b = CID c" by blast
    have "Data b = Data c" using Cons.prems(3) c by (meson list.set_intros)
    with IH c show ?thesis by simp
  next
    case False
    with IH Cons.prems(2) fs1 show ?thesis by (simp add: store_lookup_def)
  qed
  have "store_lookup st fs1 k = store_lookup st fs k" if "slash_free k" "k \<noteq> CID b" for k
    using that Cons.prems(2) by (simp add: fs1 store_lookup_def blockPath_inject)
  with IH b show ?case by auto
qed simp

lemma publish_chunk_size_keeps:
  "publish_chunk_size env n data = (k, n1) \<Longrightarrow>
     ContentStore n1 = ContentStore n \<and> BlockCache n1 = BlockCache n \<and> Disk n1 = Disk n \<and> ContentRouter n1 = ContentRouter n"
  by (auto simp: publish_chunk_size_def Let_def split: if_splits prod.splits option.splits)

lemma handlePublish_Inr:
  assumes "handlePublish env method body n = (Inr resp, n', ann)"
  obtains st req data k n1 fs fs' m where "method = POST" "ContentStore n = Some st" "body = Some req"
    "pe_read env (FilePath req) = Some data" "publish_chunk_size env n data = (k, n1)" "0 < k"
    "store_blocks (pe_os env) st (map block_of (split_bytes (nat k - 1) data)) (Disk n) = (None, fs)"
    "m = publish_manifest env (req_Name req) data (map block_of (split_bytes (nat k - 1) data))"
    "PutManifest (pe_marshal env) (pe_os env) st m fs = (None, fs')"
    "resp = \<lparr>resp_RootCID = RootCID m, resp_Name = Name m, resp_TotalSize = TotalSize m, NumChunks = length (split_bytes (nat k - 1) data)\<rparr>"
    "n' = n1\<lparr>Disk := fs'\<rparr>" "ann = (if ContentRouter n then Some m else None)"
proof -
  from assms obtain st req data where 1: "method = POST" "ContentStore n = Some st" "body = Some req" "pe_read env (FilePath req) = Some data"
    by (auto simp: handlePublish_def split: if_splits option.splits)
  obtain k n1 where 2: "publish_chunk_size env n data = (k, n1)" by fastforce
  have k: "0 < k" using assms 1 2 by (cases "0 < k") (auto simp: handlePublish_def Chunk_def)
  let ?bs = "map block_of (split_bytes (nat k - 1) data)" let ?m = "publish_manifest env (req_Name req) data ?bs"
  note disk = publish_chunk_size_keeps [OF 2]
  obtain fs where 3: "store_blocks (pe_os env) st ?bs (Disk n) = (None, fs)"
    using assms 1 2 k disk by (auto simp: handlePublish_def Chunk_eof split: prod.splits option.splits)
  obtain fs' where 4: "PutManifest (pe_marshal env) (pe_os env) st ?m fs = (None, fs')"
    using assms 1 2 3 k disk by (auto simp: handlePublish_def Chunk_eof Let_def split: prod.splits option.splits)
  show thesis
    by (rule that [OF 1 2 k 3 refl 4]) (use assms 1 2 3 4 k disk in \<open>auto simp: handlePublish_def Chunk_eof Let_def\<close>)
qed

lemma publish_manifest_fields:
  "ChunkCIDs (publish_manifest env name data bs) = map CID bs"
  "RootCID (publish_manifest env name data bs) = hex_encode (sha256 (concat (map (bytes_of_string \<circ> CID) bs)))"
  "Name (publish_manifest env name data bs) = name"
  "TotalSize (publish_manifest env name data bs) = int (length data)"
  by (simp_all add: publish_manifest_def BuildManifest_def SignManifest_def Let_def)

lemma publish_manifest_verifies:
  assumes "\<forall>k. length (pe_pub env k) = 32" and "\<forall>k msg. pe_sign env k msg \<noteq> []"
    and "\<forall>k msg. verify (pe_pub env k) msg (pe_sign env k msg)"
  shows "Signature (publish_manifest env name data bs) \<noteq> [] \<longrightarrow> VerifyManifest verify (publish_manifest env name data bs) = Inr ()"
  using assms by (auto simp: publish_manifest_def Let_def BuildManifest_def intro!: Sign_then_Verify)

lemma publish_manifest_ascii:
  assumes "ascii name" and "m = publish_manifest env name data (map block_of ds)"
  shows "\<forall>s\<in>{RootCID m, Name m, PublisherID m, Signature m} \<union> set (ChunkCIDs m). ascii s"
proof -
  have "ascii []" by (simp add: ascii_def)
  with assms show ?thesis unfolding assms(2)
    by (auto simp: publish_manifest_def BuildManifest_def SignManifest_def Let_def)
qed

lemma split_bytes_sublist: "c \<in> set (split_bytes k d) \<Longrightarrow> sublist c d"
proof (induction k d rule: split_bytes.induct)
  case (2 k b bs)
  have "sublist (take (Suc k) (b # bs)) (b # bs)" by (rule sublist_take)
  moreover have "sublist c (b # bs)" if "sublist c (drop (Suc k) (b # bs))"
    using that sublist_drop sublist_order.order_trans by blast
  ultimately show ?case using 2 by auto
qed simp

text \<open>A successful publish leaves the chunks and the manifest on the disk.\<close>

lemma published_held:
  assumes "store_blocks os st (map block_of ds) (Disk n) = (None, fs)"
    and "PutManifest marshal os' st m fs = (None, fs')" and "ChunkCIDs m = map ComputeCID ds" and "slash_free (RootCID m)"
    and "inj_on ComputeCID (set ds \<union> ran (cache_view (BlockCache n)))" and "trusted (cache_view (BlockCache n)) slash_free"
  shows "holds_locally st (ChunkCIDs m) ds (n\<lparr>Disk := fs'\<rparr>)"
    and "\<exists>d. marshal m = Some d \<and> fs' (manifestPath st (RootCID m)) = Some d"
proof -
  obtain d where d: "marshal m = Some d" "fs' = fs(manifestPath st (RootCID m) \<mapsto> d)"
    using assms(2) by (auto simp: PutManifest_def os_WriteFile_def split: option.splits write_outcome.splits)
  then show "\<exists>d. marshal m = Some d \<and> fs' (manifestPath st (RootCID m)) = Some d" by simp
  have eq: "c = c'" if "c \<in> set ds" "c' \<in> set ds \<union> ran (cache_view (BlockCache n))" "ComputeCID c = ComputeCID c'" for c c'
    using assms(5) that by (auto dest: inj_onD)
  have "\<forall>b\<in>set (map block_of ds). store_lookup st fs (CID b) = Some (Data b)"
    using store_blocks_lookup [OF assms(1)] eq by fastforce
  then have "store_lookup st fs' (ComputeCID c) = Some c" if "c \<in> set ds" for c
    using that d(2) block_not_manifest [OF slash_free_ComputeCID assms(4)] by (simp add: store_lookup_def)
  moreover have "cache_view (BlockCache n) (ComputeCID c) \<in> {None, Some c}" if "c \<in> set ds" for c
  proof (cases "cache_view (BlockCache n) (ComputeCID c)")
    case (Some c')
    then have "ComputeCID c = ComputeCID c'" using assms(6) by (simp add: trusted_def)
    with eq [OF that, of c'] Some show ?thesis by (auto simp: ran_def)
  qed simp
  ultimately show "holds_locally st (ChunkCIDs m) ds (n\<lparr>Disk := fs'\<rparr>)" by (simp add: holds_locally_def assms(3))
qed

section \<open>Properties\<close>


definition wit_json_marshal :: "Manifest \<Rightarrow> bytes option" where
  "wit_json_marshal m = (if 0 \<le> TotalSize m
     then wit_marshal (RootCID m # Name m # PublisherID m # Signature m # replicate (nat (TotalSize m)) (CHR ''x'') # ChunkCIDs m) else None)"

definition wit_json_unmarshal :: "bytes \<Rightarrow> Manifest option" where
  "wit_json_unmarshal d = (case wit_unmarshal d of
     Some (r # nm # p # s # t # cs) \<Rightarrow> Some \<lparr>RootCID = r, Name = nm, TotalSize = int (length t), ChunkCIDs = cs, PublisherID = p, Signature = s\<rparr>
   | _ \<Rightarrow> None)"

lemma wit_json_roundtrip: "wit_json_marshal m = Some d \<Longrightarrow> wit_json_unmarshal d = Some m"
  using wit_json [of "RootCID m # Name m # PublisherID m # Signature m # replicate (nat (TotalSize m)) (CHR ''x'') # ChunkCIDs m"]
  by (auto simp: wit_json_marshal_def wit_json_unmarshal_def split: if_splits)

definition wit_fetch_env :: fetch_env where
  "wit_fetch_env = \<lparr>fe_os = os_ok, fe_unmarshal = wit_json_unmarshal, fe_verify = (\<lambda>pk msg sig. sig = pk @ msg),
     fe_net = (\<lambda>_. wit_net_env), fe_sched = (\<lambda>_. [])\<rparr>"

definition wit_manifest :: Manifest where
  "wit_manifest = \<lparr>RootCID = ''r'', Name = ''f'', TotalSize = 1, ChunkCIDs = [ComputeCID [7]], PublisherID = [], Signature = []\<rparr>"

definition wit_fetch_node :: Node where
  "wit_fetch_node = wit_node\<lparr>Disk := (Disk wit_node)(manifestPath wit_store ''r'' := wit_json_marshal wit_manifest)\<rparr>"

lemma wit_manifest_apart: "slash_free k \<Longrightarrow> blockPath wit_store k \<noteq> manifestPath wit_store ''r''"
  by (rule block_not_manifest) (simp_all add: slash_free_def)

lemma wit_fetch_node_holds: "holds_locally wit_store [ComputeCID [7]] [[7]] wit_fetch_node"
  by (simp add: holds_locally_def wit_fetch_node_def wit_node_def New_def cache_view_def store_lookup_def wit_manifest_apart)

lemma wit_fetch_runs: "\<exists>n'. handleFetch wit_fetch_env GET ''r'' wit_fetch_node = Inr (Inr [7], n')"
proof -
  obtain d where d: "wit_json_marshal wit_manifest = Some d"
    using wit_json [of "RootCID wit_manifest # Name wit_manifest # PublisherID wit_manifest # Signature wit_manifest
      # replicate (nat (TotalSize wit_manifest)) (CHR ''x'') # ChunkCIDs wit_manifest"]
    by (auto simp: wit_json_marshal_def wit_manifest_def)
  have st: "ContentStore wit_fetch_node = Some wit_store" by (simp add: wit_fetch_node_def wit_node_def)
  have m: "GetManifest (fe_unmarshal wit_fetch_env) (fe_os wit_fetch_env) wit_store ''r'' (Disk wit_fetch_node) = Inr wit_manifest"
    using wit_json_roundtrip [OF d] d by (simp add: GetManifest_def os_ReadFile_def wit_fetch_env_def os_ok_def wit_fetch_node_def)
  have "\<exists>n'. handleFetch wit_fetch_env GET ''r'' wit_fetch_node = Inr (Inr (concat [[7]]), n')"
    using wit_fetch_node_holds by (intro handleFetch_local [OF st _ m]) (simp_all add: wit_manifest_def wit_fetch_env_def os_ok_def)
  then show ?thesis by simp
qed

lemma wit_fetch_node_trusted: "node_trusted wit_fetch_node"
proof -
  have "k = ComputeCID d" if "slash_free k" "store_lookup wit_store (Disk wit_fetch_node) k = Some d" for k d
    using that by (auto simp: wit_fetch_node_def wit_node_def New_def store_lookup_def blockPath_inject wit_manifest_apart split: if_splits)
  then show ?thesis
    by (simp add: node_trusted_def cache_ok_def cache_view_def trusted_def wit_fetch_node_def wit_node_def New_def)
qed


lemma published_fetched:
  assumes "handlePublish env method (Some req) n = (Inr resp, n', ann)" and "pe_read env (FilePath req) = Some data"
    and "trusted (cache_view (BlockCache n)) slash_free"
    and "inj_on ComputeCID ({c. c \<noteq> [] \<and> sublist c data} \<union> ran (cache_view (BlockCache n)))"
    and "ascii (req_Name req)" and "\<forall>m d. (\<forall>s\<in>{RootCID m, Name m, PublisherID m, Signature m} \<union> set (ChunkCIDs m). ascii s) \<longrightarrow>
      pe_marshal env m = Some d \<longrightarrow> fe_unmarshal fenv d = Some m"
    and "\<forall>k. length (pe_pub env k) = 32" and "\<forall>k msg. pe_sign env k msg \<noteq> []"
    and "\<forall>k msg. fe_verify fenv (pe_pub env k) msg (pe_sign env k msg)"
    and "\<forall>p. \<not> os_read_fails (fe_os fenv) p"
  shows "\<exists>n''. handleFetch fenv GET (resp_RootCID resp) n' = Inr (Inr data, n'')"
  using assms(1)
proof (cases rule: handlePublish_Inr)
  case (1 st req' data' k n1 fs fs' m)
  let ?ds = "split_bytes (nat k - 1) data"
  have data: "req' = req" "data' = data" using 1(3,4) assms(2) by simp_all
  note keep = publish_chunk_size_keeps [OF 1(5)] and m = 1(8) [unfolded data]
  have cids: "ChunkCIDs m = map ComputeCID ?ds" and sf: "slash_free (RootCID m)" and ne: "RootCID m \<noteq> []"
    using arg_cong [OF length_sha256, of "\<lambda>x. x"] by (simp_all add: m publish_manifest_fields flip: length_0_conv)
  have "set ?ds \<subseteq> {c. c \<noteq> [] \<and> sublist c data}" using split_bytes_nonempty split_bytes_sublist by blast
  then have inj: "inj_on ComputeCID (set ?ds \<union> ran (cache_view (BlockCache n)))"
    by (intro inj_on_subset [OF assms(4)]) auto
  note pub = published_held [OF 1(7) [unfolded data] 1(9) cids sf inj assms(3)]
  have "GetManifest (fe_unmarshal fenv) (fe_os fenv) st (RootCID m) (Disk n') = Inr m"
    using pub(2) assms(6,10) publish_manifest_ascii [OF assms(5) m] by (auto simp: GetManifest_def os_ReadFile_def 1(11))
  moreover have "holds_locally st (ChunkCIDs m) ?ds n'" using pub(1) keep by (simp add: holds_locally_def 1(11))
  moreover have "ContentStore n' = Some st" using keep 1(2) by (simp add: 1(11))
  ultimately have "\<exists>n''. handleFetch fenv GET (RootCID m) n' = Inr (Inr (concat ?ds), n'')"
    using publish_manifest_verifies [OF assms(7-9)] assms(10) ne m by (intro handleFetch_local) auto
  then show ?thesis by (simp add: 1(10))
qed

text \<open>
  C4. Publish and fetch: after a file was published, fetching the root identifier of the reply returns
  its bytes, for every chunk size the node chose, whether or not it signs, and for every interleaving of
  the goroutines. Relied on: JSON reads back what it wrote for ASCII strings, Ed25519 accepts its own
  signatures, reading files does not fail, and SHA-256 has no collision between the pieces of this file
  and the cached blocks.
\<close>

theorem publish_then_fetch:
  assumes "handlePublish env method (Some req) n = (Inr resp, n', ann)" and "pe_read env (FilePath req) = Some data"
    and "trusted (cache_view (BlockCache n)) slash_free"
    and "inj_on ComputeCID ({c. c \<noteq> [] \<and> sublist c data} \<union> ran (cache_view (BlockCache n)))"
    and "ascii (req_Name req)" and "\<forall>m d. (\<forall>s\<in>{RootCID m, Name m, PublisherID m, Signature m} \<union> set (ChunkCIDs m). ascii s) \<longrightarrow>
      pe_marshal env m = Some d \<longrightarrow> fe_unmarshal fenv d = Some m"
    and "\<forall>k. length (pe_pub env k) = 32" and "\<forall>k msg. pe_sign env k msg \<noteq> []"
    and "\<forall>k msg. fe_verify fenv (pe_pub env k) msg (pe_sign env k msg)"
    and "\<forall>p. \<not> os_read_fails (fe_os fenv) p"
  shows "\<exists>n''. handleFetch fenv GET (resp_RootCID resp) n' = Inr (Inr data, n'')"
  by (rule published_fetched [OF assms])

definition wit_publish_env :: "byte publish_env" where
  "wit_publish_env = \<lparr>pe_os = os_ok, pe_read = (\<lambda>_. Some [7]), pe_peers = [], pe_iter = (\<lambda>_. []), pe_sel = (\<lambda>_. wit_sel),
     pe_key = replicate 32 5, pe_newKey = hd, pe_pub = (\<lambda>k. replicate 32 k), pe_sign = (\<lambda>k msg. replicate 32 k @ msg),
     pe_marshal = wit_json_marshal\<rparr>"

lemma wit_publish:
  "\<exists>resp n' ann. handlePublish wit_publish_env POST (Some \<lparr>FilePath = fp, req_Name = ''f''\<rparr>) wit_node = (Inr resp, n', ann)"
proof -
  let ?bs = "map block_of (split_bytes 262143 [7])"
  have k: "publish_chunk_size wit_publish_env wit_node [7] = (262144, wit_node)"
    by (simp add: publish_chunk_size_def wit_node_def New_def DefaultConfig_def)
  have b: "Chunk \<lparr>rd_data = [7], rd_fail = None\<rparr> 262144 = Inr ?bs" by (simp add: Chunk_eof del: split_bytes.simps)
  obtain fs where fs: "store_blocks os_ok wit_store ?bs (Disk wit_node) = (None, fs)"
    by (simp add: Store_Put_cases os_ok_def)
  let ?m = "publish_manifest wit_publish_env ''f'' [7] ?bs"
  have "TotalSize ?m = 1" by (simp add: publish_manifest_fields)
  then obtain d where "wit_json_marshal ?m = Some d"
    using wit_json [of "RootCID ?m # Name ?m # PublisherID ?m # Signature ?m # replicate (nat (TotalSize ?m)) (CHR ''x'') # ChunkCIDs ?m"]
    by (auto simp: wit_json_marshal_def)
  then obtain fs' where "PutManifest wit_json_marshal os_ok wit_store ?m fs = (None, fs')"
    by (simp add: PutManifest_def os_WriteFile_def os_ok_def)
  then show ?thesis using k b fs
    by (simp add: handlePublish_def wit_publish_env_def Let_def wit_node_def del: split_bytes.simps)
qed

theorem publish_then_fetch_witness:
  "\<exists>resp n' ann n''. handlePublish wit_publish_env POST (Some \<lparr>FilePath = ''p'', req_Name = ''f''\<rparr>) wit_node = (Inr resp, n', ann)
     \<and> handleFetch wit_fetch_env GET (resp_RootCID resp) n' = Inr (Inr [7], n'')"
proof -
  obtain resp n' ann where p: "handlePublish wit_publish_env POST (Some \<lparr>FilePath = ''p'', req_Name = ''f''\<rparr>) wit_node = (Inr resp, n', ann)"
    using wit_publish by blast
  have c: "BlockCache wit_node = None" by (simp add: wit_node_def New_def)
  have "{c. c \<noteq> [] \<and> sublist c [7 :: byte]} = {[7]}" by (auto simp: sublist_Cons_right prefix_Cons)
  then have "\<exists>n''. handleFetch wit_fetch_env GET (resp_RootCID resp) n' = Inr (Inr [7], n'')"
    by (intro publish_then_fetch [OF p, of "[7]" wit_fetch_env])
       (auto simp: wit_publish_env_def wit_fetch_env_def c cache_view_def trusted_def ran_def ascii_def os_ok_def intro: wit_json_roundtrip)
  with p show ?thesis by blast
qed

end
