(* ===== verification/Go_Format.thy ===== *)
theory Go_Format
  imports Store
begin

text \<open>
  Text as Go's \<^verbatim>\<open>strconv\<close>, \<^verbatim>\<open>fmt\<close> and \<^verbatim>\<open>time\<close> packages read and print it: integers, durations and fixed-point
  decimals, with \<open>nat_digits\<close> and \<open>int_digits\<close> of the store. A decimal is rounded to the nearest, ties to
  even, as Go does on the exact value.
\<close>

section \<open>Numbers\<close>

definition digit_value :: "char \<Rightarrow> nat option" where
  "digit_value c = (let v = of_char c :: nat in if 48 \<le> v \<and> v \<le> 57 then Some (v - 48) else None)"

fun digits_value :: "nat \<Rightarrow> string \<Rightarrow> nat option" where
  "digits_value acc [] = Some acc"
| "digits_value acc (c # cs) = (case digit_value c of None \<Rightarrow> None | Some v \<Rightarrow> digits_value (10 * acc + v) cs)"

text \<open>\<^verbatim>\<open>strconv.Atoi\<close>: an optional sign and decimal digits that fit 64 bits.\<close>

definition Atoi :: "string \<Rightarrow> int option" where
  "Atoi s =
     (let neg = (s \<noteq> [] \<and> hd s = CHR ''-''); ds = (if s \<noteq> [] \<and> hd s \<in> {CHR ''-'', CHR ''+''} then tl s else s)
      in if ds = [] then None
         else case digits_value 0 ds of
           None \<Rightarrow> None
         | Some v \<Rightarrow> (let i = (if neg then - int v else int v) in if - (2 ^ 63) \<le> i \<and> i < 2 ^ 63 then Some i else None))"

fun pad_digits :: "nat \<Rightarrow> nat \<Rightarrow> string" where
  "pad_digits 0 v = []"
| "pad_digits (Suc k) v = pad_digits k (v div 10) @ [char_of (48 + v mod 10)]"

definition fmtFrac :: "nat \<Rightarrow> nat \<Rightarrow> string" where
  "fmtFrac v prec =
     (let ds = rev (dropWhile (\<lambda>c. c = CHR ''0'') (rev (pad_digits prec v))) in if ds = [] then [] else ''.'' @ ds)"

definition round_half_even :: "real \<Rightarrow> int" where
  "round_half_even x =
     (let f = \<lfloor>x\<rfloor>; d = x - of_int f in if d < 1 / 2 then f else if 1 / 2 < d then f + 1 else if even f then f else f + 1)"

text \<open>\<^verbatim>\<open>strconv.FormatFloat(x, 'f', prec, 64)\<close> and the verb \<^verbatim>\<open>%.<prec>f\<close>.\<close>

definition fmt_fixed :: "nat \<Rightarrow> real \<Rightarrow> string" where
  "fmt_fixed prec x =
     (let v = nat (round_half_even (\<bar>x\<bar> * 10 ^ prec)) in
      (if x < 0 then ''-'' else []) @ nat_digits (v div 10 ^ prec)
      @ (if prec = 0 then [] else CHR ''.'' # pad_digits prec (v mod 10 ^ prec)))"

definition newline :: string where
  "newline = [CHR 0x0A]"

text \<open>
  The width of \<^verbatim>\<open>%8s\<close> and \<^verbatim>\<open>%-8s\<close> counts characters: bytes that do not continue one of UTF-8.
\<close>

definition rune_count :: "string \<Rightarrow> nat" where
  "rune_count s = length (filter (\<lambda>c. (of_char c :: nat) div 64 \<noteq> 2) s)"

definition pad_left :: "nat \<Rightarrow> string \<Rightarrow> string" where
  "pad_left w s = replicate (w - rune_count s) (CHR '' '') @ s"

definition pad_right :: "nat \<Rightarrow> string \<Rightarrow> string" where
  "pad_right w s = s @ replicate (w - rune_count s) (CHR '' '')"

section \<open>Durations\<close>

text \<open>\<^verbatim>\<open>time.Duration.String\<close>; the micro sign is two bytes.\<close>

definition Duration_String :: "duration \<Rightarrow> string" where
  "Duration_String d =
     (let u = nat \<bar>d\<bar>; sign = (if d < 0 then ''-'' else []) in
      if u = 0 then ''0s''
      else if u < 1000 then sign @ nat_digits u @ ''ns''
      else if u < 10 ^ 6 then sign @ nat_digits (u div 10 ^ 3) @ fmtFrac u 3 @ [char_of (194 :: nat), char_of (181 :: nat)] @ ''s''
      else if u < 10 ^ 9 then sign @ nat_digits (u div 10 ^ 6) @ fmtFrac u 6 @ ''ms''
      else let s = u div 10 ^ 9; m = s div 60; h = m div 60;
               hours = (if 0 < h then nat_digits h @ ''h'' else []);
               minutes = (if 0 < m then nat_digits (m mod 60) @ ''m'' else [])
           in sign @ hours @ minutes @ nat_digits (s mod 60) @ fmtFrac u 9 @ ''s'')"

definition Duration_Round :: "duration \<Rightarrow> duration \<Rightarrow> duration" where
  "Duration_Round m d =
     (if d < 0 then let r = (- d) mod m in if r + r < m then d + r else d - m + r
      else let r = d mod m in if r + r < m then d - r else d + m - r)"

section \<open>Lemmas\<close>

lemma length_pad_digits [simp]: "length (pad_digits k v) = k"
  by (induction k arbitrary: v) simp_all

lemma digit_value_digit: "d < 10 \<Longrightarrow> digit_value (char_of (48 + d :: nat)) = Some d"
  by (simp add: digit_value_def Let_def)

lemma digits_value_append:
  "digits_value acc (xs @ ys) = Option.bind (digits_value acc xs) (\<lambda>v. digits_value v ys)"
  by (induction xs arbitrary: acc) (auto split: option.split)

text \<open>What is printed is read back.\<close>

lemma digits_value_nat_digits: "digits_value 0 (nat_digits n) = Some n"
proof (induction n rule: nat_digits.induct)
  case (1 n)
  show ?case
  proof (cases "n < 10")
    case True
    then show ?thesis by (subst nat_digits.simps) (simp add: digit_value_digit)
  next
    case False
    with 1 show ?thesis by (subst nat_digits.simps) (simp add: digits_value_append digit_value_digit)
  qed
qed

lemma digits_value_pad_digits: "v < 10 ^ k \<Longrightarrow> digits_value acc (pad_digits k v) = Some (acc * 10 ^ k + v)"
proof (induction k arbitrary: v acc)
  case (Suc k)
  have "v div 10 < 10 ^ k" using Suc.prems by (simp add: less_mult_imp_div_less mult.commute)
  with Suc.IH [of "v div 10" acc] show ?case by (simp add: digits_value_append digit_value_digit algebra_simps)
qed simp

lemma round_half_even_close: "\<bar>x - of_int (round_half_even x)\<bar> \<le> 1 / 2"
  by (simp add: round_half_even_def Let_def)

end
