(* ===== verification/Handlers.thy ===== *)
theory Handlers
  imports API Go_Format
begin

text \<open>
  The other handlers of the HTTP interface (\<^verbatim>\<open>internal/node/api.go\<close>) and the display helpers of
  \<^verbatim>\<open>internal/node/node.go\<close>: peers, pings, paths, manifests, providers, pins and the status. A reply is
  the value that the server encodes as JSON. What libp2p reports about connections is an argument, as
  are the parser of peer identifiers and the time zone of printed times; an error that is printed into
  a reply is represented by its value.
\<close>

section \<open>Peers and status\<close>

record PeerInfo =
  pinfo_ID :: string
  pinfo_Addrs :: "string list"
  Protocols :: "string list"

record host_view =
  hv_peers :: "peer_id list"
  hv_conns :: "peer_id \<Rightarrow> string list"
  hv_protocols :: "peer_id \<Rightarrow> string list"
  hv_addrs :: "string list"

definition PeerID :: "Node \<Rightarrow> string" where
  "PeerID n = (case Host n of None \<Rightarrow> [] | Some self \<Rightarrow> self)"

definition ConnectedPeers :: "host_view \<Rightarrow> Node \<Rightarrow> PeerInfo list" where
  "ConnectedPeers hv n =
     (case Host n of
        None \<Rightarrow> []
      | Some self \<Rightarrow> map (\<lambda>p. \<lparr>pinfo_ID = p, pinfo_Addrs = hv_conns hv p, Protocols = hv_protocols hv p\<rparr>) (hv_peers hv))"

definition handlePeers :: "host_view \<Rightarrow> http_method \<Rightarrow> Node \<Rightarrow> http_status + PeerInfo list" where
  "handlePeers hv method n = (if method \<noteq> GET then Inl StatusMethodNotAllowed else Inr (ConnectedPeers hv n))"

record status =
  st_PeerID :: string
  st_Uptime :: string
  NumPeers :: nat
  Addresses :: "string list"
  st_Policy :: string

definition handleStatus :: "host_view \<Rightarrow> duration \<Rightarrow> http_method \<Rightarrow> Node \<Rightarrow> go_panic + http_status + status" where
  "handleStatus hv uptime method n =
     (if method \<noteq> GET then Inr (Inl StatusMethodNotAllowed)
      else case Host n of
        None \<Rightarrow> Inl NilDereference
      | Some self \<Rightarrow>
          Inr (Inr \<lparr>st_PeerID = PeerID n, st_Uptime = Duration_String (Duration_Round Second uptime), NumPeers = length (hv_peers hv),
                    Addresses = hv_addrs hv, st_Policy = (case PathManager n of None \<Rightarrow> [] | Some pm \<Rightarrow> Manager_PolicyName pm)\<rparr>))"

section \<open>Pings\<close>

record pingResult =
  ping_RTT :: string
  ping_Error :: "ping_error option"

definition ping_count :: "string \<Rightarrow> int" where
  "ping_count c =
     (if c \<noteq> [] then (case Atoi c of Some parsed \<Rightarrow> if 0 < parsed \<and> parsed \<le> 100 then parsed else 5 | None \<Rightarrow> 5) else 5)"

definition ping_json :: "PingResult \<Rightarrow> pingResult" where
  "ping_json res =
     (case pr_Err res of
        Some e \<Rightarrow> \<lparr>ping_RTT = [], ping_Error = Some e\<rparr>
      | None \<Rightarrow> \<lparr>ping_RTT = Duration_String (pr_RTT res), ping_Error = None\<rparr>)"

definition handlePing ::
  "(string \<Rightarrow> peer_id option) \<Rightarrow> network \<Rightarrow> (nat \<Rightarrow> ping_env) \<Rightarrow> http_method \<Rightarrow> string \<Rightarrow> string \<Rightarrow> http_status + pingResult list" where
  "handlePing decode net env method peerIDStr c =
     (if method \<noteq> GET then Inl StatusMethodNotAllowed
      else if peerIDStr = [] then Inl StatusBadRequest
      else case decode peerIDStr of
        None \<Rightarrow> Inl StatusBadRequest
      | Some target \<Rightarrow> Inr (map ping_json (SendPings net env target (ping_count c))))"

section \<open>Paths\<close>

record pathInfoJSON =
  pj_ID :: string
  pj_Target :: string
  pj_Type :: string
  pj_RelayChain :: "string list"
  pj_AvgRTT :: string
  pj_HopCount :: int
  pj_SuccessRate :: real
  pj_SampleCount :: int
  pj_LastProbed :: string

definition pathToJSON :: "(int \<Rightarrow> string) \<Rightarrow> Path \<Rightarrow> pathInfoJSON" where
  "pathToJSON rfc3339 p =
     (let lastProbed = (if LastProbed (p_Metrics p) = 0 then [] else rfc3339 (LastProbed (p_Metrics p))) in
      \<lparr>pj_ID = p_ID p, pj_Target = p_Target p, pj_Type = (case p_Type p of PathDirect \<Rightarrow> ''direct'' | PathRelay \<Rightarrow> ''relay''),
       pj_RelayChain = p_RelayChain p, pj_AvgRTT = Duration_String (AvgRTT (p_Metrics p)), pj_HopCount = HopCount (p_Metrics p),
       pj_SuccessRate = SuccessRate (p_Metrics p), pj_SampleCount = SampleCount (p_Metrics p), pj_LastProbed = lastProbed\<rparr>)"

record path_iter =
  it_paths :: "peer_id \<Rightarrow> string list"
  it_peers :: "peer_id list"

definition handlePaths ::
  "(string \<Rightarrow> peer_id option) \<Rightarrow> (int \<Rightarrow> string) \<Rightarrow> path_iter \<Rightarrow> http_method \<Rightarrow> string \<Rightarrow> Node \<Rightarrow>
     http_status + string \<times> pathInfoJSON list" where
  "handlePaths decode rfc3339 it method peerIDStr n =
     (if method \<noteq> GET then Inl StatusMethodNotAllowed
      else case PathManager n of
        None \<Rightarrow> Inl StatusServiceUnavailable
      | Some pm \<Rightarrow>
          (let reply = (\<lambda>paths. Inr (Manager_PolicyName pm, map (pathToJSON rfc3339) paths)) in
           if peerIDStr \<noteq> [] then
             (case decode peerIDStr of
                None \<Rightarrow> Inl StatusBadRequest
              | Some target \<Rightarrow> reply (Manager_Paths (it_paths it target) pm target))
           else let allPaths = Manager_AllPaths (it_paths it) pm
                in reply (concat (map (\<lambda>pid. the (allPaths pid)) (map_range (it_peers it) allPaths)))))"

section \<open>Providers, manifests\<close>

definition handleFindProviders ::
  "('d, 'c) dht \<Rightarrow> 'd \<Rightarrow> http_method \<Rightarrow> cid \<Rightarrow> Node \<Rightarrow> http_status + AddrInfo list" where
  "handleFindProviders D d method cidStr n =
     (if method \<noteq> GET then Inl StatusMethodNotAllowed
      else if \<not> ContentRouter n then Inl StatusServiceUnavailable
      else if cidStr = [] then Inl StatusBadRequest
      else case FindProviders D d cidStr 20 of Inl e \<Rightarrow> Inl StatusInternalServerError | Inr providers \<Rightarrow> Inr providers)"

record manifest_response =
  mr_RootCID :: cid
  mr_Name :: string
  mr_TotalSize :: int
  mr_NumChunks :: nat
  mr_ChunkCIDs :: "cid list"
  mr_PublisherID :: string
  Signed :: bool
  Verified :: bool

definition handleManifest :: "fetch_env \<Rightarrow> http_method \<Rightarrow> cid \<Rightarrow> Node \<Rightarrow> http_status + manifest_response" where
  "handleManifest env method rootCID n =
     (if method \<noteq> GET then Inl StatusMethodNotAllowed
      else case ContentStore n of
        None \<Rightarrow> Inl StatusServiceUnavailable
      | Some st \<Rightarrow>
          (if rootCID = [] then Inl StatusBadRequest
           else case GetManifest (fe_unmarshal env) (fe_os env) st rootCID (Disk n) of
             Inl err \<Rightarrow> Inl StatusNotFound
           | Inr manifest \<Rightarrow>
               (let verified = (Signature manifest \<noteq> [] \<and> VerifyManifest (fe_verify env) manifest = Inr ()) in
                Inr \<lparr>mr_RootCID = RootCID manifest, mr_Name = Name manifest, mr_TotalSize = TotalSize manifest,
                     mr_NumChunks = length (ChunkCIDs manifest), mr_ChunkCIDs = ChunkCIDs manifest,
                     mr_PublisherID = PublisherID manifest, Signed = (Signature manifest \<noteq> []), Verified = verified\<rparr>)))"

section \<open>Pins\<close>

datatype pin_reply = Pinned cid | Unpinned cid

definition handlePin ::
  "(cid list \<Rightarrow> bytes option) \<Rightarrow> cid list \<Rightarrow> os \<Rightarrow> http_method \<Rightarrow> cid option \<Rightarrow> Node \<Rightarrow> (http_status + pin_reply) \<times> Node" where
  "handlePin marshal iter os method body n =
     (case ContentStore n of
        None \<Rightarrow> (Inl StatusServiceUnavailable, n)
      | Some st \<Rightarrow>
          (case method of
             POST \<Rightarrow>
               (case body of
                  None \<Rightarrow> (Inl StatusBadRequest, n)
                | Some cid \<Rightarrow>
                    (if cid = [] then (Inl StatusBadRequest, n)
                     else case Store_Pin marshal iter os st cid (Disk n) of
                       (err, st', fs') \<Rightarrow>
                         (if err \<noteq> None then Inl StatusInternalServerError else Inr (Pinned cid),
                          n\<lparr>ContentStore := Some st', Disk := fs'\<rparr>)))
           | DELETE \<Rightarrow>
               (case body of
                  None \<Rightarrow> (Inl StatusBadRequest, n)
                | Some cid \<Rightarrow>
                    (if cid = [] then (Inl StatusBadRequest, n)
                     else case Store_Unpin marshal iter os st cid (Disk n) of
                       (err, st', fs') \<Rightarrow>
                         (if err \<noteq> None then Inl StatusInternalServerError else Inr (Unpinned cid),
                          n\<lparr>ContentStore := Some st', Disk := fs'\<rparr>)))
           | _ \<Rightarrow> (Inl StatusMethodNotAllowed, n)))"

definition handleListPins :: "cid list \<Rightarrow> http_method \<Rightarrow> Node \<Rightarrow> http_status + cid list" where
  "handleListPins iter method n =
     (if method \<noteq> GET then Inl StatusMethodNotAllowed
      else case ContentStore n of None \<Rightarrow> Inl StatusServiceUnavailable | Some st \<Rightarrow> Inr (ListPinned iter st))"

section \<open>Lemmas\<close>

lemma ping_count_bounds: "1 \<le> ping_count c \<and> ping_count c \<le> 100"
  by (simp add: ping_count_def split: option.split)

lemma length_pings_loop: "length results + min k 1 \<le> length (pings_loop net env t k i results)
    \<and> length (pings_loop net env t k i results) \<le> length results + k"
  by (induction net env t k i results rule: pings_loop.induct) auto

text \<open>A ping request sends between one and a hundred pings, whatever count it names.\<close>

lemma handlePing_bounds:
  assumes "handlePing decode net env method p c = Inr rs"
  shows "1 \<le> length rs \<and> length rs \<le> 100"
proof -
  obtain t where "rs = map ping_json (pings_loop net env t (nat (ping_count c)) 0 [])"
    using assms by (auto simp: handlePing_def SendPings_def split: if_splits option.splits)
  then show ?thesis using length_pings_loop [of "[]" "nat (ping_count c)" net env t 0] ping_count_bounds [of c] by auto
qed

text \<open>A path report for all peers lists the paths of every peer.\<close>

lemma handlePaths_all:
  assumes "PathManager n = Some pm" and "enumerates (it_peers it) (pathSets pm)"
    and "\<forall>t ps. pathSets pm t = Some ps \<longrightarrow> enumerates (it_paths it t) ps"
    and "handlePaths decode rfc3339 it GET [] n = Inr (policy, js)"
  shows "policy = Manager_PolicyName pm \<and> set js = {pathToJSON rfc3339 p |p. \<exists>t ps. pathSets pm t = Some ps \<and> p \<in> ran ps}"
proof -
  have e: "enumerates (it_peers it) (Manager_AllPaths (it_paths it) pm)"
    using assms(2) by (auto simp: enumerates_def Manager_AllPaths_def)
  have "set js = pathToJSON rfc3339 ` (\<Union>t\<in>dom (Manager_AllPaths (it_paths it) pm). set (the (Manager_AllPaths (it_paths it) pm t)))"
    using assms(1,4) unfolding set_map_range [OF e, symmetric] by (clarsimp simp: handlePaths_def Let_def)
  moreover have "set (the (Manager_AllPaths (it_paths it) pm t)) = ran ps" if "pathSets pm t = Some ps" for t ps
    using that assms(3) set_PathSet_All [of "it_paths it t" ps] by (simp add: Manager_AllPaths_def)
  ultimately have "set js = {pathToJSON rfc3339 p |p. \<exists>t ps. pathSets pm t = Some ps \<and> p \<in> ran ps}"
    by (fastforce simp: Manager_AllPaths_def dom_def)
  then show ?thesis using assms(1,4) by (auto simp: handlePaths_def Let_def)
qed

text \<open>A manifest is reported as verified only if it is signed and served by \<open>handleFetch\<close>.\<close>

lemma handleManifest_verified:
  assumes "handleManifest env method rootCID n = Inr r"
  shows "Verified r \<longrightarrow> Signed r"
    and "Signed r \<and> \<not> Verified r \<Longrightarrow> handleFetch env GET rootCID n = Inr (Inl StatusForbidden, n)"
  using assms by (auto simp: handleManifest_def handleFetch_def Let_def split: if_splits option.splits sum.splits)

section \<open>Properties\<close>

text \<open>
  C32. Pin requests: a POST sets the pin of its identifier and of no other and a DELETE removes it; the
  list of pins then shows exactly the pins in force. The pin set changes even when saving it fails and
  the request is answered with an internal error, which happens exactly when it could not be saved.
\<close>

theorem pin_requests:
  assumes "ContentStore n = Some st" and "store_at dd st" and "cid \<noteq> []"
    and "handlePin marshal iter os POST (Some cid) n = (r1, n1)"
    and "handlePin marshal iter os DELETE (Some cid) n = (r2, n2)"
    and "distinct iter'" and "insert cid (dom (pins st)) \<subseteq> set iter'"
  shows "\<exists>st1 st2. ContentStore n1 = Some st1 \<and> ContentStore n2 = Some st2
    \<and> (\<exists>l. handleListPins iter' GET n1 = Inr l \<and> distinct l \<and> set l = {k. Store_IsPinned st1 k})
    \<and> (\<exists>l. handleListPins iter' GET n2 = Inr l \<and> distinct l \<and> set l = {k. Store_IsPinned st2 k})
    \<and> (\<forall>k. Store_IsPinned st1 k \<longleftrightarrow> k = cid \<or> Store_IsPinned st k)
    \<and> (\<forall>k. Store_IsPinned st2 k \<longleftrightarrow> k \<noteq> cid \<and> Store_IsPinned st k)
    \<and> r1 = (if fst (savePins marshal iter os st1 (Disk n)) = None then Inr (Pinned cid) else Inl StatusInternalServerError)
    \<and> r2 = (if fst (savePins marshal iter os st2 (Disk n)) = None then Inr (Unpinned cid) else Inl StatusInternalServerError)"
proof -
  let ?st1 = "st\<lparr>pins := (pins st)(cid \<mapsto> True)\<rparr>" and ?st2 = "st\<lparr>pins := (pins st)(cid := None)\<rparr>"
  have c: "ContentStore n1 = Some ?st1" "ContentStore n2 = Some ?st2"
    and r: "r1 = (if fst (savePins marshal iter os ?st1 (Disk n)) = None then Inr (Pinned cid) else Inl StatusInternalServerError)"
      "r2 = (if fst (savePins marshal iter os ?st2 (Disk n)) = None then Inr (Unpinned cid) else Inl StatusInternalServerError)"
    using assms(1,3,4,5) by (auto simp: handlePin_def Store_Pin_def Store_Unpin_def Let_def split: prod.splits if_splits)
  have at: "store_at dd ?st1" "store_at dd ?st2"
    using store_at_Pin [OF assms(2), of marshal iter os cid "Disk n"] store_at_Unpin [OF assms(2), of marshal iter os cid "Disk n"]
    by (simp_all add: Store_Pin_def Store_Unpin_def Let_def split: prod.splits)
  have l: "\<exists>l. handleListPins iter' GET m = Inr l \<and> distinct l \<and> set l = {k. Store_IsPinned t k}"
    if "ContentStore m = Some t" "store_at dd t" "dom (pins t) \<subseteq> insert cid (dom (pins st))" for m t
  proof -
    have e: "enumerates iter' (pins t)" using assms(6,7) that(3) by (auto simp: enumerates_def)
    show ?thesis using set_map_range [OF e] distinct_map_range [OF e] IsPinned_dom [OF that(2)]
      by (auto simp: handleListPins_def that(1) ListPinned_def)
  qed
  have pin: "\<forall>k. Store_IsPinned ?st1 k \<longleftrightarrow> k = cid \<or> Store_IsPinned st k"
    "\<forall>k. Store_IsPinned ?st2 k \<longleftrightarrow> k \<noteq> cid \<and> Store_IsPinned st k"
    by (auto simp: Store_IsPinned_def)
  have "dom (pins ?st1) \<subseteq> insert cid (dom (pins st))" "dom (pins ?st2) \<subseteq> insert cid (dom (pins st))" by auto
  note ll = l [OF c(1) at(1) this(1)] l [OF c(2) at(2) this(2)]
  show ?thesis by (intro exI [of _ ?st1] exI [of _ ?st2] conjI c r ll pin)
qed

theorem pin_requests_witness:
  "\<exists>n1. handlePin wit_marshal [''k''] wit_disk_full POST (Some ''k'') (wit_node\<lparr>Disk := (\<lambda>_. None)\<rparr>) = (Inl StatusInternalServerError, n1)
     \<and> handleListPins [''k''] GET n1 = Inr [''k'']"
proof -
  let ?n = "wit_node\<lparr>Disk := (\<lambda>_. None)\<rparr>"
  obtain r1 n1 where r1: "handlePin wit_marshal [''k''] wit_disk_full POST (Some ''k'') ?n = (r1, n1)" by fastforce
  obtain r2 n2 where r2: "handlePin wit_marshal [''k''] wit_disk_full DELETE (Some ''k'') ?n = (r2, n2)" by fastforce
  have st: "ContentStore ?n = Some wit_store" by (simp add: wit_node_def)
  have "fst (savePins wit_marshal [''k''] wit_disk_full t (Disk ?n)) = Some WritePins" for t
    by (simp add: savePins_def wit_marshal_def os_WriteFile_def wit_disk_full_def)
  then obtain l where l: "r1 = Inl StatusInternalServerError" "handleListPins [''k''] GET n1 = Inr l" "distinct l" "set l = {''k''}"
    using pin_requests [OF st wit_store_at _ r1 r2, of "[''k'']"] by (auto simp: Store_IsPinned_def wit_store_def)
  then have "l = [''k'']" by (cases l; cases "tl l") auto
  with r1 l show ?thesis by simp
qed

end
