(* ===== verification/Server.thy ===== *)
theory Server
  imports Handlers
begin

text \<open>
  The HTTP server of the daemon (\<^verbatim>\<open>NewAPI\<close> in \<^verbatim>\<open>internal/node/api.go\<close>): the table of routes and the dispatch of a
  request to its handler, with the query of the URL parsed as \<^verbatim>\<open>net/url\<close> does it and the path matched as
  \<^verbatim>\<open>http.ServeMux\<close> does. What a handler meets and the decoding of JSON bodies are arguments.
\<close>

section \<open>URLs and queries\<close>

definition has_ctl :: "string \<Rightarrow> bool" where
  "has_ctl s = list_ex (\<lambda>c. (of_char c :: nat) < 32 \<or> (of_char c :: nat) = 127) s"

text \<open>\<^verbatim>\<open>strings.Cut\<close> at the first separator.\<close>

definition cut :: "char \<Rightarrow> string \<Rightarrow> string \<times> string" where
  "cut c s = (takeWhile (\<lambda>x. x \<noteq> c) s, tl (dropWhile (\<lambda>x. x \<noteq> c) s))"

text \<open>\<^verbatim>\<open>url.unescape\<close>; in a query (\<open>inq\<close>) a plus sign is a space.\<close>

fun unescape :: "bool \<Rightarrow> string \<Rightarrow> string option" where
  "unescape inq [] = Some []"
| "unescape inq (c # cs) =
     (if c = CHR ''%'' then
        (case cs of
           a # b # ds \<Rightarrow>
             (case (hex_value a, hex_value b, unescape inq ds) of
                (Some x, Some y, Some ds') \<Rightarrow> Some (char_of (16 * x + y) # ds')
              | _ \<Rightarrow> None)
         | _ \<Rightarrow> None)
      else map_option (\<lambda>cs'. (if inq \<and> c = CHR ''+'' then CHR '' '' else c) # cs') (unescape inq cs))"

fun split_amp :: "string \<Rightarrow> string list" where
  "split_amp [] = [[]]"
| "split_amp (c # cs) =
     (if c = CHR ''&'' then [] # split_amp cs
      else case split_amp cs of [] \<Rightarrow> [[c]] | p # ps \<Rightarrow> (c # p) # ps)"

definition parse_pair :: "string \<Rightarrow> (string \<times> string) option" where
  "parse_pair s =
     (if s = [] \<or> CHR '';'' \<in> set s then None
      else case cut (CHR ''='') s of (k, v) \<Rightarrow>
        (case (unescape True k, unescape True v) of (Some k', Some v') \<Rightarrow> Some (k', v') | _ \<Rightarrow> None))"

text \<open>\<^verbatim>\<open>r.URL.Query().Get(key)\<close>.\<close>

definition query_value :: "string \<Rightarrow> string \<Rightarrow> string" where
  "query_value key q =
     (case find (\<lambda>(k, v). k = key) (List.map_filter parse_pair (split_amp q)) of None \<Rightarrow> [] | Some (k, v) \<Rightarrow> v)"

section \<open>Routes\<close>

datatype api_handler =
    HandlePeers | HandlePing | HandlePaths | HandlePublish | HandleFetch | HandleManifest | HandleFindProviders
  | HandlePin | HandleListPins | HandleStatus | HandleHealth

definition api_routes :: "(string \<times> api_handler) list" where
  "api_routes =
     [(''/api/v1/peers'', HandlePeers), (''/api/v1/ping'', HandlePing), (''/api/v1/paths'', HandlePaths),
      (''/api/v1/publish'', HandlePublish), (''/api/v1/fetch'', HandleFetch), (''/api/v1/manifest'', HandleManifest),
      (''/api/v1/find'', HandleFindProviders), (''/api/v1/pin'', HandlePin), (''/api/v1/pins'', HandleListPins),
      (''/api/v1/status'', HandleStatus), (''/health'', HandleHealth)]"

text \<open>
  \<^verbatim>\<open>http.ServeMux\<close> on patterns without a trailing slash: a path that is not in its clean form is redirected, a
  clean one is looked up exactly.
\<close>

definition clean_path :: "string \<Rightarrow> string" where
  "clean_path p =
     (if p = [] then ''/''
      else let q = (if hd p = CHR ''/'' then p else CHR ''/'' # p); np = path_Clean q in
        if last q = CHR ''/'' \<and> np \<noteq> ''/'' then np @ ''/'' else np)"

datatype route = Redirect | NoRoute | To api_handler

definition mux_handler :: "string \<Rightarrow> route" where
  "mux_handler p =
     (if clean_path p \<noteq> p then Redirect
      else case map_of api_routes p of None \<Rightarrow> NoRoute | Some h \<Rightarrow> To h)"

section \<open>Requests\<close>

record http_request =
  r_method :: http_method
  r_path :: string
  r_query :: string
  r_body :: bytes

datatype http_reply =
    PeersReply "PeerInfo list" | PingReply "pingResult list" | PathsReply "string \<times> pathInfoJSON list" | PublishReply publish_response
  | FetchReply bytes | ManifestReply manifest_response | FindReply "AddrInfo list" | PinReply pin_reply | PinsReply "cid list"
  | StatusReply status | HealthReply | Moved

record ('k, 'd, 'c) server_env =
  sv_publish :: "'k publish_env"
  sv_publish_body :: "bytes \<Rightarrow> publish_request option"
  sv_fetch :: fetch_env
  sv_pin_body :: "bytes \<Rightarrow> cid option"
  sv_marshal :: "cid list \<Rightarrow> bytes option"
  sv_pin_iter :: "cid list"
  sv_os :: os
  sv_host :: host_view
  sv_uptime :: duration
  sv_decode :: "string \<Rightarrow> peer_id option"
  sv_net :: network
  sv_ping :: "nat \<Rightarrow> ping_env"
  sv_rfc3339 :: "int \<Rightarrow> string"
  sv_paths :: path_iter
  sv_dht :: "('d, 'c) dht"
  sv_dht_state :: 'd

text \<open>The reply, the node, and the manifest that is announced in the background.\<close>

type_synonym outcome = "go_panic + (http_status + http_reply) \<times> Node \<times> Manifest option"

definition answer :: "('a \<Rightarrow> http_reply) \<Rightarrow> Node \<Rightarrow> http_status + 'a \<Rightarrow> outcome" where
  "answer f n r = Inr (case r of Inl s \<Rightarrow> Inl s | Inr x \<Rightarrow> Inr (f x), n, None)"

fun run_handler :: "('k, 'd, 'c) server_env \<Rightarrow> api_handler \<Rightarrow> http_request \<Rightarrow> Node \<Rightarrow> outcome" where
  "run_handler sv HandlePeers r n = answer PeersReply n (handlePeers (sv_host sv) (r_method r) n)"
| "run_handler sv HandlePing r n =
     answer PingReply n (handlePing (sv_decode sv) (sv_net sv) (sv_ping sv) (r_method r)
       (query_value ''peer'' (r_query r)) (query_value ''count'' (r_query r)))"
| "run_handler sv HandlePaths r n =
     answer PathsReply n (handlePaths (sv_decode sv) (sv_rfc3339 sv) (sv_paths sv) (r_method r) (query_value ''peer'' (r_query r)) n)"
| "run_handler sv HandlePublish r n =
     (case handlePublish (sv_publish sv) (r_method r) (sv_publish_body sv (r_body r)) n of
        (Inl s, n', ann) \<Rightarrow> Inr (Inl s, n', ann)
      | (Inr resp, n', ann) \<Rightarrow> Inr (Inr (PublishReply resp), n', ann))"
| "run_handler sv HandleFetch r n =
     (case handleFetch (sv_fetch sv) (r_method r) (query_value ''cid'' (r_query r)) n of
        Inl p \<Rightarrow> Inl p
      | Inr (reply, n') \<Rightarrow> answer FetchReply n' reply)"
| "run_handler sv HandleManifest r n =
     answer ManifestReply n (handleManifest (sv_fetch sv) (r_method r) (query_value ''cid'' (r_query r)) n)"
| "run_handler sv HandleFindProviders r n =
     answer FindReply n (handleFindProviders (sv_dht sv) (sv_dht_state sv) (r_method r) (query_value ''cid'' (r_query r)) n)"
| "run_handler sv HandlePin r n =
     (case handlePin (sv_marshal sv) (sv_pin_iter sv) (sv_os sv) (r_method r) (sv_pin_body sv (r_body r)) n of
        (reply, n') \<Rightarrow> answer PinReply n' reply)"
| "run_handler sv HandleListPins r n = answer PinsReply n (handleListPins (sv_pin_iter sv) (r_method r) n)"
| "run_handler sv HandleStatus r n =
     (case handleStatus (sv_host sv) (sv_uptime sv) (r_method r) n of Inl p \<Rightarrow> Inl p | Inr reply \<Rightarrow> answer StatusReply n reply)"
| "run_handler sv HandleHealth r n = Inr (Inr HealthReply, n, None)"

definition ServeHTTP :: "('k, 'd, 'c) server_env \<Rightarrow> http_request \<Rightarrow> Node \<Rightarrow> outcome" where
  "ServeHTTP sv r n =
     (case mux_handler (r_path r) of
        Redirect \<Rightarrow> Inr (Inr Moved, n, None)
      | NoRoute \<Rightarrow> Inr (Inl StatusNotFound, n, None)
      | To h \<Rightarrow> run_handler sv h r n)"

section \<open>Lemmas: routes\<close>

lemma api_routes_distinct: "distinct (map fst api_routes)"
  by (simp add: api_routes_def)

lemma mux_handler_routes: "\<forall>(p, h)\<in>set api_routes. mux_handler p = To h"
  by code_simp

lemma mux_handler_To: "mux_handler p = To h \<longleftrightarrow> (p, h) \<in> set api_routes"
  using mux_handler_routes map_of_SomeD [of api_routes p h]
  by (auto simp: mux_handler_def split: if_splits option.splits)

text \<open>The only requests that change the node.\<close>

definition writes :: "http_request \<Rightarrow> bool" where
  "writes r \<longleftrightarrow> (r_path r, r_method r) \<in>
     {(''/api/v1/publish'', POST), (''/api/v1/fetch'', GET), (''/api/v1/pin'', POST), (''/api/v1/pin'', DELETE)}"

lemma ServeHTTP_cases:
  assumes "ServeHTTP sv r n = Inr (reply, n', ann)"
  obtains (same) "n' = n" "ann = None"
  | (publish) reply' where "r_path r = ''/api/v1/publish''"
      "handlePublish (sv_publish sv) (r_method r) (sv_publish_body sv (r_body r)) n = (reply', n', ann)"
      "reply = (case reply' of Inl s \<Rightarrow> Inl s | Inr resp \<Rightarrow> Inr (PublishReply resp))"
  | (fetch) reply' where "r_path r = ''/api/v1/fetch''" "ann = None"
      "handleFetch (sv_fetch sv) (r_method r) (query_value ''cid'' (r_query r)) n = Inr (reply', n')"
  | (pin) reply' where "r_path r = ''/api/v1/pin''" "ann = None"
      "handlePin (sv_marshal sv) (sv_pin_iter sv) (sv_os sv) (r_method r) (sv_pin_body sv (r_body r)) n = (reply', n')"
proof (cases "mux_handler (r_path r)")
  case (To h)
  then have p: "(r_path r, h) \<in> set api_routes" by (simp add: mux_handler_To)
  have run: "run_handler sv h r n = Inr (reply, n', ann)" using assms To by (simp add: ServeHTTP_def)
  show thesis
  proof (cases h)
    case HandlePublish
    with p have "r_path r = ''/api/v1/publish''" by (simp add: api_routes_def)
    with run HandlePublish publish show thesis by (auto split: prod.splits sum.splits)
  next
    case HandleFetch
    with p have "r_path r = ''/api/v1/fetch''" by (simp add: api_routes_def)
    with run HandleFetch fetch show thesis by (auto simp: answer_def split: prod.splits sum.splits)
  next
    case HandlePin
    with p have "r_path r = ''/api/v1/pin''" by (simp add: api_routes_def)
    with run HandlePin pin show thesis by (auto simp: answer_def split: prod.splits)
  qed (use run same in \<open>auto simp: answer_def split: sum.splits\<close>)
qed (use assms same in \<open>auto simp: ServeHTTP_def\<close>)

lemma handler_guards:
  "handlePublish penv meth body n = (reply, n', ann) \<Longrightarrow> n' \<noteq> n \<or> ann \<noteq> None \<Longrightarrow> meth = POST"
  "handleFetch fenv meth cid n = Inr (reply', n') \<Longrightarrow> n' \<noteq> n \<Longrightarrow> meth = GET"
  "handlePin marshal iter os meth pinned n = (reply'', n') \<Longrightarrow> n' \<noteq> n \<Longrightarrow> meth = POST \<or> meth = DELETE"
  by (auto simp: handlePublish_def handleFetch_def handlePin_def split: if_splits option.splits http_method.splits)

lemma announced_only_on_success:
  assumes "handlePublish penv meth body n = (reply, n', Some m)"
  shows "\<exists>resp. reply = Inr resp \<and> resp_RootCID resp = RootCID m"
  using assms
  by (auto simp: handlePublish_def Let_def split: if_splits option.splits prod.splits sum.splits)

lemma ServeHTTP_panics:
  assumes "ServeHTTP sv r n = Inl p" and "Host n \<noteq> None"
  shows "r_path r = ''/api/v1/fetch'' \<and> r_method r = GET"
proof -
  from assms(1) obtain h where h: "mux_handler (r_path r) = To h" "run_handler sv h r n = Inl p"
    by (auto simp: ServeHTTP_def split: route.splits)
  have "h = HandleFetch \<and> r_method r = GET"
    using h(2) assms(2)
    by (cases h) (auto simp: answer_def handleStatus_def handleFetch_def split: prod.splits sum.splits option.splits if_splits)
  with h(1) show ?thesis by (simp add: mux_handler_To api_routes_def)
qed

section \<open>Properties\<close>


definition wit_server :: "(byte, unit, unit) server_env" where
  "wit_server = \<lparr>sv_publish = wit_publish_env, sv_publish_body = (\<lambda>_. Some \<lparr>FilePath = ''/f'', req_Name = ''f''\<rparr>), sv_fetch = wit_fetch_env,
     sv_pin_body = (\<lambda>_. None), sv_marshal = (\<lambda>_. None), sv_pin_iter = [], sv_os = os_ok,
     sv_host = \<lparr>hv_peers = [], hv_conns = (\<lambda>_. []), hv_protocols = (\<lambda>_. []), hv_addrs = []\<rparr>, sv_uptime = 0, sv_decode = Some,
     sv_net = wit_net, sv_ping = (\<lambda>_. \<lparr>pe_done = False, pe_ts = 0, pe_elapsed = 1\<rparr>), sv_rfc3339 = (\<lambda>_. []),
     sv_paths = \<lparr>it_paths = (\<lambda>_. []), it_peers = []\<rparr>,
     sv_dht = \<lparr>mhash = (\<lambda>_. None), provide = (\<lambda>d _. (True, d)), find_peers = (\<lambda>_ _ _. [])\<rparr>, sv_dht_state = ()\<rparr>"

abbreviation wit_request :: "http_method \<Rightarrow> string \<Rightarrow> http_request" where
  "wit_request meth p \<equiv> \<lparr>r_method = meth, r_path = p, r_query = [], r_body = []\<rparr>"


end
