(* ===== verification/Streams.thy ===== *)
theory Streams
  imports Node
begin

text \<open>
  The stream protocols of a node (\<^verbatim>\<open>internal/protocol/ids.go\<close> and the \<^verbatim>\<open>Register\<close> functions): the handlers that
  \<^verbatim>\<open>Start\<close> registers with the host, by protocol identifier, and the dispatch of a stream a peer opens.
\<close>

section \<open>Protocols\<close>

definition BlockTransferID :: string where
  "BlockTransferID = ''/pathaware-libp2p/block/1.0.0''"

definition PathProbeID :: string where
  "PathProbeID = ''/pathaware-libp2p/probe/1.0.0''"

definition PathAnnounceID :: string where
  "PathAnnounceID = ''/pathaware-libp2p/path-announce/1.0.0''"

definition PingID :: string where
  "PingID = ''/pathaware-libp2p/ping/1.0.0''"

definition CacheSummaryID :: string where
  "CacheSummaryID = ''/pathaware-libp2p/cache-summary/1.0.0''"

definition BlockPushID :: string where
  "BlockPushID = ''/pathaware-libp2p/block-push/1.0.0''"

lemmas protocol_ids = BlockTransferID_def PathProbeID_def PathAnnounceID_def PingID_def CacheSummaryID_def BlockPushID_def

datatype stream_handler = PingHandler | ProbeHandler | BlockTransferHandler | BlockPushHandler | CacheSummaryHandler

text \<open>In the order of \<^verbatim>\<open>Start\<close>; a later registration of an identifier would replace an earlier one.\<close>

definition registered :: "(string \<times> stream_handler) list" where
  "registered = [(PingID, PingHandler), (PathProbeID, ProbeHandler), (BlockTransferID, BlockTransferHandler),
     (BlockPushID, BlockPushHandler), (CacheSummaryID, CacheSummaryHandler)]"

definition stream_handler_of :: "string \<Rightarrow> stream_handler option" where
  "stream_handler_of proto = map_of (rev registered) proto"

text \<open>
  What a peer that opens a stream gets back, and the node after it: nothing if the protocol is not spoken or the handler
  does not return.
\<close>

definition handle_stream :: "os \<Rightarrow> peer_id \<Rightarrow> string \<Rightarrow> bytes \<Rightarrow> Node \<Rightarrow> (bytes \<times> Node) option" where
  "handle_stream os from proto req n =
     (case stream_handler_of proto of
        None \<Rightarrow> None
      | Some PingHandler \<Rightarrow> Some (Ping_handleStream req, n)
      | Some ProbeHandler \<Rightarrow> Some (Probe_handleStream req, n)
      | Some BlockTransferHandler \<Rightarrow> node_serve os n req
      | Some BlockPushHandler \<Rightarrow> node_push os n req
      | Some CacheSummaryHandler \<Rightarrow>
          map_option (\<lambda>blooms. ([], n\<lparr>PeerBlooms := Some (receive_summary blooms from req)\<rparr>)) (PeerBlooms n))"

section \<open>Lemmas\<close>

text \<open>No handler shadows another, and the path announcements have none.\<close>

lemma stream_handlers [simp]:
  "stream_handler_of PingID = Some PingHandler" "stream_handler_of PathProbeID = Some ProbeHandler"
  "stream_handler_of BlockTransferID = Some BlockTransferHandler" "stream_handler_of BlockPushID = Some BlockPushHandler"
  "stream_handler_of CacheSummaryID = Some CacheSummaryHandler" "stream_handler_of PathAnnounceID = None"
  by (simp_all add: stream_handler_of_def registered_def protocol_ids)

lemma handle_stream_simps:
  "handle_stream os from BlockTransferID req n = node_serve os n req"
  "handle_stream os from BlockPushID req n = node_push os n req"
  by (simp_all add: handle_stream_def)

lemma handle_stream_cases:
  assumes "handle_stream os from proto req n = Some (resp, n')"
  obtains (same) "n' = n" | (serve) "node_serve os n req = Some (resp, n')" | (push) "node_push os n req = Some (resp, n')"
  | (summary) blooms where "PeerBlooms n = Some blooms" "n' = n\<lparr>PeerBlooms := Some (receive_summary blooms from req)\<rparr>"
proof (cases "stream_handler_of proto")
  case None
  with assms show thesis by (simp add: handle_stream_def)
next
  case (Some h)
  show thesis
  proof (cases h)
    case CacheSummaryHandler
    with Some assms summary show thesis by (auto simp: handle_stream_def)
  qed (use Some assms same serve push in \<open>simp_all add: handle_stream_def\<close>)
qed

end
