(* ===== verification/Network.thy ===== *)
theory Network
  imports Server Streams
begin

text \<open>
  The life of one node among peers that may send and answer anything: the steps a started node takes
  are its stream handlers, its HTTP handlers and the rounds of its background loops; between runs it is
  restarted on its disk. \<open>node_ok\<close> is kept by every step, and no step touches the key file; what this
  gives to clients of the node is stated in the root theory.
\<close>

section \<open>Steps\<close>

text \<open>The operating system leaves no half-written file behind.\<close>

definition os_sound :: "os \<Rightarrow> bool" where
  "os_sound os \<longleftrightarrow> (\<forall>p j. os_write os p \<noteq> WritePartial j)"

text \<open>
  The counter in the dialer of a replication round numbers the calls, so the peers may answer each
  differently.
\<close>

inductive node_step :: "Node \<Rightarrow> Node \<Rightarrow> bool" where
  stream: "os_sound os \<Longrightarrow> handle_stream os from proto req n = Some (resp, n') \<Longrightarrow> node_step n n'"
| http: "os_sound (pe_os (sv_publish sv)) \<Longrightarrow> os_sound (fe_os (sv_fetch sv)) \<Longrightarrow>
    ServeHTTP (sv :: (bytes, nat, bytes) server_env) r n = Inr (reply, n', ann) \<Longrightarrow> node_step n n'"
| probe: "PathManager n = Some pm \<Longrightarrow> probeAll worlds now iters pm peers relays = Inr pm' \<Longrightarrow>
    node_step n (n\<lparr>PathManager := Some pm'\<rparr>)"
| replicate: "replicatePopularBlocks (dial :: nat dialer) rs iter os peers n w = Inr (replicated, n', w') \<Longrightarrow> node_step n n'"

inductive node_reachable :: "Node \<Rightarrow> bool" where
  started: "Start se (New cfg (\<lambda>_. None)) = (None, n) \<Longrightarrow> node_reachable n"
| step: "node_reachable n \<Longrightarrow> node_step n n' \<Longrightarrow> node_reachable n'"
| restart: "node_reachable n \<Longrightarrow> Start se (New (Cfg n) (Disk n)) = (None, n') \<Longrightarrow> node_reachable n'"

section \<open>The invariant\<close>

definition node_ok :: "Node \<Rightarrow> bool" where
  "node_ok n \<longleftrightarrow> node_trusted n \<and> (\<exists>st. ContentStore n = Some st \<and> store_at (DataDir (Cfg n)) st)"

lemma lookup_same_dir: "store_at dd st \<Longrightarrow> store_at dd st' \<Longrightarrow> store_lookup st = store_lookup st'"
  by (simp add: store_at_def store_lookup_def blockPath_def fun_eq_iff)

lemma node_ok_disk:
  assumes "node_ok n" and "ContentStore n = Some st" and "\<And>k. slash_free k \<Longrightarrow> store_lookup st fs' k = store_lookup st (Disk n) k"
    and "ContentStore n' = Some st'" and "store_at (DataDir (Cfg n)) st'" and "BlockCache n' = BlockCache n" and "Cfg n' = Cfg n" and "Disk n' = fs'"
  shows "node_ok n'"
proof -
  have "store_at (DataDir (Cfg n)) st" using assms(1,2) by (auto simp: node_ok_def)
  with assms show ?thesis by (auto simp: node_ok_def node_trusted_def trusted_def lookup_same_dir [of "DataDir (Cfg n)" st' st])
qed

subsection \<open>The stream handlers\<close>

lemma node_ok_serve:
  assumes "node_ok n" and "node_serve os n req = Some (resp, n')"
  shows "node_ok n'"
proof -
  obtain st c where st: "ContentStore n = Some st" and n': "n' = n\<lparr>BlockCache := c\<rparr>"
    and h: "BlockTransfer_handleStream os st (Store_IsPinned st) (BlockCache n) (Disk n) req = Some (resp, c)"
    using assms(2) by (auto simp: node_serve_def split: option.splits)
  have t: "cache_ok (BlockCache n)" "trusted (cache_view (BlockCache n)) slash_free" "trusted (store_lookup st (Disk n)) slash_free"
    using assms(1) st by (auto simp: node_ok_def node_trusted_def)
  from serve_keeps_trust [OF t h] show ?thesis using assms(1) st t n' by (auto simp: node_ok_def node_trusted_def)
qed

lemma node_ok_push:
  assumes "node_ok n" and "os_sound os" and "node_push os n req = Some (resp, n')"
  shows "node_ok n'"
proof -
  obtain st c fs where st: "ContentStore n = Some st" and n': "n' = n\<lparr>BlockCache := c, Disk := fs\<rparr>"
    and h: "BlockPush_handleStream os st (Store_IsPinned st) (BlockCache n) (Disk n) req = Some (resp, c, fs)"
    using assms(3) by (auto simp: node_push_def split: option.splits)
  have t: "cache_ok (BlockCache n)" "trusted (cache_view (BlockCache n)) slash_free" "trusted (store_lookup st (Disk n)) slash_free"
    using assms(1) st by (auto simp: node_ok_def node_trusted_def)
  from push_keeps_trust [OF t _ h] show ?thesis using assms(1,2) st n' by (auto simp: node_ok_def node_trusted_def os_sound_def)
qed

lemma node_ok_other: "node_ok (n\<lparr>PeerBlooms := b\<rparr>) = node_ok n" "node_ok (n\<lparr>PathManager := pm\<rparr>) = node_ok n"
  by (simp_all add: node_ok_def node_trusted_def)

lemma node_ok_stream:
  assumes "node_ok n" and "os_sound os" and "handle_stream os from proto req n = Some (resp, n')"
  shows "node_ok n'"
  using assms(3)
  by (cases rule: handle_stream_cases)
    (use assms(1) node_ok_serve [OF assms(1)] node_ok_push [OF assms(1,2)] in \<open>auto simp: node_ok_other\<close>)

subsection \<open>The HTTP handlers\<close>

lemma store_blocks_trusted:
  "\<forall>b\<in>set bs. content_addressed b \<Longrightarrow> os_sound os \<Longrightarrow> trusted (store_lookup st fs) slash_free \<Longrightarrow>
   trusted (store_lookup st (snd (store_blocks os st bs fs))) slash_free"
proof (induction bs arbitrary: fs)
  case (Cons b bs)
  obtain e fs1 where p: "Store_Put os st b fs = (e, fs1)" by fastforce
  have "trusted (store_lookup st fs1) slash_free"
    using Store_Put_trusted [of st fs b os] Cons.prems p by (simp add: content_addressed_def os_sound_def)
  with Cons p show ?case by (cases e) simp_all
qed simp

lemma PutManifest_blocks:
  assumes "slash_free (RootCID m)" and "slash_free k"
  shows "store_lookup st (snd (PutManifest marshal os st m fs)) k = store_lookup st fs k"
  using block_not_manifest [OF assms(2,1), of st]
  by (auto simp: PutManifest_def os_WriteFile_def store_lookup_def split: option.split write_outcome.split)

lemma handlePublish_disk:
  assumes "handlePublish env meth body n = (reply, n', ann)"
  obtains (same) "BlockCache n' = BlockCache n" "ContentStore n' = ContentStore n" "Cfg n' = Cfg n" "Disk n' = Disk n"
  | (blocks) st bs where "BlockCache n' = BlockCache n" "ContentStore n' = ContentStore n" "Cfg n' = Cfg n"
      "ContentStore n = Some st" "\<forall>b\<in>set bs. content_addressed b" "Disk n' = snd (store_blocks (pe_os env) st bs (Disk n))"
  | (manifest) st bs m where "BlockCache n' = BlockCache n" "ContentStore n' = ContentStore n" "Cfg n' = Cfg n"
      "ContentStore n = Some st" "\<forall>b\<in>set bs. content_addressed b" "slash_free (RootCID m)"
      "Disk n' = snd (PutManifest (pe_marshal env) (pe_os env) st m (snd (store_blocks (pe_os env) st bs (Disk n))))"
proof (cases "\<exists>st req data. meth = POST \<and> ContentStore n = Some st \<and> body = Some req \<and> pe_read env (FilePath req) = Some data")
  case False
  then have "n' = n" using assms by (auto simp: handlePublish_def split: if_splits option.splits)
  with same show thesis by simp
next
  case True
  then obtain st req data where 1: "meth = POST" "ContentStore n = Some st" "body = Some req" "pe_read env (FilePath req) = Some data" by blast
  obtain k n1 where 2: "publish_chunk_size env n data = (k, n1)" by fastforce
  have n1: "ContentStore n1 = ContentStore n" "BlockCache n1 = BlockCache n" "Disk n1 = Disk n" "Cfg n1 = Cfg n"
    using publish_chunk_size_keeps [OF 2] 2 by (auto simp: publish_chunk_size_def Let_def split: if_splits prod.splits option.splits)
  let ?bs = "map block_of (split_bytes (nat k - 1) data)" let ?m = "publish_manifest env (req_Name req) data ?bs"
  obtain e fs where sb: "store_blocks (pe_os env) st ?bs (Disk n) = (e, fs)" by fastforce
  obtain e' fs' where pm: "PutManifest (pe_marshal env) (pe_os env) st ?m fs = (e', fs')" by fastforce
  consider "k \<le> 0" | err where "0 < k" "e = Some err" | "0 < k" "e = None" by (metis not_le option.exhaust)
  then show thesis
  proof cases
    case 1
    then have "n' = n1" using assms \<open>meth = POST\<close> \<open>ContentStore n = Some st\<close> \<open>body = Some req\<close> \<open>pe_read env (FilePath req) = Some data\<close> 2
      by (simp add: handlePublish_def Chunk_def)
    with same n1 show thesis by simp
  next
    case (2 err)
    then have "n' = n1\<lparr>Disk := fs\<rparr>" using assms 1 \<open>publish_chunk_size env n data = (k, n1)\<close> n1(3) sb by (simp add: handlePublish_def Chunk_eof)
    with blocks [OF _ _ _ 1(2), of ?bs] n1 sb show thesis by simp
  next
    case 3
    then have "n' = n1\<lparr>Disk := fs'\<rparr>" using assms 1 2 n1(3) sb pm
      by (cases e') (simp_all add: handlePublish_def Chunk_eof Let_def)
    with manifest [OF _ _ _ 1(2), of ?bs ?m] n1 sb pm show thesis by (simp add: publish_manifest_fields)
  qed
qed

lemma node_ok_publish:
  assumes "node_ok n" and "os_sound (pe_os env)" and "handlePublish env meth body n = (reply, n', ann)"
  shows "node_ok n'"
  using assms(3)
proof (cases rule: handlePublish_disk)
  case same
  with assms(1) show ?thesis by (simp add: node_ok_def node_trusted_def)
next
  case (blocks st bs)
  with assms(1) store_blocks_trusted [OF blocks(5) assms(2)] show ?thesis by (auto simp: node_ok_def node_trusted_def)
next
  case (manifest st bs m)
  have "trusted (store_lookup st (snd (store_blocks (pe_os env) st bs (Disk n)))) slash_free"
    using store_blocks_trusted [OF manifest(5) assms(2)] assms(1) manifest(4) by (auto simp: node_ok_def node_trusted_def)
  then have "trusted (store_lookup st (Disk n')) slash_free"
    using PutManifest_blocks [OF manifest(6)] by (simp add: manifest(7) trusted_def)
  with assms(1) manifest show ?thesis by (auto simp: node_ok_def node_trusted_def)
qed

lemma node_ok_fetch:
  assumes "node_ok n" and "os_sound (fe_os env)" and "handleFetch env meth rootCID n = Inr (reply, n')"
  shows "node_ok n'"
  using handleFetch_keeps [OF _ _ assms(3)] assms(1,2) by (auto simp: node_ok_def os_sound_def)

lemma handlePin_disk:
  assumes "handlePin marshal iter os meth body n = (reply, n')" and "ContentStore n = Some st" and "store_at dd st"
  obtains (same) "n' = n"
  | (saved) st' where "store_at dd st'" "n' = n\<lparr>ContentStore := Some st', Disk := snd (savePins marshal iter os st' (Disk n))\<rparr>"
proof (cases "\<exists>cid. body = Some cid \<and> cid \<noteq> [] \<and> meth \<in> {POST, DELETE}")
  case True
  then obtain cid where cid: "body = Some cid" "cid \<noteq> []" "meth = POST \<or> meth = DELETE" by blast
  have pin: "store_at dd (st\<lparr>pins := (pins st)(cid := v)\<rparr>)" if "v = None \<or> v = Some True" for v
    using assms(3) that by (auto simp: store_at_def ran_def split: if_splits)
  from cid(3) show thesis
  proof
    assume "meth = POST"
    with assms(1,2) cid saved [OF pin [of "Some True"]] show thesis
      by (simp add: handlePin_def Store_Pin_def Let_def split: prod.splits)
  next
    assume "meth = DELETE"
    with assms(1,2) cid saved [OF pin [of None]] show thesis
      by (simp add: handlePin_def Store_Unpin_def Let_def split: prod.splits)
  qed
next
  case False
  with assms(1,2) same show thesis by (cases meth; cases body) (auto simp: handlePin_def split: if_splits)
qed

lemma savePins_other: "p \<noteq> pinFile st \<Longrightarrow> snd (savePins marshal iter os st fs) p = fs p"
  by (auto simp: savePins_def os_WriteFile_def split: option.split write_outcome.split)

lemma node_ok_pin:
  assumes "node_ok n" and "handlePin marshal iter os meth body n = (reply, n')"
  shows "node_ok n'"
proof -
  obtain st where st: "ContentStore n = Some st" "store_at (DataDir (Cfg n)) st" using assms(1) by (auto simp: node_ok_def)
  from assms(2) st show ?thesis
  proof (cases rule: handlePin_disk)
    case (saved st')
    have "store_lookup st (Disk n') k = store_lookup st (Disk n) k" if "slash_free k" for k
      using savePins_other [of "blockPath st k" st'] block_not_pins [OF that, of st "DataDir (Cfg n)"] saved
      by (simp add: store_lookup_def store_at_def)
    with saved show ?thesis by (intro node_ok_disk [OF assms(1) st(1)]) simp_all
  qed (use assms(1) in simp)
qed

lemma node_ok_http:
  assumes "node_ok n" and "os_sound (pe_os (sv_publish sv))" and "os_sound (fe_os (sv_fetch sv))"
    and "ServeHTTP sv r n = Inr (reply, n', ann)"
  shows "node_ok n'"
  using assms(4)
proof (cases rule: ServeHTTP_cases)
  case same with assms(1) show ?thesis by simp
next
  case publish then show ?thesis using node_ok_publish [OF assms(1,2)] by blast
next
  case fetch then show ?thesis using node_ok_fetch [OF assms(1,3)] by blast
next
  case pin then show ?thesis using node_ok_pin [OF assms(1)] by blast
qed

subsection \<open>The background loops\<close>

lemma put_fragments_keeps:
  "put_fragments os st cid frs fs = Inr fs' \<Longrightarrow> slash_free k \<Longrightarrow> store_lookup st fs' k = store_lookup st fs k"
proof (induction frs arbitrary: fs)
  case (Cons f frs)
  obtain err fs1 where p: "PutFragment os st cid (Index f) (f_Data f) fs = (err, fs1)" by fastforce
  have "store_lookup st fs1 k = store_lookup st fs k"
    using p block_not_fragment [OF Cons.prems(2), of st cid "Index f"]
    by (auto simp: PutFragment_def os_WriteFile_def store_lookup_def split: if_splits write_outcome.splits)
  with Cons p show ?case by (cases err) (auto split: if_splits)
qed simp

lemma replicateWithErasure_keeps:
  "replicateWithErasure dial rs os st self k m peers cids r fs w = Inr (r', fs', w') \<Longrightarrow> slash_free c \<Longrightarrow>
   store_lookup st fs' c = store_lookup st fs c"
proof (induction cids arbitrary: r fs w)
  case (Cons cid cids)
  then show ?case
    by (auto simp: Let_def split: sum.splits if_splits dest!: put_fragments_keeps [OF _ Cons.prems(2)])
qed simp

lemma node_ok_replicate:
  assumes "node_ok n" and "replicatePopularBlocks dial rs iter os peers n w = Inr (r, n', w')"
  shows "node_ok n'"
proof -
  obtain st where st: "ContentStore n = Some st" "store_at (DataDir (Cfg n)) st" using assms(1) by (auto simp: node_ok_def)
  consider (same) "n' = n"
    | (erasure) self k m cids fs' where "n' = n\<lparr>Disk := fs'\<rparr>"
        "replicateWithErasure dial rs os st self k m peers cids 0 (Disk n) w = Inr (r, fs', w')"
    using assms(2) st(1)
    by (auto simp: replicatePopularBlocks_def Let_def split: option.splits if_splits sum.splits prod.splits)
  then show ?thesis
  proof cases
    case erasure
    then show ?thesis using st
      by (intro node_ok_disk [OF assms(1) st(1) replicateWithErasure_keeps [OF erasure(2)]]) simp_all
  qed (use assms(1) in simp)
qed

subsection \<open>Starting on a disk\<close>

lemma node_ok_Start:
  assumes "Start se (New cfg fs) = (None, n)"
    and "\<And>st. store_at (DataDir cfg) st \<Longrightarrow> trusted (store_lookup st fs) slash_free"
  shows "node_ok n"
  using assms(1)
proof (cases rule: Start_fields)
  case (1 st self fs')
  have "trusted (store_lookup st fs') slash_free"
    using assms(2) [OF 1(3)] NewHost_blocks [of _ st "se_host se" "se_os se" "host_config cfg" fs] 1(1) by (simp add: trusted_def)
  with 1 show ?thesis by (simp add: node_ok_def node_trusted_def trusted_def cache_ok_def cache_view_def new_cache_fresh)
qed

lemma node_ok_restart:
  assumes "node_ok n" and "Start se (New (Cfg n) (Disk n)) = (None, n')"
  shows "node_ok n'"
proof (rule node_ok_Start [OF assms(2)])
  fix st assume "store_at (DataDir (Cfg n)) st"
  moreover obtain st0 where "store_at (DataDir (Cfg n)) st0" and "trusted (store_lookup st0 (Disk n)) slash_free"
    using assms(1) by (auto simp: node_ok_def node_trusted_def)
  ultimately show "trusted (store_lookup st (Disk n)) slash_free" using lookup_same_dir by metis
qed

section \<open>Every reachable node keeps it\<close>

lemma node_ok_step: "node_step n n' \<Longrightarrow> node_ok n \<Longrightarrow> node_ok n'"
proof (induction rule: node_step.induct)
  case stream then show ?case by (blast intro: node_ok_stream)
next
  case http then show ?case by (blast intro: node_ok_http)
next
  case replicate then show ?case by (blast intro: node_ok_replicate)
qed (simp_all only: node_ok_other)

lemma node_ok_reachable: "node_reachable n \<Longrightarrow> node_ok n"
proof (induction rule: node_reachable.induct)
  case (started se cfg n)
  then show ?case by (rule node_ok_Start) (simp add: trusted_def store_lookup_def)
next
  case step then show ?case by (blast intro: node_ok_step)
next
  case restart then show ?case by (blast intro: node_ok_restart)
qed

lemma node_ok_steps: "node_step\<^sup>*\<^sup>* n n' \<Longrightarrow> node_ok n \<Longrightarrow> node_ok n'"
  by (induction rule: rtranclp_induct) (auto intro: node_ok_step)

section \<open>The key file\<close>

text \<open>No file the node writes while it runs ends in a \<^verbatim>\<open>y\<close>.\<close>

lemma write_other: "p \<noteq> q \<Longrightarrow> snd (os_WriteFile os q d fs) p = fs p"
  by (simp add: os_WriteFile_def split: write_outcome.split)

lemma Store_Put_key: "slash_free (CID b) \<Longrightarrow> last p = CHR ''y'' \<Longrightarrow> snd (Store_Put os st b fs) p = fs p"
  using block_path_end [of "CID b" st] by (auto simp: Store_Put_cases split: write_outcome.split)

lemma store_blocks_key:
  "\<forall>b\<in>set bs. content_addressed b \<Longrightarrow> last p = CHR ''y'' \<Longrightarrow> snd (store_blocks os st bs fs) p = fs p"
proof (induction bs arbitrary: fs)
  case (Cons b bs)
  obtain e fs1 where p: "Store_Put os st b fs = (e, fs1)" by fastforce
  have "fs1 p = fs p" using Store_Put_key [of b p os st fs] Cons.prems p by (simp add: content_addressed_def)
  with Cons p show ?case by (cases e) simp_all
qed simp

lemma PutManifest_key: "slash_free (RootCID m) \<Longrightarrow> last p = CHR ''y'' \<Longrightarrow> snd (PutManifest marshal os st m fs) p = fs p"
  using manifest_path_end [of "RootCID m" st]
  by (auto simp: PutManifest_def os_WriteFile_def split: option.split write_outcome.split)

lemma put_fragments_key: "put_fragments os st cid frs fs = Inr fs' \<Longrightarrow> last p = CHR ''y'' \<Longrightarrow> fs' p = fs p"
proof (induction frs arbitrary: fs)
  case (Cons f frs)
  obtain err fs1 where q: "PutFragment os st cid (Index f) (f_Data f) fs = (err, fs1)" by fastforce
  have "last (fragPath st cid (Index f)) = CHR ''g''" by (simp add: fragPath_def path_Join_plain frag_name_plain)
  with q Cons.prems(2) have "fs1 p = fs p"
    by (auto simp: PutFragment_def os_WriteFile_def split: if_splits write_outcome.splits)
  with Cons q show ?case by (cases err) (auto split: if_splits)
qed simp

lemma replicateWithErasure_key:
  "replicateWithErasure dial rs os st self k m peers cids r fs w = Inr (r', fs', w') \<Longrightarrow> last p = CHR ''y'' \<Longrightarrow> fs' p = fs p"
proof (induction cids arbitrary: r fs w)
  case (Cons cid cids)
  then show ?case
    by (auto simp: Let_def split: sum.splits if_splits dest!: put_fragments_key [OF _ Cons.prems(2)])
qed simp

lemma fetch_step_key:
  assumes "fetch_inv st cids s" and "i < length cids" and "fetch_step env st cids i s = Inr s'" and "last p = CHR ''y''"
  shows "Disk (fs_node s') p = Disk (fs_node s) p"
proof (cases "\<exists>b. fs_phases s ! i = Fetched b")
  case True
  then obtain b where b: "fs_phases s ! i = Fetched b" by blast
  have "case fs_phases s ! i of Fetched b \<Rightarrow> CID b = cids ! i \<and> content_addressed b
      | Finished \<Rightarrow> fs_err s \<noteq> None \<or> authentic (cids ! i) (fs_blocks s ! i) | _ \<Rightarrow> True"
    using assms(1,2) by (simp add: fetch_inv_def)
  then have "content_addressed b" by (simp add: b)
  with assms(3,4) b show ?thesis by (auto simp: fetch_step_def Let_def finish_def content_addressed_def Store_Put_key)
next
  case False
  with assms(3) show ?thesis
    by (auto simp: fetch_step_def Let_def finish_def at_phase_def split: phase.splits option.splits prod.splits sum.splits)
qed

lemma handleFetch_key:
  assumes "node_trusted n" and "os_sound (fe_os env)" and "handleFetch env meth rootCID n = Inr (reply, n')" and "last p = CHR ''y''"
  shows "Disk n' p = Disk n p"
  using assms(3)
proof (cases rule: handleFetch_cases)
  case (ran st m s)
  let ?Inv = "\<lambda>s. fetch_inv st (ChunkCIDs m) s \<and> Disk (fs_node s) p = Disk n p"
  have os: "\<forall>p j. os_write (fe_os env) p \<noteq> WritePartial j" using assms(2) by (simp add: os_sound_def)
  have "keeps env st (ChunkCIDs m) ?Inv"
    using fetch_inv_keeps [OF os, of st "ChunkCIDs m"] fetch_step_key [OF _ _ _ assms(4)] unfolding keeps_def by metis
  moreover have "?Inv (init_fetch n (ChunkCIDs m))"
    using fetch_inv_init [OF assms(1) ran(2)] by (simp add: init_fetch_def)
  ultimately have "?Inv s" using ran(5) by (rule batch_loop_inv)
  with ran show ?thesis by simp
qed simp

lemma stream_key:
  assumes "handle_stream os from proto req n = Some (resp, n')" and key: "last p = CHR ''y''"
  shows "Disk n' p = Disk n p \<and> Cfg n' = Cfg n"
  using assms(1)
proof (cases rule: handle_stream_cases)
  case serve
  then show ?thesis by (auto simp: node_serve_def split: option.splits)
next
  case push
  then obtain st c fs where n': "n' = n\<lparr>BlockCache := c, Disk := fs\<rparr>"
    and h: "BlockPush_handleStream os st (Store_IsPinned st) (BlockCache n) (Disk n) req = Some (resp, c, fs)"
    by (auto simp: node_push_def split: option.splits)
  from h show ?thesis by (cases rule: push_handler_cases) (use n' key in \<open>simp_all add: Store_Put_key\<close>)
qed simp_all

lemma http_key:
  assumes "node_ok n" and "os_sound (pe_os (sv_publish sv))" and "os_sound (fe_os (sv_fetch sv))"
    and "ServeHTTP sv r n = Inr (reply, n', ann)" and key: "last p = CHR ''y''"
  shows "Disk n' p = Disk n p \<and> Cfg n' = Cfg n"
  using assms(4)
proof (cases rule: ServeHTTP_cases)
  case (publish reply')
  from publish(2) show ?thesis
    by (cases rule: handlePublish_disk) (use key in \<open>simp_all add: store_blocks_key PutManifest_key\<close>)
next
  case (fetch reply')
  then show ?thesis using handleFetch_key [OF _ assms(3) fetch(3) key] handleFetch_keeps [OF _ _ fetch(3)] assms(1,3)
    by (auto simp: node_ok_def os_sound_def)
next
  case (pin reply')
  obtain st where st: "ContentStore n = Some st" "store_at (DataDir (Cfg n)) st" using assms(1) by (auto simp: node_ok_def)
  from pin(3) st show ?thesis
  proof (cases rule: handlePin_disk)
    case (saved st')
    have "p \<noteq> pinFile st'" using pins_path_end [OF saved(1)] key by auto
    with saved(2) show ?thesis by (simp add: savePins_other)
  qed simp
qed simp

lemma node_step_key:
  assumes "node_step n n'" and "node_ok n" and key: "last p = CHR ''y''"
  shows "Disk n' p = Disk n p \<and> Cfg n' = Cfg n"
  using assms(1,2)
proof (induction rule: node_step.induct)
  case (stream os sender proto req n resp n')
  then show ?case by (intro stream_key [OF _ key])
next
  case (http sv r n reply n' ann)
  then show ?case by (intro http_key [OF _ _ _ _ key])
next
  case (replicate dial rs iter os peers n w r n' w')
  then show ?case
    by (auto simp: replicatePopularBlocks_def Let_def replicateWithErasure_key [OF _ key]
        split: option.splits if_splits sum.splits prod.splits)
qed simp_all

lemma node_steps_key:
  "node_step\<^sup>*\<^sup>* n n' \<Longrightarrow> node_ok n \<Longrightarrow> last p = CHR ''y'' \<Longrightarrow> Disk n' p = Disk n p \<and> Cfg n' = Cfg n"
proof (induction rule: rtranclp_induct)
  case (step n1 n2)
  from step(3,4,5) node_step_key [OF step(2) node_ok_steps [OF step(1)], of p] show ?case by simp
qed simp

end
