(* ===== verification/Node_Safety.thy ===== *)
theory Node_Safety
  imports Network
begin

text \<open>
  A started node has every part it needs, and keeps it: the fields that \<^verbatim>\<open>Start\<close> sets are never nil again, so no
  handler dereferences nil or reports a missing component, and the only panic an HTTP request can cause
  comes from a malformed cache summary.
\<close>

section \<open>Complete nodes\<close>

definition node_complete :: "Node \<Rightarrow> bool" where
  "node_complete n \<longleftrightarrow> Host n \<noteq> None \<and> PathManager n \<noteq> None \<and> ContentStore n \<noteq> None \<and> ContentRouter n
     \<and> node_Tracker n \<noteq> None \<and> PeerBlooms n \<noteq> None"

lemma node_complete_upd [simp]:
  "node_complete (n\<lparr>BlockCache := c\<rparr>) = node_complete n" "node_complete (n\<lparr>Disk := fs\<rparr>) = node_complete n"
  "node_complete (n\<lparr>PathManager := Some pm\<rparr>) \<longleftrightarrow> node_complete (n\<lparr>PathManager := Some pm'\<rparr>)"
  by (simp_all add: node_complete_def)

lemma complete_Start: "Start se (New cfg fs) = (None, n) \<Longrightarrow> node_complete n"
  by (auto simp: Start_def New_def node_complete_def Let_def split: prod.splits sum.splits if_splits)

subsection \<open>What a request keeps\<close>

lemma complete_publish:
  assumes "node_complete n" and "handlePublish env meth body n = (reply, n', ann)"
  shows "node_complete n'"
proof -
  have "node_complete n1" if "publish_chunk_size env n data = (k, n1)" for data k n1
    using assms(1) that by (auto simp: publish_chunk_size_def node_complete_def Let_def split: if_splits prod.splits option.splits)
  with assms show ?thesis
    by (auto simp: handlePublish_def Let_def node_complete_def split: if_splits prod.splits option.splits sum.splits)
qed

lemma serial_fallback_manager:
  "serial_fallback env i cid ps pm = Inr (r, pm') \<Longrightarrow> pm \<noteq> None \<Longrightarrow> pm' \<noteq> None"
  by (induction env i cid ps pm rule: serial_fallback.induct) (auto split: sum.splits if_splits)

lemma fetchBlockFromNetwork_manager:
  assumes "fetchBlockFromNetwork env n cid = Inr (r, pm)" and "PathManager n \<noteq> None"
  shows "pm \<noteq> None"
proof
  assume "pm = None"
  with assms show False
    by (auto simp: fetchBlockFromNetwork_def rank_providers_def Let_def dest!: serial_fallback_manager
        split: if_splits sum.splits option.splits prod.splits)
qed

lemma fetch_step_complete:
  assumes "node_complete (fs_node s)" and "fetch_step env st cids i s = Inr s'"
  shows "node_complete (fs_node s') \<and> PeerBlooms (fs_node s') = PeerBlooms (fs_node s)"
  using assms
  by (auto simp: fetch_step_def Let_def finish_def at_phase_def node_complete_def dest!: fetchBlockFromNetwork_manager
      split: phase.splits option.splits prod.splits sum.splits)

lemma complete_fetch:
  assumes "node_complete n" and "handleFetch env meth rootCID n = Inr (reply, n')"
  shows "node_complete n'"
  using assms(2)
proof (cases rule: handleFetch_cases)
  case (ran st m s)
  have "node_complete (fs_node s)"
  proof (rule batch_loop_inv [OF _ _ ran(5)])
    show "keeps env st (ChunkCIDs m) (\<lambda>s. node_complete (fs_node s))" using fetch_step_complete by (auto simp: keeps_def)
  qed (simp add: init_fetch_def assms(1))
  with ran(6) show ?thesis by simp
qed (use assms(1) in simp)

lemma complete_pin: "node_complete n \<Longrightarrow> handlePin marshal iter os meth body n = (reply, n') \<Longrightarrow> node_complete n'"
  by (auto simp: handlePin_def node_complete_def split: option.splits http_method.splits if_splits prod.splits)

lemma complete_http:
  assumes "node_complete n" and "ServeHTTP sv r n = Inr (reply, n', ann)"
  shows "node_complete n'"
  using assms(2)
proof (cases rule: ServeHTTP_cases)
  case publish then show ?thesis using complete_publish [OF assms(1)] by blast
next
  case fetch then show ?thesis using complete_fetch [OF assms(1)] by blast
next
  case pin then show ?thesis using complete_pin [OF assms(1) pin(3)] by blast
qed (use assms(1) in simp)

lemma complete_stream:
  assumes "node_complete n" and "handle_stream os from proto req n = Some (resp, n')"
  shows "node_complete n'"
  using assms(2)
proof (cases rule: handle_stream_cases)
  case serve with assms(1) show ?thesis by (auto simp: node_serve_def split: option.splits)
next
  case push with assms(1) show ?thesis by (auto simp: node_push_def split: option.splits)
qed (use assms(1) in \<open>simp_all add: node_complete_def\<close>)

lemma complete_step: "node_step n n' \<Longrightarrow> node_complete n \<Longrightarrow> node_complete n'"
proof (induction rule: node_step.induct)
  case http then show ?case by (blast intro: complete_http)
next
  case stream then show ?case by (blast intro: complete_stream)
next
  case replicate then show ?case
    by (auto simp: replicatePopularBlocks_def Let_def split: option.splits if_splits sum.splits prod.splits)
qed (simp_all add: node_complete_def)

lemma complete_reachable: "node_reachable n \<Longrightarrow> node_complete n"
  by (induction rule: node_reachable.induct) (blast intro: complete_Start complete_step)+

section \<open>Where a fetch can panic\<close>

text \<open>All filters received from peers are well-formed.\<close>

definition blooms_wf :: "Node \<Rightarrow> bool" where
  "blooms_wf n \<longleftrightarrow> (\<forall>blooms q bf. PeerBlooms n = Some blooms \<longrightarrow> blooms q = Some bf \<longrightarrow> bloom_wf bf)"

lemma serial_fallback_runs: "\<forall>p\<in>set ps. 8 \<le> length (ai_ID p) \<Longrightarrow> \<exists>x. serial_fallback env i cid ps pm = Inr x"
  by (induction env i cid ps pm rule: serial_fallback.induct) (auto split: sum.split)

text \<open>The text of a peer identifier is far longer than the eight characters that are logged of it.\<close>

definition providers_named :: "fetch_env \<Rightarrow> bool" where
  "providers_named env \<longleftrightarrow> (\<forall>i cid ps. ne_find (fe_net env i) cid = Inr ps \<longrightarrow> (\<forall>p\<in>set ps. 8 \<le> length (ai_ID p)))"

lemma fetchBlockFromNetwork_runs:
  assumes "node_complete n" and "blooms_wf n" and "providers_named env"
  shows "\<exists>x. fetchBlockFromNetwork (fe_net env i) n cid = Inr x"
proof (cases "ne_find (fe_net env i) cid")
  case (Inr providers)
  obtain self where self: "Host n = Some self" and router: "ContentRouter n" using assms(1) by (auto simp: node_complete_def)
  let ?ps = "filter (\<lambda>p. ai_ID p \<noteq> self) providers"
  obtain ranked pm where r: "rank_providers (fe_net env i) n cid ?ps = Inr (ranked, pm)"
    using rank_providers_returns [of n ?ps cid "fe_net env i"] assms(2)
    by (force simp: blooms_wf_def PeerMayHave_def Contains_wf split: option.split)
  have "set ranked = set ?ps" using rank_providers_mset [OF r] by (metis set_mset_mset)
  then have "\<forall>p\<in>set ranked. 8 \<le> length (ai_ID p)" using assms(3) Inr by (auto simp: providers_named_def)
  with serial_fallback_runs [of ranked] obtain x where "serial_fallback (fe_net env i) (length ranked) cid ranked pm = Inr x" by blast
  with Inr self router r show ?thesis by (auto simp: fetchBlockFromNetwork_def Let_def split: sum.split)
qed (use assms(1) in \<open>simp add: fetchBlockFromNetwork_def node_complete_def\<close>)

lemma handleFetch_runs:
  assumes "node_complete n" and "blooms_wf n" and "providers_named env"
  shows "\<exists>x. handleFetch env meth rootCID n = Inr x"
proof -
  let ?Inv = "\<lambda>s. node_complete (fs_node s) \<and> PeerBlooms (fs_node s) = PeerBlooms n"
  have r: "runs env st cids ?Inv" for st cids
    unfolding runs_def
  proof (intro allI impI)
    fix i and s :: fetch_state assume s: "?Inv s"
    then have "blooms_wf (fs_node s)" using assms(2) by (simp add: blooms_wf_def)
    then obtain r pm where "fetchBlockFromNetwork (fe_net env i) (fs_node s) (cids ! i) = Inr (r, pm)"
      using fetchBlockFromNetwork_runs [of "fs_node s" env i "cids ! i"] s assms(3) by auto
    then show "\<exists>s'. fetch_step env st cids i s = Inr s'"
      by (auto simp: fetch_step_def Let_def split: phase.split option.split prod.split sum.split)
  qed
  have k: "keeps env st cids ?Inv" for st cids
    using fetch_step_complete by (auto simp: keeps_def)
  have "\<exists>s'. batch_loop env st cids 0 (init_fetch n cids) = Inr s'" for st cids
    by (rule batch_loop_runs [OF k r]) (simp add: init_fetch_def assms(1))
  then have "batch_loop env st cids 0 (init_fetch n cids) \<noteq> Inl e" for st cids e by (metis Inr_not_Inl)
  then show ?thesis by (auto simp: handleFetch_def split: option.split sum.split)
qed

lemma served_by_complete:
  assumes "node_complete n" and "ServeHTTP sv r n = Inr (reply, n', ann)"
  shows "reply \<noteq> Inl StatusServiceUnavailable"
proof -
  have "mux_handler (r_path r) = To h \<Longrightarrow> run_handler sv h r n \<noteq> Inr (Inl StatusServiceUnavailable, n', ann)" for h
    using assms(1)
    by (cases h)
      (auto simp: node_complete_def answer_def handlePeers_def handlePing_def handlePaths_def handlePublish_def handleFetch_def handleManifest_def
        handleFindProviders_def handlePin_def handleListPins_def handleStatus_def Let_def
        split: if_splits option.splits prod.splits sum.splits http_method.splits)
  with assms(2) show ?thesis by (auto simp: ServeHTTP_def split: route.splits)
qed

text \<open>The pushes of a replication round panic only when they slice a short identifier.\<close>

lemma push_to_peers_panic: "push_to_peers dial self cid b ps k w = Inl e \<Longrightarrow> e = IndexOutOfRange"
  by (induction ps arbitrary: k w) (auto split: if_splits prod.splits sum.splits)

lemma replicate_whole_panic: "replicate_whole dial os st fs self peers cids k w = Inl e \<Longrightarrow> e = IndexOutOfRange"
  by (induction cids arbitrary: k w) (auto split: sum.splits dest: push_to_peers_panic)

lemma put_fragments_panic: "put_fragments os st cid frs fs = Inl e \<Longrightarrow> e = IndexOutOfRange"
  by (induction frs arbitrary: fs) (auto split: if_splits prod.splits option.splits)

lemma push_fragments_panic: "push_fragments dial eligible i frs k w = Inl e \<Longrightarrow> e = IndexOutOfRange"
  by (induction frs arbitrary: i k w) (auto simp: Let_def split: if_splits prod.splits sum.splits)

lemma replicateWithErasure_panic:
  "replicateWithErasure dial rs os st self k m peers cids r fs w = Inl e \<Longrightarrow> e = IndexOutOfRange"
proof (induction cids arbitrary: r fs w)
  case (Cons cid cids)
  then show ?case
    by (auto simp: Let_def split: sum.splits if_splits dest: put_fragments_panic push_fragments_panic)
qed simp

lemma replicate_complete:
  "node_complete n \<Longrightarrow> replicatePopularBlocks dial rs iter os peers n w = Inl e \<Longrightarrow> e = IndexOutOfRange"
  by (auto simp: node_complete_def replicatePopularBlocks_def Let_def
      split: option.splits if_splits sum.splits prod.splits dest: replicate_whole_panic replicateWithErasure_panic)

end
