(* ===== verification/Background.thy ===== *)
theory Background
  imports Network
begin

text \<open>
  The background loops of a node: the probe loop of the path manager (\<^verbatim>\<open>internal/pathpolicy/manager.go\<close>), the
  replication loop and the broadcast of cache summaries (\<^verbatim>\<open>internal/node/node.go\<close>). A loop is driven by the
  outcomes of its \<^verbatim>\<open>select\<close> statement: a tick, with what the round then meets, or the end of the context.
  Loops are runs of the step relation of \<open>Network\<close>, and the probe loop makes every peer that answers selectable.
\<close>

section \<open>Loops\<close>

text \<open>\<open>None\<close> is the context's end, after which nothing is read; without it the loop waits.\<close>

fun ticker_loop :: "('e \<Rightarrow> 's \<Rightarrow> go_panic + 's) \<Rightarrow> 'e option list \<Rightarrow> 's \<Rightarrow> go_panic + 's" where
  "ticker_loop go [] s = Inr s"
| "ticker_loop go (None # es) s = Inr s"
| "ticker_loop go (Some e # es) s = (case go e s of Inl p \<Rightarrow> Inl p | Inr s' \<Rightarrow> ticker_loop go es s')"

record probe_round =
  po_worlds :: "nat \<Rightarrow> probe_world"
  po_now :: int
  po_iters :: "peer_id \<Rightarrow> string list"
  po_peers :: "peer_id list"
  po_relays :: "peer_id list"

definition probe_once :: "probe_round \<Rightarrow> Manager \<Rightarrow> go_panic + Manager" where
  "probe_once e m = probeAll (po_worlds e) (po_now e) (po_iters e) m (po_peers e) (po_relays e)"

definition probeLoop :: "probe_round \<Rightarrow> probe_round option list \<Rightarrow> Manager \<Rightarrow> go_panic + Manager" where
  "probeLoop first es m = (case probe_once first m of Inl p \<Rightarrow> Inl p | Inr m' \<Rightarrow> ticker_loop probe_once es m')"

record repl_round =
  ro_dial :: "nat dialer"
  ro_rs :: reedsolomon
  ro_iter :: "cid list"
  ro_os :: os
  ro_peers :: "peer_id list"

definition replicate_once :: "repl_round \<Rightarrow> Node \<times> nat \<Rightarrow> go_panic + Node \<times> nat" where
  "replicate_once e s =
     (case replicatePopularBlocks (ro_dial e) (ro_rs e) (ro_iter e) (ro_os e) (ro_peers e) (fst s) (snd s) of
        Inl p \<Rightarrow> Inl p
      | Inr (replicated, n', w') \<Rightarrow> Inr (n', w'))"

definition replicationLoop :: "repl_round option list \<Rightarrow> Node \<times> nat \<Rightarrow> go_panic + Node \<times> nat" where
  "replicationLoop es s = ticker_loop replicate_once es s"

text \<open>A broadcast reads the cache of the moment and sends; the state is what was sent.\<close>

record summary_round =
  so_iter :: "cid list"
  so_cache :: "LRUCache option"
  so_peers :: "peer_id list"

definition cacheSummaryLoop ::
  "peer_id \<Rightarrow> summary_round option list \<Rightarrow> (peer_id \<times> bytes) list \<Rightarrow> go_panic + (peer_id \<times> bytes) list" where
  "cacheSummaryLoop self es sent =
     ticker_loop (\<lambda>e sent. case broadcastCacheSummary (so_iter e) (so_cache e) self (so_peers e) of
         Inl p \<Rightarrow> Inl p | Inr msgs \<Rightarrow> Inr (sent @ msgs)) es sent"

section \<open>Lemmas: loops are steps\<close>

lemma ticker_loop_stops: "ticker_loop go (es @ None # fs) s = ticker_loop go es s"
  by (induction go es s rule: ticker_loop.induct) (auto split: sum.split)

lemma ticker_loop_inv:
  assumes "\<And>e s s'. Some e \<in> set es \<Longrightarrow> Inv s \<Longrightarrow> go e s = Inr s' \<Longrightarrow> Inv s'"
    and "Inv s" and "ticker_loop go es s = Inr s'"
  shows "Inv s'"
  using assms
proof (induction go es s rule: ticker_loop.induct)
  case (3 go e es s)
  then obtain s1 where s1: "go e s = Inr s1" "ticker_loop go es s1 = Inr s'" by (auto split: sum.splits)
  show ?case
  proof (rule "3.IH" [OF s1(1) _ _ s1(2)])
    show "Inv s1" using "3.prems"(1,2) s1(1) by auto
  qed (use "3.prems"(1) in auto)
qed simp_all

lemma ticker_loop_runs:
  assumes "\<And>e s. Some e \<in> set es \<Longrightarrow> Inv s \<Longrightarrow> \<exists>s'. go e s = Inr s' \<and> Inv s'" and "Inv s"
  shows "\<exists>s'. ticker_loop go es s = Inr s' \<and> Inv s'"
  using assms
proof (induction go es s rule: ticker_loop.induct)
  case (3 go e es s)
  from "3.prems"(1) [of e s] "3.prems"(2) obtain s1 where s1: "go e s = Inr s1" "Inv s1" by auto
  with "3.IH" [OF s1(1)] "3.prems"(1) show ?case by auto
qed auto

text \<open>Every run of a loop is a run of the node.\<close>

lemma replicationLoop_steps:
  assumes "replicationLoop es (n, w) = Inr (n', w')"
  shows "node_step\<^sup>*\<^sup>* n n'"
proof -
  have "node_step\<^sup>*\<^sup>* n (fst (n', w'))"
  proof (rule ticker_loop_inv [where Inv = "\<lambda>s. node_step\<^sup>*\<^sup>* n (fst s)"])
    show "ticker_loop replicate_once es (n, w) = Inr (n', w')" using assms by (simp add: replicationLoop_def)
    fix e s s' assume r: "node_step\<^sup>*\<^sup>* n (fst s)" "replicate_once e s = Inr s'"
    then have "node_step (fst s) (fst s')"
      by (auto simp: replicate_once_def split: sum.splits intro: node_step.replicate)
    with r(1) show "node_step\<^sup>*\<^sup>* n (fst s')" by simp
  qed simp
  then show ?thesis by simp
qed

lemma probe_once_step:
  assumes "probe_once e m = Inr m'"
  shows "node_step (n\<lparr>PathManager := Some m\<rparr>) (n\<lparr>PathManager := Some m'\<rparr>)"
  using node_step.probe [of "n\<lparr>PathManager := Some m\<rparr>" m] assms by (simp add: probe_once_def)

lemma probeLoop_steps:
  assumes "probeLoop first es m = Inr m'"
  shows "node_step\<^sup>*\<^sup>* (n\<lparr>PathManager := Some m\<rparr>) (n\<lparr>PathManager := Some m'\<rparr>)"
proof -
  obtain m1 where m1: "probe_once first m = Inr m1" "ticker_loop probe_once es m1 = Inr m'"
    using assms by (auto simp: probeLoop_def split: sum.splits)
  show ?thesis
    by (rule ticker_loop_inv [OF _ _ m1(2)])
      (use probe_once_step m1(1) in \<open>auto intro: rtranclp.rtrancl_into_rtrancl\<close>)
qed

section \<open>Lemmas: a peer that answers\<close>

text \<open>The direct path to \<open>t\<close> is recorded, probed, and well above the success rate at which paths are pruned.\<close>

definition direct_good :: "peer_id \<Rightarrow> PathSet \<Rightarrow> bool" where
  "direct_good t ps \<longleftrightarrow> (\<exists>p. ps (directPathID t) = Some p \<and> viable p \<and> 3 / 10 \<le> SuccessRate (p_Metrics p))"

lemma update_path_good:
  assumes "set_ok t ps" and "rr_Err res = None"
  shows "direct_good t (update_path now res (direct_path t) ps)"
proof -
  let ?i = "directPathID t"
  let ?p = "case ps ?i of Some q \<Rightarrow> q | None \<Rightarrow> direct_path t"
  have m: "metrics_ok (p_Metrics ?p)" and i: "p_ID ?p = ?i"
    using assms(1) path_at_fresh(1) [of t]
    by (auto simp: set_ok_def path_at_def path_ok_def direct_path_def metrics_ok_zero split: option.split)
  have "SuccessRate (RecordProbe now (rr_RTT res) True ((p_Metrics ?p)\<lparr>HopCount := rr_HopCount res\<rparr>)) \<ge> 3 / 10"
    using m by (simp add: RecordProbe_simps Let_def metrics_ok_def)
  moreover have "SampleCount (RecordProbe now (rr_RTT res) True ((p_Metrics ?p)\<lparr>HopCount := rr_HopCount res\<rparr>)) > 0"
    using m by (simp add: RecordProbe_simps metrics_ok_def)
  moreover have "p_ID (direct_path t) = ?i" by (simp add: direct_path_def)
  ultimately show ?thesis
    using i assms(2) by (simp add: direct_good_def update_path_def Let_def PathSet_Get_def PathSet_Add_def viable_def)
qed

lemma update_path_other:
  assumes "set_ok t ps" and "p_ID np \<noteq> i"
  shows "update_path now res np ps i = ps i"
proof -
  let ?p = "case ps (p_ID np) of Some q \<Rightarrow> q | None \<Rightarrow> np"
  have "p_ID ?p = p_ID np" using assms(1) by (auto simp: set_ok_def split: option.split)
  with assms(2) show ?thesis by (simp add: update_path_def Let_def PathSet_Get_def PathSet_Add_def)
qed

lemma record_results_good:
  assumes ps: "set_ok t ps" and rs: "\<forall>r\<in>set rs. r \<noteq> t"
    and res: "\<forall>r\<in>set results. 0 \<le> rr_RTT r \<and> 0 \<le> rr_HopCount r \<and> rr_HopCount r \<le> 255"
    and first: "0 < length results" "rr_Err (results ! 0) = None"
  shows "direct_good t (record_results nows t rs results ps)"
proof -
  let ?step = "\<lambda>ps (i, r). if i < length results then update_path (nows i) (results ! i) (relay_path t r) ps else ps"
  have upd: "set_ok t (update_path now (results ! i) np ps)"
    if "set_ok t ps" "path_at t np" "i < length results" for now np ps i
    using that res nth_mem [OF that(3)] by (intro set_ok_update_path) blast+
  have fold: "foldl ?step ps xs (directPathID t) = ps (directPathID t)" if "set_ok t ps" "\<forall>(i, r)\<in>set xs. r \<noteq> t" for ps xs
    using that
  proof (induction xs arbitrary: ps)
    case (Cons x xs)
    obtain i r where x: "x = (i, r)" by fastforce
    have "set_ok t (?step ps x)" using Cons.prems upd path_at_fresh(2) by (auto simp: x)
    moreover have "?step ps x (directPathID t) = ps (directPathID t)"
      using update_path_other [OF Cons.prems(1), of "relay_path t r" "directPathID t"]
      by (simp add: x relay_path_def relayPathID_def directPathID_def)
    ultimately show ?case using Cons by simp
  qed simp
  have "\<forall>(i, r)\<in>set (enumerate 1 rs). r \<noteq> t"
    using rs by (auto simp: enumerate_eq_zip dest!: set_zip_rightD)
  with fold [OF upd [OF ps path_at_fresh(1) first(1)]] update_path_good [OF ps first(2)] first(1) show ?thesis
    by (simp add: direct_good_def record_results_def Let_def)
qed

text \<open>The peer \<open>t\<close> runs the probe handler and the first goroutine of the round, which probes it, finishes.\<close>

definition peer_answers :: "probe_world \<Rightarrow> peer_id \<Rightarrow> bool" where
  "peer_answers w t \<longleftrightarrow> pw_net w t = Some (\<lambda>req. Some (Probe_handleStream req)) \<and> 0 \<in> set (pw_sched w)
     \<and> (\<exists>nonce. be_nonce (pw_env w 0) = Some nonce \<and> length nonce = 32)"

definition target_good :: "peer_id \<Rightarrow> Manager \<Rightarrow> bool" where
  "target_good t m \<longleftrightarrow> (\<exists>ps. pathSets m t = Some ps \<and> direct_good t ps)"

lemma probeTarget_good:
  assumes ok: "mgr_ok m" and el: "\<forall>i. 0 \<le> be_elapsed (pw_env w i)" and pt: "probeTarget w m t relays = Inr m'"
    and answers: "peer_answers w t"
  shows "target_good t m'"
proof -
  let ?rs = "other_relays m t relays"
  let ?infos = "probe_infos t ?rs"
  let ?res = "SendProbes (pw_net w) (pw_env w) (pw_sched w) ?infos"
  let ?ps = "case pathSets m t of Some ps \<Rightarrow> ps | None \<Rightarrow> NewPathSet"
  note slots = foldl_slots [where f = "\<lambda>i. SendProbe (pw_net w) (pw_env w i) (?infos ! i)"
      and rs = "replicate (length ?infos) zero_ProbeResult" and sched = "pw_sched w" and i = 0]
  have len: "0 < length ?infos" "0 < length ?res" using slots by (simp_all add: probe_infos_def SendProbes_def)
  have "?res ! 0 = SendProbe (pw_net w) (pw_env w 0) (?infos ! 0)"
    using slots len(1) answers by (simp add: SendProbes_def peer_answers_def)
  then have "rr_Err (?res ! 0) = None"
    using SendProbe_honest [of "pw_env w 0" _ _ "?infos ! 0" "pw_net w"] answers by (auto simp: peer_answers_def probe_infos_def)
  moreover have "set_ok t ?ps" using ok by (auto simp: mgr_ok_def set_ok_New split: option.split)
  ultimately have "direct_good t (record_results (pw_nows w) t ?rs ?res ?ps)"
    using SendProbes_ranges [OF el] len(2) by (intro record_results_good) (auto simp: other_relays_def)
  moreover have "m' = m\<lparr>pathSets := (pathSets m)(t \<mapsto> record_results (pw_nows w) t ?rs ?res ?ps)\<rparr>"
    using pt unfolding probeTarget_def Let_def by (simp only: split: if_splits) simp_all
  ultimately show ?thesis by (simp add: target_good_def)
qed

lemma probeTarget_other: "probeTarget w m t relays = Inr m' \<Longrightarrow> u \<noteq> t \<Longrightarrow> pathSets m' u = pathSets m u"
  by (auto simp: probeTarget_def Let_def split: if_splits)

lemma probe_targets_other: "probe_targets ws i m ts relays = Inr m' \<Longrightarrow> u \<notin> set ts \<Longrightarrow> pathSets m' u = pathSets m u"
  by (induction ws i m ts relays rule: probe_targets.induct) (auto split: sum.splits simp: probeTarget_other)

lemma probe_targets_good:
  assumes "mgr_ok m" and "\<forall>j i. 0 \<le> be_elapsed (pw_env (ws j) i)" and "probe_targets ws k m ts relays = Inr m'"
    and "t \<in> set ts" and "\<forall>j. peer_answers (ws j) t"
  shows "target_good t m'"
  using assms
proof (induction ws k m ts relays rule: probe_targets.induct)
  case (2 ws k m u us relays)
  then obtain m1 where m1: "probeTarget (ws k) m u relays = Inr m1" "probe_targets ws (Suc k) m1 us relays = Inr m'"
    by (auto split: sum.splits)
  have ok: "mgr_ok m1" using "2.prems"(1,2) m1(1) by (blast intro: mgr_ok_probeTarget)
  show ?case
  proof (cases "t \<in> set us")
    case True
    then show ?thesis using "2.IH" [OF m1(1) ok "2.prems"(2) m1(2) _ "2.prems"(5)] by blast
  next
    case False
    with "2.prems"(4) have "u = t" by simp
    have "target_good t m1"
      using probeTarget_good [OF "2.prems"(1) _ m1(1) [unfolded \<open>u = t\<close>]] "2.prems"(2,5) by blast
    with probe_targets_other [OF m1(2) False] show ?thesis by (simp add: target_good_def)
  qed
qed simp

lemma prune_set_keeps:
  assumes "set_ok t ps" and "ps i = Some p" and "\<not> stale now p"
  shows "prune_set now iter ps i = Some p"
proof -
  have fold: "foldl (\<lambda>ps p. if stale now p then PathSet_Remove ps (p_ID p) else ps) qs xs i = Some p"
    if "\<forall>q\<in>set xs. p_ID q = i \<longrightarrow> q = p" "qs i = Some p" for qs xs
    using that assms(3) by (induction xs arbitrary: qs) (auto simp: PathSet_Remove_def)
  have "\<forall>q\<in>set (PathSet_All iter ps). p_ID q = i \<longrightarrow> q = p"
    using assms(1,2) by (auto simp: PathSet_All_def map_range_def set_ok_def)
  with assms(2) show ?thesis unfolding prune_set_def by (intro fold)
qed

lemma prune_good:
  assumes "mgr_ok m" and "target_good t m"
  shows "target_good t (pruneStalePaths now iters m)"
proof -
  obtain ps p where ps: "pathSets m t = Some ps" "ps (directPathID t) = Some p" "viable p" "3 / 10 \<le> SuccessRate (p_Metrics p)"
    using assms(2) by (auto simp: target_good_def direct_good_def)
  have "set_ok t ps" using assms(1) ps(1) by (simp add: mgr_ok_def)
  moreover have "\<not> stale now p" using ps(4) by (simp add: stale_def)
  ultimately have "prune_set now (iters t) ps (directPathID t) = Some p" using ps(2) by (intro prune_set_keeps)
  with ps show ?thesis by (auto simp: target_good_def direct_good_def pruneStalePaths_def)
qed

text \<open>A round does not panic when the identifiers have the eight characters that path identifiers use.\<close>

lemma probe_targets_runs:
  "\<forall>p\<in>set ts \<union> set relays. 8 \<le> length p \<Longrightarrow> \<exists>m'. probe_targets ws k m ts relays = Inr m'"
proof (induction ws k m ts relays rule: probe_targets.induct)
  case (2 ws k m t ts relays)
  have "\<not> (length t < 8 \<or> (\<exists>r\<in>set (other_relays m t relays). length r < 8))"
    using "2.prems" by (auto simp: other_relays_def not_less)
  then obtain m1 where "probeTarget (ws k) m t relays = Inr m1" by (auto simp: probeTarget_def Let_def)
  with 2 show ?case by auto
qed simp

text \<open>A round in which \<open>t\<close> is connected and answers.\<close>

definition good_round :: "peer_id \<Rightarrow> probe_round \<Rightarrow> bool" where
  "good_round t e \<longleftrightarrow> t \<in> set (po_peers e) \<and> (\<forall>p\<in>set (po_peers e) \<union> set (po_relays e). 8 \<le> length p)
     \<and> (\<forall>j i. 0 \<le> be_elapsed (pw_env (po_worlds e j) i)) \<and> (\<forall>j. peer_answers (po_worlds e j) t)"

lemma good_round_good:
  assumes "mgr_reachable m" and "good_round t e"
  shows "\<exists>m'. probe_once e m = Inr m' \<and> mgr_reachable m' \<and> target_good t m'"
proof -
  have ok: "mgr_ok m" using assms(1) by (rule mgr_reachable_ok)
  have g: "t \<in> set (po_peers e)" "\<forall>j i. 0 \<le> be_elapsed (pw_env (po_worlds e j) i)" "\<forall>j. peer_answers (po_worlds e j) t"
      "\<forall>p\<in>set (po_peers e) \<union> set (po_relays e). 8 \<le> length p" using assms(2) by (auto simp: good_round_def)
  obtain m1 where m1: "probe_targets (po_worlds e) 0 m (po_peers e) (po_relays e) = Inr m1" using probe_targets_runs [OF g(4)] by blast
  let ?m = "pruneStalePaths (po_now e) (po_iters e) m1"
  have p: "probe_once e m = Inr ?m" using g(1) m1 by (auto simp: probe_once_def probeAll_def)
  then have "mgr_reachable ?m" using mgr_reachable.probed [OF assms(1) g(2)] by (simp add: probe_once_def)
  moreover have "target_good t ?m"
    using prune_good [OF mgr_ok_probe_targets [OF ok g(2) m1] probe_targets_good [OF ok g(2) m1 g(1,3)]] .
  ultimately show ?thesis using p by blast
qed

lemma good_target_selected:
  assumes "mgr_reachable m" and "target_good t m" and "env_ok env"
  shows "\<exists>ps. pathSets m t = Some ps \<and> direct_good t ps
    \<and> (\<forall>iter. enumerates iter ps \<longrightarrow> (\<exists>p\<in>ran ps. fst (BestPath iter env m t) = Some p \<and> p_Target p = t))"
proof -
  obtain ps where ps: "pathSets m t = Some ps" "direct_good t ps" using assms(2) by (auto simp: target_good_def)
  have ok: "mgr_ok m" using assms(1) by (rule mgr_reachable_ok)
  then have "set_ok t ps" using ps(1) by (simp add: mgr_ok_def)
  then have t: "\<forall>p\<in>ran ps. p_Target p = t" by (auto simp: ran_def set_ok_def path_at_def)
  have ne: "ran ps \<noteq> {}" using ps(2) by (auto simp: direct_good_def ran_def)
  have "\<exists>p\<in>ran ps. fst (BestPath iter env m t) = Some p \<and> p_Target p = t" if "enumerates iter ps" for iter
    using BestPath_result [OF ok assms(3) ps(1) that, of "fst (BestPath iter env m t)" "snd (BestPath iter env m t)"] ne t by auto
  with ps show ?thesis by blast
qed

section \<open>Properties\<close>

text \<open>
  C20. Probing makes peers reachable: a peer that is connected and answers in every round of the probe loop has,
  from the first round on and after any number of them, a probed direct path with a success rate of at
  least 3/10, which pruning never removes, and \<^verbatim>\<open>BestPath\<close> under the manager's policy, whichever it is, returns a
  path to it; no round panics.
\<close>

theorem probing_discovers:
  assumes "mgr_reachable m" and "good_round t first" and "\<forall>e. Some e \<in> set es \<longrightarrow> good_round t e" and "env_ok env"
  shows "\<exists>m' ps. probeLoop first es m = Inr m' \<and> mgr_reachable m' \<and> pathSets m' t = Some ps \<and> direct_good t ps
    \<and> (\<forall>iter. enumerates iter ps \<longrightarrow> (\<exists>p\<in>ran ps. fst (BestPath iter env m' t) = Some p \<and> p_Target p = t))"
proof -
  obtain m1 where m1: "probe_once first m = Inr m1" "mgr_reachable m1 \<and> target_good t m1"
    using good_round_good [OF assms(1,2)] by blast
  have "\<exists>m'. ticker_loop probe_once es m1 = Inr m' \<and> (mgr_reachable m' \<and> target_good t m')"
  proof (rule ticker_loop_runs)
    show "mgr_reachable m1 \<and> target_good t m1" by (rule m1(2))
    fix e s assume "Some e \<in> set es" "mgr_reachable s \<and> target_good t s"
    with good_round_good [of s t e] assms(3) show "\<exists>s'. probe_once e s = Inr s' \<and> mgr_reachable s' \<and> target_good t s'" by blast
  qed
  then obtain m' where "probeLoop first es m = Inr m'" "mgr_reachable m'" "target_good t m'"
    using m1(1) by (auto simp: probeLoop_def)
  with good_target_selected [OF _ _ assms(4)] show ?thesis by blast
qed

definition wit_round :: probe_round where
  "wit_round = \<lparr>po_worlds = (\<lambda>_. wit_world), po_now = 100, po_iters = (\<lambda>_. [''direct-target00'']), po_peers = [''target00''], po_relays = []\<rparr>"

theorem probing_discovers_witness:
  "\<exists>m' ps. probeLoop wit_round [Some wit_round, None] wit_mgr0 = Inr m' \<and> mgr_reachable m' \<and> pathSets m' ''target00'' = Some ps
     \<and> direct_good ''target00'' ps"
proof -
  have g: "good_round ''target00'' wit_round"
    by (simp add: good_round_def wit_round_def wit_world_def wit_env_def peer_answers_def wit_net_def fun_eq_iff)
  have "env_ok wit_sel" by (simp add: env_ok_def wit_sel_def beta_ok_def)
  from probing_discovers [OF mgr_reachable.created [OF wit_created] g _ this, of "[Some wit_round, None]"] g show ?thesis by auto
qed

end
