(* ===== verification/Metrics.thy ===== *)
theory Metrics
  imports Prelude
begin

text \<open>
  The metrics of a node (\<^verbatim>\<open>internal/metrics/metrics.go\<close>): the collectors and their registration. The Prometheus library is
  an argument; \<open>prom_ok\<close> states what it documents of a registry. The counters themselves are part of the components that
  change them; the cache keeps its hits and misses.
\<close>

section \<open>Collectors\<close>

datatype metric_kind =
    Gauge | Counter | CounterVec "string list" | Histogram "real list" | HistogramVec "real list" "string list"

record metric_opts =
  mo_Namespace :: string
  mo_Name :: string
  mo_Help :: string
  mo_Kind :: metric_kind

text \<open>\<open>Register\<close> is \<open>None\<close> for the error that \<^verbatim>\<open>MustRegister\<close> turns into a panic.\<close>

record 'r prom_lib =
  NewRegistry :: 'r
  Register :: "metric_opts \<Rightarrow> 'r \<Rightarrow> 'r option"
  ExponentialBuckets :: "real \<Rightarrow> real \<Rightarrow> nat \<Rightarrow> real list"

definition metric :: "string \<Rightarrow> string \<Rightarrow> metric_kind \<Rightarrow> metric_opts" where
  "metric name doc kind = \<lparr>mo_Namespace = ''pathaware_libp2p'', mo_Name = name, mo_Help = doc, mo_Kind = kind\<rparr>"

definition Metrics :: "'r prom_lib \<Rightarrow> metric_opts list" where
  "Metrics lib =
     [metric ''peers_connected'' ''Number of currently connected peers.'' Gauge,
      metric ''relay_peers_available'' ''Number of relay-capable peers.'' Gauge,
      metric ''probe_rtt_seconds'' ''Round-trip time for path probes.''
        (HistogramVec (ExponentialBuckets lib (1 / 1000) 2 15) [''path_type'']),
      metric ''probe_failures_total'' ''Total number of failed probes.'' Counter,
      metric ''ping_rtt_seconds'' ''Round-trip time for ping requests.''
        (HistogramVec (ExponentialBuckets lib (1 / 1000) 2 15) [''target_peer'']),
      metric ''cache_hits_total'' ''Total number of block cache hits.'' Counter,
      metric ''cache_misses_total'' ''Total number of block cache misses.'' Counter,
      metric ''cache_bytes'' ''Current size of the block cache in bytes.'' Gauge,
      metric ''block_fetch_duration_seconds'' ''Time to fetch a content block by source.''
        (HistogramVec (ExponentialBuckets lib (1 / 1000) 2 12) [''source'']),
      metric ''blocks_transferred_total'' ''Total blocks transferred by direction.'' (CounterVec [''direction'']),
      metric ''content_retrievals_total'' ''Total content retrieval operations.'' Counter,
      metric ''path_selections_total'' ''Path selections by type.'' (CounterVec [''path_type'']),
      metric ''stale_paths_pruned_total'' ''Total paths pruned due to staleness.'' Counter,
      metric ''blocks_replicated_total'' ''Total blocks replicated to peers.'' Counter,
      metric ''erasure_encode_seconds'' ''Time to erasure-encode a block into fragments.''
        (Histogram (ExponentialBuckets lib (1 / 10000) 2 10)),
      metric ''erasure_decode_seconds'' ''Time to reconstruct a block from erasure-coded fragments.''
        (Histogram (ExponentialBuckets lib (1 / 10000) 2 10)),
      metric ''fragments_stored_total'' ''Total erasure-coded fragments stored.'' Counter]"

fun MustRegister :: "'r prom_lib \<Rightarrow> metric_opts list \<Rightarrow> 'r \<Rightarrow> 'r option" where
  "MustRegister lib [] reg = Some reg"
| "MustRegister lib (m # ms) reg = (case Register lib m reg of None \<Rightarrow> None | Some reg' \<Rightarrow> MustRegister lib ms reg')"

definition Metrics_New :: "'r prom_lib \<Rightarrow> 'r option" where
  "Metrics_New lib = MustRegister lib (Metrics lib) (NewRegistry lib)"

text \<open>The address the metrics server listens on; none for an empty one.\<close>

definition StartMetricsServer :: "string \<Rightarrow> string option" where
  "StartMetricsServer addr = (if addr = [] then None else Some addr)"

section \<open>The contract of the library\<close>

definition fqName :: "metric_opts \<Rightarrow> string" where
  "fqName m = mo_Namespace m @ ''_'' @ mo_Name m"

definition name_char :: "char \<Rightarrow> bool" where
  "name_char c \<longleftrightarrow> c = CHR ''_'' \<or> (let n = (of_char c :: nat) in 97 \<le> n \<and> n \<le> 122 \<or> 65 \<le> n \<and> n \<le> 90 \<or> 48 \<le> n \<and> n \<le> 57)"

definition valid_name :: "string \<Rightarrow> bool" where
  "valid_name s \<longleftrightarrow> s \<noteq> [] \<and> list_all name_char s \<and> (of_char (hd s) :: nat) > 57"

fun kind_labels :: "metric_kind \<Rightarrow> string list" where
  "kind_labels (CounterVec ls) = ls"
| "kind_labels (HistogramVec bs ls) = ls"
| "kind_labels _ = []"

definition valid_metric :: "metric_opts \<Rightarrow> bool" where
  "valid_metric m \<longleftrightarrow> valid_name (fqName m) \<and> distinct (kind_labels (mo_Kind m))
     \<and> list_all (\<lambda>l. valid_name l \<and> l \<noteq> ''le'') (kind_labels (mo_Kind m))"

text \<open>A registry takes valid collectors whose names it does not have, and refuses those it has (\<open>names\<close>).\<close>

definition prom_ok :: "('r \<Rightarrow> string set) \<Rightarrow> 'r prom_lib \<Rightarrow> bool" where
  "prom_ok names lib \<longleftrightarrow> names (NewRegistry lib) = {}
     \<and> (\<forall>m reg. valid_metric m \<longrightarrow> fqName m \<notin> names reg \<longrightarrow>
          (\<exists>reg'. Register lib m reg = Some reg' \<and> names reg' = insert (fqName m) (names reg)))
     \<and> (\<forall>m reg. fqName m \<in> names reg \<longrightarrow> Register lib m reg = None)"

section \<open>Lemmas\<close>

lemma MustRegister_fresh:
  "prom_ok names lib \<Longrightarrow> list_all valid_metric ms \<Longrightarrow> distinct (map fqName ms) \<Longrightarrow> set (map fqName ms) \<inter> names reg = {} \<Longrightarrow>
   \<exists>reg'. MustRegister lib ms reg = Some reg' \<and> names reg' = set (map fqName ms) \<union> names reg"
proof (induction ms arbitrary: reg)
  case (Cons m ms)
  have m: "valid_metric m" "fqName m \<notin> names reg" using Cons.prems(2,4) by auto
  obtain reg1 where r: "Register lib m reg = Some reg1" "names reg1 = insert (fqName m) (names reg)"
    using Cons.prems(1) m unfolding prom_ok_def by blast
  with Cons.IH [of reg1] Cons.prems show ?case by auto
qed simp

lemma Metrics_valid: "list_all valid_metric (Metrics lib)" "distinct (map fqName (Metrics lib))" "length (Metrics lib) = 17"
  by (simp_all add: Metrics_def metric_def valid_metric_def valid_name_def fqName_def name_char_def)

text \<open>
  Setting up the metrics never panics on a registry of their own; a second set of them in the same registry would, which
  is why every node has its own.
\<close>

lemma Metrics_New_registers:
  assumes "prom_ok names lib"
  shows "\<exists>reg. Metrics_New lib = Some reg \<and> names reg = fqName ` set (Metrics lib) \<and> MustRegister lib (Metrics lib) reg = None"
proof -
  obtain reg where r: "Metrics_New lib = Some reg" "names reg = fqName ` set (Metrics lib)"
    using MustRegister_fresh [OF assms Metrics_valid(1,2) [of lib], where reg = "NewRegistry lib"] assms by (auto simp: Metrics_New_def prom_ok_def)
  obtain m ms where m: "Metrics lib = m # ms" using Metrics_valid(3) [of lib] by (cases "Metrics lib") auto
  then have "Register lib m reg = None" using assms r(2) by (auto simp: prom_ok_def)
  with m r show ?thesis by auto
qed

end
