(* ===== verification/CLI.thy ===== *)
theory CLI
  imports Server
begin

text \<open>
  The command line (\<^verbatim>\<open>cmd\<close>): the commands that send a request to the HTTP interface of a running daemon
  and print its reply, and the start of the daemon. What becomes of a request on its way is an argument
  (\<open>delivery\<close>), as is what the client decodes of a JSON reply; parsing of URLs and queries, which the
  commands build without escaping, is modelled as \<^verbatim>\<open>net/url\<close> does it. A command returns an error or the
  text it prints.
\<close>

section \<open>Requests\<close>

definition status_code :: "http_status \<Rightarrow> int" where
  "status_code s = (case s of StatusMethodNotAllowed \<Rightarrow> 405 | StatusServiceUnavailable \<Rightarrow> 503 | StatusBadRequest \<Rightarrow> 400
     | StatusInternalServerError \<Rightarrow> 500 | StatusNotFound \<Rightarrow> 404 | StatusForbidden \<Rightarrow> 403)"

text \<open>A request may not reach the daemon, or its reply may be lost.\<close>

datatype delivery = NotSent | ReplyLost | Delivered

datatype cli_error =
    FileNotFound | IsDirectory | ResolvePath | MarshalRequest | CreateRequest | RequestFailed | FailedWithStatus int
  | DecodeResponse | CreateOutputFile | WriteOutput | StartNode start_error | CloseHostFailed

text \<open>
  The query of the URL that is sent: \<^verbatim>\<open>url.Parse\<close> cuts off the fragment and refuses control characters and
  fragments with a bad escape.
\<close>

definition sent_query :: "string \<Rightarrow> cli_error + string" where
  "sent_query q =
     (case cut (CHR ''#'') q of (u, frag) \<Rightarrow>
        if has_ctl u \<or> unescape False frag = None then Inl CreateRequest else Inr u)"

text \<open>A space in the query makes the request line malformed; the server then answers with status 400.\<close>

definition http_Do :: "delivery \<Rightarrow> string \<Rightarrow> ('n \<Rightarrow> (http_status + 'r) \<times> 'n) \<Rightarrow> 'n \<Rightarrow> (cli_error + 'r) \<times> 'n" where
  "http_Do del q handler n =
     (case sent_query q of
        Inl e \<Rightarrow> (Inl e, n)
      | Inr u \<Rightarrow>
          (if CHR '' '' \<in> set u then (Inl (if del = Delivered then FailedWithStatus 400 else RequestFailed), n)
           else case del of
             NotSent \<Rightarrow> (Inl RequestFailed, n)
           | ReplyLost \<Rightarrow> (Inl RequestFailed, snd (handler n))
           | Delivered \<Rightarrow>
               (case handler n of
                  (Inl s, n') \<Rightarrow> (Inl (FailedWithStatus (status_code s)), n')
                | (Inr r, n') \<Rightarrow> (Inr r, n'))))"

text \<open>The reply of a handler that only reads the node.\<close>

definition http_Get :: "delivery \<Rightarrow> string \<Rightarrow> (http_status + 'r) \<Rightarrow> cli_error + 'r" where
  "http_Get del q reply = fst (http_Do del q (\<lambda>u. (reply, u)) ())"

definition decode_reply :: "('r \<Rightarrow> 'r option) \<Rightarrow> cli_error + 'r \<Rightarrow> cli_error + 'r" where
  "decode_reply dec r =
     (case r of Inl e \<Rightarrow> Inl e | Inr x \<Rightarrow> (case dec x of None \<Rightarrow> Inl DecodeResponse | Some y \<Rightarrow> Inr y))"

section \<open>Printing\<close>

definition truncatePeerID :: "string \<Rightarrow> string" where
  "truncatePeerID s = (if 16 < length s then take 8 s @ ''...'' @ drop (length s - 8) s else s)"

definition truncateCID :: "string \<Rightarrow> string" where
  "truncateCID s = (if 16 < length s then take 8 s @ ''...'' @ drop (length s - 8) s else s)"

definition label :: "string \<Rightarrow> string" where
  "label s = ''  '' @ pad_right 12 s"

section \<open>publish\<close>

text \<open>\<^verbatim>\<open>filepath.Base\<close> and \<^verbatim>\<open>filepath.Abs\<close> on Unix; \<open>cwd\<close> is \<open>None\<close> when the working directory is unknown.\<close>

definition path_Base :: "string \<Rightarrow> string" where
  "path_Base p =
     (if p = [] then ''.''
      else let q = rev (dropWhile (\<lambda>c. c = CHR ''/'') (rev p)) in
        if q = [] then ''/'' else rev (takeWhile (\<lambda>c. c \<noteq> CHR ''/'') (rev q)))"

definition path_Abs :: "string option \<Rightarrow> string \<Rightarrow> string option" where
  "path_Abs cwd p =
     (if p \<noteq> [] \<and> hd p = CHR ''/'' then Some (path_Clean p) else map_option (\<lambda>wd. path_Join [wd, p]) cwd)"

datatype stat_result = StatFailed | Directory | RegularFile

text \<open>\<open>pc_wire\<close>: what the server decodes of the encoded request, \<open>None\<close> for the encoder's error.\<close>

record publish_client =
  pc_stat :: "string \<Rightarrow> stat_result"
  pc_cwd :: "string option"
  pc_wire :: "publish_request \<Rightarrow> publish_request option option"
  pc_delivery :: delivery
  pc_decode :: "publish_response \<Rightarrow> publish_response option"

definition publish_text :: "publish_response \<Rightarrow> string" where
  "publish_text pr =
     ''Published: '' @ resp_Name pr @ newline @ ''Root CID: '' @ resp_RootCID pr @ newline
     @ ''Size:     '' @ int_digits (resp_TotalSize pr) @ '' bytes'' @ newline
     @ ''Chunks:   '' @ int_digits (int (NumChunks pr)) @ newline"

definition runPublish :: "publish_client \<Rightarrow> 'k publish_env \<Rightarrow> string \<Rightarrow> Node \<Rightarrow> (cli_error + string) \<times> Node" where
  "runPublish pc env filePath n =
     (case pc_stat pc filePath of
        StatFailed \<Rightarrow> (Inl FileNotFound, n)
      | Directory \<Rightarrow> (Inl IsDirectory, n)
      | RegularFile \<Rightarrow>
          (case path_Abs (pc_cwd pc) filePath of
             None \<Rightarrow> (Inl ResolvePath, n)
           | Some absPath \<Rightarrow>
               (case pc_wire pc \<lparr>FilePath = absPath, req_Name = path_Base filePath\<rparr> of
                  None \<Rightarrow> (Inl MarshalRequest, n)
                | Some body \<Rightarrow>
                    (case http_Do (pc_delivery pc) [] (\<lambda>n. case handlePublish env POST body n of (r, n', _) \<Rightarrow> (r, n')) n of
                       (Inl e, n') \<Rightarrow> (Inl e, n')
                     | (Inr resp, n') \<Rightarrow>
                         (case pc_decode pc resp of
                            None \<Rightarrow> (Inl DecodeResponse, n')
                          | Some pr \<Rightarrow> (Inr (publish_text pr), n'))))))"

section \<open>fetch\<close>

text \<open>
  The output of a fetch: the standard output, or the file that was created empty and written as far as
  the body arrived and the disk took it. \<open>fc_cut\<close> is the number of bytes a connection
  delivers that breaks before the end of the body, \<open>fc_write\<close> the number the disk takes.
\<close>

record fetch_client =
  fc_delivery :: delivery
  fc_cut :: "nat option"
  fc_create_fails :: "string \<Rightarrow> bool"
  fc_write :: "string \<Rightarrow> nat option"

definition io_Copy :: "nat option \<Rightarrow> nat option \<Rightarrow> bytes \<Rightarrow> bytes \<times> bool" where
  "io_Copy conn disk body =
     (let got = (case conn of None \<Rightarrow> body | Some i \<Rightarrow> take i body);
          put = (case disk of None \<Rightarrow> got | Some j \<Rightarrow> take j got)
      in (put, conn = None \<and> (case disk of None \<Rightarrow> True | Some j \<Rightarrow> length got \<le> j)))"

definition runFetch ::
  "fetch_client \<Rightarrow> fetch_env \<Rightarrow> cid \<Rightarrow> string \<Rightarrow> file_system \<Rightarrow> Node \<Rightarrow> go_panic + (cli_error + bytes \<times> string) \<times> file_system \<times> Node" where
  "runFetch fc env rootCID output files n =
     (case sent_query (''cid='' @ rootCID) of
        Inl e \<Rightarrow> Inr (Inl e, files, n)
      | Inr u \<Rightarrow>
          (if CHR '' '' \<in> set u then Inr (Inl (if fc_delivery fc = Delivered then FailedWithStatus 400 else RequestFailed), files, n)
           else if fc_delivery fc = NotSent then Inr (Inl RequestFailed, files, n)
           else case handleFetch env GET (query_value ''cid'' u) n of
             Inl p \<Rightarrow> Inl p
           | Inr (reply, n') \<Rightarrow>
               (if fc_delivery fc = ReplyLost then Inr (Inl RequestFailed, files, n')
                else case reply of
                  Inl s \<Rightarrow> Inr (Inl (FailedWithStatus (status_code s)), files, n')
                | Inr body \<Rightarrow>
                    (if output = [] then
                       (case io_Copy (fc_cut fc) None body of
                          (written, ok) \<Rightarrow> Inr (if ok then Inr (written, []) else Inl WriteOutput, files, n'))
                     else if fc_create_fails fc output then Inr (Inl CreateOutputFile, files, n')
                     else case io_Copy (fc_cut fc) (fc_write fc output) body of
                       (written, ok) \<Rightarrow>
                         Inr (if ok then Inr ([], ''Fetched '' @ int_digits (int (length written)) @ '' bytes to '' @ output @ newline)
                              else Inl WriteOutput, files(output \<mapsto> written), n')))))"

section \<open>pin, unpin, pins\<close>

text \<open>\<open>wire\<close>: what the server decodes of the identifier.\<close>

definition runPin ::
  "delivery \<Rightarrow> (cid \<Rightarrow> cid option) \<Rightarrow> (cid list \<Rightarrow> bytes option) \<Rightarrow> cid list \<Rightarrow> os \<Rightarrow> cid \<Rightarrow> Node \<Rightarrow> (cli_error + string) \<times> Node" where
  "runPin del wire marshal iter os cid n =
     (case http_Do del [] (handlePin marshal iter os POST (wire cid)) n of
        (Inl e, n') \<Rightarrow> (Inl e, n')
      | (Inr _, n') \<Rightarrow> (Inr (''Pinned: '' @ cid @ newline), n'))"

definition runUnpin ::
  "delivery \<Rightarrow> (cid \<Rightarrow> cid option) \<Rightarrow> (cid list \<Rightarrow> bytes option) \<Rightarrow> cid list \<Rightarrow> os \<Rightarrow> cid \<Rightarrow> Node \<Rightarrow> (cli_error + string) \<times> Node" where
  "runUnpin del wire marshal iter os cid n =
     (case http_Do del [] (handlePin marshal iter os DELETE (wire cid)) n of
        (Inl e, n') \<Rightarrow> (Inl e, n')
      | (Inr _, n') \<Rightarrow> (Inr (''Unpinned: '' @ cid @ newline), n'))"

definition runListPins :: "delivery \<Rightarrow> (cid list \<Rightarrow> cid list option) \<Rightarrow> cid list \<Rightarrow> Node \<Rightarrow> cli_error + string" where
  "runListPins del dec iter n =
     (case decode_reply dec (http_Get del [] (handleListPins iter GET n)) of
        Inl e \<Rightarrow> Inl e
      | Inr ps \<Rightarrow>
          Inr (if length ps = 0 then ''No pinned CIDs.'' @ newline
               else ''Pinned CIDs: '' @ int_digits (int (length ps)) @ newline @ concat (map (\<lambda>cid. ''  '' @ cid @ newline) ps)))"

section \<open>find, peers, paths, ping\<close>

definition runFind ::
  "delivery \<Rightarrow> (AddrInfo list \<Rightarrow> AddrInfo list option) \<Rightarrow> ('d, 'c) dht \<Rightarrow> 'd \<Rightarrow> cid \<Rightarrow> Node \<Rightarrow> cli_error + string" where
  "runFind del dec D d cid n =
     (let q = ''cid='' @ cid in
      case decode_reply dec (http_Get del q (handleFindProviders D d GET (query_value ''cid'' (fst (cut (CHR ''#'') q))) n)) of
        Inl e \<Rightarrow> Inl e
      | Inr providers \<Rightarrow>
          Inr (if length providers = 0 then ''No providers found for this CID.'' @ newline
               else ''Found '' @ int_digits (int (length providers)) @ '' provider(s) for CID '' @ truncateCID cid @ '':'' @ newline @ newline
                 @ concat (map (\<lambda>p. ''  Peer: '' @ truncatePeerID (ai_ID p) @ newline
                     @ concat (map (\<lambda>addr. ''    '' @ addr @ newline) (ai_Addrs p)) @ newline) providers)))"

definition runPeers :: "delivery \<Rightarrow> (PeerInfo list \<Rightarrow> PeerInfo list option) \<Rightarrow> host_view \<Rightarrow> bool \<Rightarrow> Node \<Rightarrow> cli_error + string" where
  "runPeers del dec hv verbose n =
     (case decode_reply dec (http_Get del [] (handlePeers hv GET n)) of
        Inl e \<Rightarrow> Inl e
      | Inr peers \<Rightarrow>
          Inr (if length peers = 0 then ''No connected peers.'' @ newline
               else ''Connected peers: '' @ int_digits (int (length peers)) @ newline
                 @ concat (map (\<lambda>p. ''  '' @ pinfo_ID p @ newline
                     @ (if verbose then concat (map (\<lambda>a. ''    addr: '' @ a @ newline) (pinfo_Addrs p))
                          @ concat (map (\<lambda>a. ''    proto: '' @ a @ newline) (Protocols p)) else [])) peers)))"

definition path_text :: "pathInfoJSON \<Rightarrow> string" where
  "path_text p =
     label ''Path ID:'' @ '' '' @ pj_ID p @ newline @ label ''Target:'' @ '' '' @ truncatePeerID (pj_Target p) @ newline
     @ label ''Type:'' @ '' '' @ pj_Type p @ newline
     @ (if 0 < length (pj_RelayChain p)
        then label ''Relays:'' @ concat (map (\<lambda>r. '' '' @ truncatePeerID r) (pj_RelayChain p)) @ newline else [])
     @ label ''Avg RTT:'' @ '' '' @ pj_AvgRTT p @ newline @ label ''Hops:'' @ '' '' @ int_digits (pj_HopCount p) @ newline
     @ label ''Success:'' @ '' '' @ fmt_fixed 1 (pj_SuccessRate p * 100) @ ''%'' @ newline
     @ label ''Samples:'' @ '' '' @ int_digits (pj_SampleCount p) @ newline @ newline"

definition runPaths ::
  "delivery \<Rightarrow> (string \<times> pathInfoJSON list \<Rightarrow> (string \<times> pathInfoJSON list) option) \<Rightarrow> (string \<Rightarrow> peer_id option) \<Rightarrow> (int \<Rightarrow> string) \<Rightarrow>
     path_iter \<Rightarrow> string \<Rightarrow> Node \<Rightarrow> cli_error + string" where
  "runPaths del dec decode rfc3339 it pathsPeer n =
     (let q = (if pathsPeer \<noteq> [] then ''peer='' @ pathsPeer else []) in
      case decode_reply dec (http_Get del q (handlePaths decode rfc3339 it GET (query_value ''peer'' (fst (cut (CHR ''#'') q))) n)) of
        Inl e \<Rightarrow> Inl e
      | Inr (policy, paths) \<Rightarrow>
          Inr (''Policy: '' @ policy @ newline
            @ (if length paths = 0 then ''No paths discovered yet.'' @ newline
               else ''Paths: '' @ int_digits (int (length paths)) @ newline @ newline @ concat (map path_text paths))))"

fun ping_lines :: "(ping_error \<Rightarrow> string) \<Rightarrow> nat \<Rightarrow> nat \<Rightarrow> pingResult list \<Rightarrow> string \<times> nat" where
  "ping_lines err i ok [] = ([], ok)"
| "ping_lines err i ok (r # rs) =
     (let e = (case ping_Error r of None \<Rightarrow> [] | Some e \<Rightarrow> err e) in
      if e \<noteq> [] then (case ping_lines err (Suc i) ok rs of
          (t, k) \<Rightarrow> (''  ping '' @ nat_digits (i + 1) @ '': error: '' @ e @ newline @ t, k))
      else (case ping_lines err (Suc i) (Suc ok) rs of
          (t, k) \<Rightarrow> (''  ping '' @ nat_digits (i + 1) @ '': rtt='' @ ping_RTT r @ newline @ t, k)))"

text \<open>The request may take five seconds per ping, so with a count below one it has expired when it is sent.\<close>

definition runPing ::
  "delivery \<Rightarrow> (pingResult list \<Rightarrow> pingResult list option) \<Rightarrow> (ping_error \<Rightarrow> string) \<Rightarrow> (string \<Rightarrow> peer_id option) \<Rightarrow> network \<Rightarrow>
     (nat \<Rightarrow> ping_env) \<Rightarrow> string \<Rightarrow> int \<Rightarrow> cli_error + string" where
  "runPing del dec err decode net env peerID pingCount =
     (let q = ''peer='' @ peerID @ ''&count='' @ int_digits pingCount; u = fst (cut (CHR ''#'') q) in
      case decode_reply dec (http_Get (if pingCount \<le> 0 then NotSent else del) q
             (handlePing decode net env GET (query_value ''peer'' u) (query_value ''count'' u))) of
        Inl e \<Rightarrow> Inl e
      | Inr results \<Rightarrow>
          (case ping_lines err 0 0 results of
             (t, ok) \<Rightarrow> Inr (''PING '' @ peerID @ '' ('' @ int_digits pingCount @ '' pings)'' @ newline @ t
                  @ ''--- '' @ nat_digits ok @ ''/'' @ int_digits (int (length results)) @ '' successful ---'' @ newline)))"

section \<open>daemon\<close>

record daemon_flags =
  df_listen :: "string list"
  df_bootstrap :: "string list"
  df_dataDir :: string
  df_enableRelay :: bool
  df_enableMDNS :: bool
  df_apiAddr :: string
  df_metricsAddr :: string
  df_pathPolicy :: string
  df_pathEpsilon :: real

definition default_flags :: daemon_flags where
  "default_flags = \<lparr>df_listen = [''/ip4/127.0.0.1/tcp/9000''], df_bootstrap = [], df_dataDir = [], df_enableRelay = True,
     df_enableMDNS = True, df_apiAddr = ''127.0.0.1:9090'', df_metricsAddr = '':2112'', df_pathPolicy = ''balanced'', df_pathEpsilon = 1 / 10\<rparr>"

definition daemon_config :: "string \<Rightarrow> daemon_flags \<Rightarrow> Config" where
  "daemon_config home fl =
     (let cfg = (DefaultConfig home)\<lparr>ListenAddrs := df_listen fl, BootstrapPeers := df_bootstrap fl, EnableRelay := df_enableRelay fl,
            EnableMDNS := df_enableMDNS fl, APIAddr := df_apiAddr fl, MetricsAddr := df_metricsAddr fl,
            PathPolicy := df_pathPolicy fl, PathEpsilon := df_pathEpsilon fl\<rparr>
      in if df_dataDir fl \<noteq> [] then cfg\<lparr>DataDir := df_dataDir fl\<rparr> else cfg)"

text \<open>
  The daemon starts the node, prints its addresses, serves requests until a signal arrives (\<open>serve\<close>: what they
  make of the node) and closes the node. A start that failed is reported without closing anything.
\<close>

definition runDaemon ::
  "start_env \<Rightarrow> string list \<Rightarrow> (Node \<Rightarrow> Node) \<Rightarrow> bool \<Rightarrow> string \<Rightarrow> daemon_flags \<Rightarrow> file_system \<Rightarrow>
     cli_error option \<times> string \<times> stop_action list \<times> Node" where
  "runDaemon env addrs serve close_ok home fl fs =
     (let cfg = daemon_config home fl in
      case Start env (New cfg fs) of
        (Some e, n) \<Rightarrow> (Some (StartNode e), [], [], n)
      | (None, n) \<Rightarrow>
          (let printed = ''Peer ID: '' @ PeerID n @ newline @ ''API:     http://'' @ APIAddr cfg @ newline
                 @ concat (map (\<lambda>a. ''Listen:  '' @ a @ ''/p2p/'' @ PeerID n @ newline) addrs);
               n' = serve n
           in case Stop close_ok n' of
                (True, acts) \<Rightarrow> (None, printed, acts, n')
              | (False, acts) \<Rightarrow> (Some CloseHostFailed, printed, acts, n')))"

section \<open>The root command\<close>

text \<open>
  \<^verbatim>\<open>fetchManifest\<close> does not look at the status: the text of an error reply is decoded, and fails to decode because it is
  no JSON object.
\<close>

definition fetchManifest ::
  "delivery \<Rightarrow> (manifest_response \<Rightarrow> 'm option) \<Rightarrow> fetch_env \<Rightarrow> cid \<Rightarrow> Node \<Rightarrow> cli_error + 'm" where
  "fetchManifest del dec env rootCID n =
     (let q = ''cid='' @ rootCID in
      case http_Get del q (handleManifest env GET (query_value ''cid'' (fst (cut (CHR ''#'') q))) n) of
        Inl (FailedWithStatus s) \<Rightarrow> Inl DecodeResponse
      | Inl e \<Rightarrow> Inl e
      | Inr r \<Rightarrow> (case dec r of None \<Rightarrow> Inl DecodeResponse | Some x \<Rightarrow> Inr x))"

text \<open>\<open>present\<close> is the outcome of \<^verbatim>\<open>os.Stat\<close>, \<open>home\<close> that of \<^verbatim>\<open>os.UserHomeDir\<close>.\<close>

definition LoadConfigFile ::
  "os \<Rightarrow> (path \<Rightarrow> bool) \<Rightarrow> (bytes \<Rightarrow> 'cfg option) \<Rightarrow> string option \<Rightarrow> string \<Rightarrow> file_system \<Rightarrow> 'cfg option" where
  "LoadConfigFile os present unmarshal home cfgFile fs =
     (let p1 = (if cfgFile = [] then
                  (case home of
                     None \<Rightarrow> []
                   | Some h \<Rightarrow> (let defaultPath = path_Join [h, ''.pathaware-libp2p'', ''config.json'']
                               in if present defaultPath then defaultPath else []))
                else cfgFile);
          p2 = (if p1 = [] \<and> present ''pathaware-libp2p.json'' then ''pathaware-libp2p.json'' else p1)
      in if p2 = [] then None
         else case os_ReadFile os p2 fs of ReadOk data \<Rightarrow> unmarshal data | _ \<Rightarrow> None)"

datatype log_level = LevelDebug | LevelInfo | LevelWarn | LevelError

definition setupLogging :: "string \<Rightarrow> log_level" where
  "setupLogging level =
     (if level = ''debug'' then LevelDebug else if level = ''warn'' then LevelWarn else if level = ''error'' then LevelError
      else LevelInfo)"

text \<open>The exit status of the program.\<close>

definition main_exit :: "'e option \<Rightarrow> nat" where
  "main_exit err = (if err \<noteq> None then 1 else 0)"

section \<open>Lemmas: queries\<close>

text \<open>Characters that mean themselves in a query.\<close>

definition query_safe :: "string \<Rightarrow> bool" where
  "query_safe s \<longleftrightarrow> (\<forall>c\<in>set s. c \<notin> {CHR ''%'', CHR ''&'', CHR ''#'', CHR ''+'', CHR '';'', CHR '' ''}) \<and> \<not> has_ctl s"

lemma cut_absent: "c \<notin> set s \<Longrightarrow> cut c s = (s, [])"
  by (induction s) (auto simp: cut_def)

lemma unescape_safe: "\<forall>c\<in>set s. c \<noteq> CHR ''%'' \<and> c \<noteq> CHR ''+'' \<Longrightarrow> unescape inq s = Some s"
  by (induction s) auto

lemma split_amp_absent: "CHR ''&'' \<notin> set s \<Longrightarrow> split_amp s = [s]"
  by (induction s) auto

lemma cid_query:
  assumes "query_safe v"
  shows "sent_query (''cid='' @ v) = Inr (''cid='' @ v)" "CHR '' '' \<notin> set (''cid='' @ v)" "query_value ''cid'' (''cid='' @ v) = v"
proof -
  have v: "\<forall>c\<in>set v. c \<noteq> CHR ''%'' \<and> c \<noteq> CHR ''+''" "CHR ''&'' \<notin> set v" "CHR ''#'' \<notin> set v" "CHR '';'' \<notin> set v"
      "CHR '' '' \<notin> set v" "\<not> has_ctl v"
    using assms by (auto simp: query_safe_def)
  have c: "cut (CHR ''#'') (''cid='' @ v) = (''cid='' @ v, [])" using v(3) by (intro cut_absent) simp
  have "\<not> has_ctl (''cid='' @ v)" using v(6) by (simp add: has_ctl_def)
  with c show "sent_query (''cid='' @ v) = Inr (''cid='' @ v)" by (simp add: sent_query_def)
  show "CHR '' '' \<notin> set (''cid='' @ v)" using v(5) by simp
  have s: "split_amp (''cid='' @ v) = [''cid='' @ v]" using v(2) by (intro split_amp_absent) simp
  have p: "parse_pair (''cid='' @ v) = Some (''cid'', v)" using v(4) unescape_safe [OF v(1)] by (simp add: parse_pair_def cut_def)
  show "query_value ''cid'' (''cid='' @ v) = v" unfolding query_value_def s by (simp add: List.map_filter_def p [simplified])
qed

lemma hex_encode_codes: "c \<in> set (hex_encode bs) \<Longrightarrow> (of_char c :: nat) \<in> {48..57} \<union> {97..102}"
proof (induction bs)
  case (Cons b bs)
  have d: "(of_char (hex_digit n) :: nat) \<in> {48..57} \<union> {97..102}" if "n < 16" for n using that by (auto simp: hex_digit_def)
  have "unat b div 16 < 16" using unat_byte_bound [of b] by simp
  from d [OF this] d [of "unat b mod 16"] Cons show ?case by (cases "c \<in> set (hex_encode bs)") auto
qed simp

lemma query_safe_hex: "query_safe (hex_encode bs)"
  using hex_encode_codes [of _ bs] by (fastforce simp: query_safe_def has_ctl_def list_ex_iff)

text \<open>The paths the commands request are routes of the server, to the handlers whose replies they read.\<close>

lemma command_routes:
  "mux_handler ''/api/v1/publish'' = To HandlePublish" "mux_handler ''/api/v1/fetch'' = To HandleFetch"
  "mux_handler ''/api/v1/pin'' = To HandlePin" "mux_handler ''/api/v1/pins'' = To HandleListPins"
  "mux_handler ''/api/v1/find'' = To HandleFindProviders" "mux_handler ''/api/v1/peers'' = To HandlePeers"
  "mux_handler ''/api/v1/paths'' = To HandlePaths" "mux_handler ''/api/v1/ping'' = To HandlePing"
  "mux_handler ''/api/v1/manifest'' = To HandleManifest"
  by (simp_all add: mux_handler_To api_routes_def)

text \<open>A configuration file that is named wins over the default places, and one that is absent or broken is ignored.\<close>

lemma LoadConfigFile_named:
  "cfgFile \<noteq> [] \<Longrightarrow> LoadConfigFile os present unmarshal home cfgFile fs =
     (case os_ReadFile os cfgFile fs of ReadOk data \<Rightarrow> unmarshal data | _ \<Rightarrow> None)"
  by (simp add: LoadConfigFile_def)

section \<open>Publishing and fetching from the command line\<close>

lemma runPublish_Inr:
  assumes "runPublish pc env filePath n = (Inr out, n')"
  obtains absPath body resp pr ann where "path_Abs (pc_cwd pc) filePath = Some absPath"
    "pc_wire pc \<lparr>FilePath = absPath, req_Name = path_Base filePath\<rparr> = Some body"
    "handlePublish env POST body n = (Inr resp, n', ann)" "pc_decode pc resp = Some pr" "out = publish_text pr"
  using assms
  by (auto simp: runPublish_def http_Do_def sent_query_def cut_def has_ctl_def
      split: stat_result.splits option.splits prod.splits sum.splits delivery.splits)

text \<open>A fetch that reports success wrote exactly the body the daemon sent.\<close>

lemma runFetch_complete:
  assumes "runFetch fc env cid output files n = Inr (Inr r, files', n')" and "query_safe cid" and "output \<noteq> []"
  shows "\<exists>body. handleFetch env GET cid n = Inr (Inr body, n') \<and> files' = files(output \<mapsto> body)"
  using assms(1,3)
  by (auto simp: runFetch_def cid_query [OF assms(2), simplified] io_Copy_def Let_def
      split: if_splits sum.splits prod.splits option.splits)


definition wit_pc :: publish_client where
  "wit_pc = \<lparr>pc_stat = (\<lambda>_. RegularFile), pc_cwd = Some ''/w'', pc_wire = (\<lambda>r. Some (Some r)), pc_delivery = Delivered, pc_decode = Some\<rparr>"

definition wit_fc :: fetch_client where
  "wit_fc = \<lparr>fc_delivery = Delivered, fc_cut = None, fc_create_fails = (\<lambda>_. False), fc_write = (\<lambda>_. None)\<rparr>"


end
