(* ===== verification/Bench_Stats.thy ===== *)
theory Bench_Stats
  imports Prelude
begin

text \<open>
  The statistics of the benchmark (\<^verbatim>\<open>internal/bench/bench.go\<close>): percentiles, mean, deviation, Jain's
  fairness index, confidence intervals, the Wilcoxon signed-rank test with its normal approximation,
  and the summary of the measured latencies. A float64 is a real number.
\<close>

section \<open>Operations\<close>

definition slice_at :: "real list \<Rightarrow> int \<Rightarrow> go_panic + real" where
  "slice_at xs i = (if 0 \<le> i \<and> i < int (length xs) then Inr (xs ! nat i) else Inl IndexOutOfRange)"

definition percentile :: "real list \<Rightarrow> real \<Rightarrow> go_panic + real" where
  "percentile ordered p =
     (if length ordered = 0 then Inr 0
      else let idx = p * real (length ordered - 1); lower = \<lfloor>idx\<rfloor>; upper = \<lceil>idx\<rceil> in
        if lower = upper \<or> upper \<ge> int (length ordered) then slice_at ordered lower
        else let frac = idx - real_of_int lower in
          (case slice_at ordered lower of
             Inl e \<Rightarrow> Inl e
           | Inr a \<Rightarrow> (case slice_at ordered upper of Inl e \<Rightarrow> Inl e | Inr b \<Rightarrow> Inr (a * (1 - frac) + b * frac))))"

definition mean :: "real list \<Rightarrow> real" where
  "mean vals = (if length vals = 0 then 0 else foldl (\<lambda>sum v. sum + v) 0 vals / real (length vals))"

definition stddev :: "real list \<Rightarrow> real" where
  "stddev vals =
     (if length vals < 2 then 0
      else let m = mean vals; sumSq = foldl (\<lambda>sumSq v. let d = v - m in sumSq + d * d) 0 vals
           in sqrt (sumSq / real (length vals - 1)))"

definition jainFairness :: "real list \<Rightarrow> real" where
  "jainFairness vals =
     (if length vals = 0 then 0
      else let (sum, sumSq) = foldl (\<lambda>(sum, sumSq) v. (sum + v, sumSq + v * v)) (0, 0) vals; n = real (length vals) in
        if sumSq = 0 then 1 else (sum * sum) / (n * sumSq))"

definition confidenceInterval95 :: "real list \<Rightarrow> real \<times> real" where
  "confidenceInterval95 vals =
     (if length vals < 2 then let m = mean vals in (m, m)
      else let m = mean vals; sd = stddev vals; n = real (length vals);
               t = (if length vals \<ge> 30 then 1.96 else if length vals \<ge> 20 then 2.086 else 2.262);
               margin = t * sd / sqrt n
           in (m - margin, m + margin))"

definition normalCDF :: "real \<Rightarrow> real" where
  "normalCDF x =
     (if x < -8 then 0
      else if x > 8 then 1
      else let t = 1 / (1 + 0.2316419 * \<bar>x\<bar>); d = 0.3989422804014327;
               prob = d * exp (- x * x / 2) * t
                 * (0.319381530 + t * (-0.356563782 + t * (1.781477937 + t * (-1.821255978 + t * 1.330274429))))
           in if x > 0 then 1 - prob else prob)"

record rankPair =
  absDiff :: real
  sign :: real

definition rank_pairs :: "real list \<Rightarrow> real list \<Rightarrow> rankPair list" where
  "rank_pairs a b =
     concat (map (\<lambda>i. let diff = a ! i - b ! i in
         if diff = 0 then [] else [\<lparr>absDiff = \<bar>diff\<bar>, sign = (if diff < 0 then -1 else 1)\<rparr>])
       [0..<min (length a) (length b)])"

text \<open>The end of the group of ties that starts at \<open>i\<close>.\<close>

function tie_end :: "rankPair list \<Rightarrow> nat \<Rightarrow> nat \<Rightarrow> nat" where
  "tie_end pairs i j = (if j < length pairs \<and> absDiff (pairs ! j) = absDiff (pairs ! i) then tie_end pairs i (Suc j) else j)"
  by pat_completeness auto
termination
  by (relation "measure (\<lambda>(pairs, i, j). length pairs - j)") auto

declare tie_end.simps [simp del]

definition add_rank :: "real \<Rightarrow> real \<times> real \<Rightarrow> rankPair \<Rightarrow> real \<times> real" where
  "add_rank avgRank w p = (if sign p > 0 then (fst w + avgRank, snd w) else (fst w, snd w + avgRank))"

lemma tie_end_ge: "j \<le> tie_end pairs i j"
proof (induction pairs i j rule: tie_end.induct)
  case (1 pairs i j)
  then show ?case by (subst tie_end.simps) auto
qed

lemma tie_end_gt: "i < length pairs \<Longrightarrow> i < tie_end pairs i i"
  using tie_end_ge [of "Suc i" pairs i] by (subst tie_end.simps) simp

function rank_loop :: "rankPair list \<Rightarrow> nat \<Rightarrow> real \<times> real \<Rightarrow> real \<times> real" where
  "rank_loop pairs i w =
     (if i < length pairs then
        let j = tie_end pairs i i; avgRank = real (i + j + 1) / 2
        in rank_loop pairs j (foldl (\<lambda>w k. add_rank avgRank w (pairs ! k)) w [i..<j])
      else w)"
  by pat_completeness auto
termination
  by (relation "measure (\<lambda>(pairs, i, w). length pairs - i)") (auto simp: tie_end_gt diff_less_mono2)

declare rank_loop.simps [simp del]

text \<open>\<open>srt\<close> is \<^verbatim>\<open>sort.Slice\<close> by absolute difference, which leaves the order of ties open.\<close>

definition WilcoxonSignedRank :: "(rankPair list \<Rightarrow> rankPair list) \<Rightarrow> real list \<Rightarrow> real list \<Rightarrow> real \<times> real" where
  "WilcoxonSignedRank srt a b =
     (if min (length a) (length b) < 5 then (0, 1)
      else let pairs0 = rank_pairs a b in
        if length pairs0 = 0 then (0, 1)
        else let pairs = srt pairs0;
                 (wPlus, wMinus) = rank_loop pairs 0 (0, 0);
                 nn = real (length pairs);
                 meanW = nn * (nn + 1) / 4;
                 stdW = sqrt (nn * (nn + 1) * (2 * nn + 1) / 24)
             in if stdW = 0 then (wPlus, 1)
                else let w = min wPlus wMinus; z = (w - meanW) / stdW
                     in (wPlus, 2 * normalCDF (- \<bar>z\<bar>)))"

record LatencyResult =
  lr_AvgLatencyMs :: real
  lr_P50LatencyMs :: real
  lr_P95LatencyMs :: real
  lr_P99LatencyMs :: real
  lr_MinLatencyMs :: real
  lr_MaxLatencyMs :: real
  lr_ThroughputMBs :: real
  lr_FairnessIndex :: real
  lr_Samples :: nat
  lr_AllMs :: "real list"
  lr_Timestamps :: "real list"

text \<open>What both latency benchmarks compute from the measurements.\<close>

definition latency_result :: "real list \<Rightarrow> real list \<Rightarrow> int \<Rightarrow> real \<Rightarrow> go_panic + LatencyResult" where
  "latency_result latencies timestamps totalBytes seconds =
     (let result = \<lparr>lr_AvgLatencyMs = 0, lr_P50LatencyMs = 0, lr_P95LatencyMs = 0, lr_P99LatencyMs = 0, lr_MinLatencyMs = 0,
            lr_MaxLatencyMs = 0, lr_ThroughputMBs = (if 0 < seconds then real_of_int totalBytes / seconds / (1024 * 1024) else 0),
            lr_FairnessIndex = jainFairness latencies, lr_Samples = length latencies, lr_AllMs = latencies, lr_Timestamps = timestamps\<rparr>
      in if 0 < length latencies then
           let ordered = sort latencies in
           case percentile ordered 0.5 of
             Inl e \<Rightarrow> Inl e
           | Inr p50 \<Rightarrow> (case percentile ordered 0.95 of
               Inl e \<Rightarrow> Inl e
             | Inr p95 \<Rightarrow> (case percentile ordered 0.99 of
                 Inl e \<Rightarrow> Inl e
               | Inr p99 \<Rightarrow>
                   Inr (result\<lparr>lr_MinLatencyMs := ordered ! 0, lr_MaxLatencyMs := ordered ! (length ordered - 1),
                     lr_P50LatencyMs := p50, lr_P95LatencyMs := p95, lr_P99LatencyMs := p99,
                     lr_AvgLatencyMs := foldl (\<lambda>sum l. sum + l) 0 latencies / real (length latencies)\<rparr>)))
         else Inr result)"

section \<open>Lemmas: means and fairness\<close>

lemma foldl_add: "foldl (\<lambda>sum v. sum + f v) s vals = s + (\<Sum>v\<leftarrow>vals. f v :: real)"
  by (induction vals arbitrary: s) auto

lemma mean_eq: "mean vals = (if vals = [] then 0 else sum_list vals / real (length vals))"
  using foldl_add [of "\<lambda>v. v" 0 vals] by (simp add: mean_def)

lemma jainFairness_eq:
  "jainFairness vals = (if vals = [] then 0 else if (\<Sum>v\<leftarrow>vals. v * v) = 0 then 1
     else (sum_list vals)\<^sup>2 / (real (length vals) * (\<Sum>v\<leftarrow>vals. v * v)))"
proof -
  have "foldl (\<lambda>(sum, sumSq) v. (sum + v, sumSq + v * v)) (s, q) vals = (s + sum_list vals, q + (\<Sum>v\<leftarrow>vals. v * v))" for s q :: real
    by (induction vals arbitrary: s q) auto
  then show ?thesis by (simp add: jainFairness_def power2_eq_square)
qed

lemma sum_list_between:
  "\<forall>v\<in>set vals. lo \<le> v \<and> v \<le> hi \<Longrightarrow> real (length vals) * lo \<le> sum_list vals \<and> sum_list vals \<le> real (length vals) * (hi :: real)"
  by (induction vals) (auto simp: algebra_simps)

lemma mean_between:
  assumes "vals \<noteq> []" and "\<forall>v\<in>set vals. lo \<le> v \<and> v \<le> hi"
  shows "lo \<le> mean vals \<and> mean vals \<le> hi"
  using sum_list_between [OF assms(2)] assms(1) by (simp add: mean_eq field_simps)

lemma square_sum_le: "(sum_list vals)\<^sup>2 \<le> real (length vals) * (\<Sum>v\<leftarrow>vals. v * v)"
proof (induction vals)
  case (Cons x vals)
  let ?s = "sum_list vals" and ?q = "\<Sum>v\<leftarrow>vals. v * v" and ?n = "real (length vals)"
  have "2 * x * ?s \<le> ?n * (x * x) + ?q"
  proof -
    have "0 \<le> (\<Sum>v\<leftarrow>vals. (v - x) * (v - x))" by (intro sum_list_nonneg) auto
    also have "\<dots> = ?q - 2 * x * ?s + ?n * (x * x)" by (induction vals) (auto simp: algebra_simps)
    finally show ?thesis by simp
  qed
  then show ?case using Cons by (simp add: algebra_simps power2_eq_square)
qed simp

lemma sum_squares_le: "\<forall>v\<in>set vals. 0 \<le> v \<Longrightarrow> (\<Sum>v\<leftarrow>vals. v * v) \<le> (sum_list vals :: real)\<^sup>2"
proof (induction vals)
  case (Cons x vals)
  have "0 \<le> sum_list vals" using Cons.prems by (intro sum_list_nonneg) auto
  then have "0 \<le> 2 * x * sum_list vals" using Cons.prems by simp
  then show ?case using Cons by (simp add: algebra_simps power2_eq_square)
qed simp

lemma jainFairness_bounds:
  assumes "vals \<noteq> []" and "\<forall>v\<in>set vals. 0 \<le> v"
  shows "1 / real (length vals) \<le> jainFairness vals \<and> jainFairness vals \<le> 1"
proof (cases "(\<Sum>v\<leftarrow>vals. v * v) = 0")
  case True
  have "1 \<le> real (length vals)" using assms(1) by (cases vals) auto
  with True assms(1) show ?thesis by (simp add: jainFairness_eq)
next
  case False
  have "0 \<le> (\<Sum>v\<leftarrow>vals. v * v)" by (intro sum_list_nonneg) auto
  with False have q: "0 < (\<Sum>v\<leftarrow>vals. v * v)" by linarith
  have n: "0 < real (length vals)" using assms(1) by simp
  have "(sum_list vals)\<^sup>2 / (real (length vals) * (\<Sum>v\<leftarrow>vals. v * v)) \<le> 1"
    using square_sum_le [of vals] q n by (simp add: divide_le_eq)
  moreover have "1 / real (length vals) \<le> (sum_list vals)\<^sup>2 / (real (length vals) * (\<Sum>v\<leftarrow>vals. v * v))"
    using sum_squares_le [OF assms(2)] q n by (simp add: field_simps)
  ultimately show ?thesis using False assms(1) by (simp add: jainFairness_eq)
qed

text \<open>The confidence interval is centred at the mean.\<close>

lemma confidenceInterval95_centred:
  "fst (confidenceInterval95 vals) + snd (confidenceInterval95 vals) = 2 * mean vals
   \<and> fst (confidenceInterval95 vals) \<le> mean vals \<and> mean vals \<le> snd (confidenceInterval95 vals)"
proof -
  have "0 \<le> stddev vals"
    using foldl_add [of "\<lambda>v. (v - mean vals) * (v - mean vals)" 0 vals] by (auto simp: stddev_def Let_def intro!: divide_nonneg_nonneg sum_list_nonneg)
  then show ?thesis by (simp add: confidenceInterval95_def Let_def)
qed

section \<open>Lemmas: percentiles\<close>

text \<open>Linear interpolation between the entries of a list.\<close>

definition interp :: "real list \<Rightarrow> real \<Rightarrow> real" where
  "interp xs x = xs ! nat \<lfloor>x\<rfloor> * (1 - (x - real_of_int \<lfloor>x\<rfloor>)) + xs ! nat \<lceil>x\<rceil> * (x - real_of_int \<lfloor>x\<rfloor>)"

lemma percentile_interp:
  assumes "xs \<noteq> []" and "0 \<le> p" and "p \<le> 1"
  shows "percentile xs p = Inr (interp xs (p * real (length xs - 1)))"
proof -
  define x where "x = p * real (length xs - 1)"
  have x: "0 \<le> x" "x \<le> real (length xs - 1)" using assms by (simp_all add: x_def mult_left_le_one_le)
  have n: "real (length xs - 1) = real (length xs) - 1" using assms(1) by (cases xs) simp_all
  have r: "0 \<le> \<lfloor>x\<rfloor>" "\<lfloor>x\<rfloor> < int (length xs)" "0 \<le> \<lceil>x\<rceil>" "\<lceil>x\<rceil> < int (length xs)" using x n by linarith+
  have eq: "x = real_of_int \<lfloor>x\<rfloor>" if "\<lfloor>x\<rfloor> = \<lceil>x\<rceil>" using that by (metis le_of_int_ceiling of_int_floor_le order_antisym)
  have "percentile xs p = Inr (interp xs x)"
  proof (cases "\<lfloor>x\<rfloor> = \<lceil>x\<rceil>")
    case True
    with eq have "x - real_of_int \<lfloor>x\<rfloor> = 0" by simp
    then have "interp xs x = xs ! nat \<lfloor>x\<rfloor>" by (simp add: interp_def)
    with True r assms(1) show ?thesis unfolding percentile_def x_def [symmetric] by (simp add: slice_at_def Let_def)
  next
    case False
    with r assms(1) show ?thesis unfolding percentile_def x_def [symmetric] by (simp add: slice_at_def Let_def interp_def)
  qed
  then show ?thesis by (simp add: x_def)
qed

lemma interp_between:
  assumes "sorted xs" and "0 \<le> x" and "x \<le> real (length xs - 1)" and "xs \<noteq> []"
  shows "xs ! nat \<lfloor>x\<rfloor> \<le> interp xs x \<and> interp xs x \<le> xs ! nat \<lceil>x\<rceil>"
proof -
  let ?a = "xs ! nat \<lfloor>x\<rfloor>" and ?b = "xs ! nat \<lceil>x\<rceil>" and ?f = "x - real_of_int \<lfloor>x\<rfloor>"
  have "nat \<lceil>x\<rceil> < length xs" using assms(3,4) by (cases xs) (simp_all, linarith)
  moreover have "nat \<lfloor>x\<rfloor> \<le> nat \<lceil>x\<rceil>" by (intro nat_mono) (simp add: floor_le_ceiling)
  ultimately have ab: "?a \<le> ?b" using assms(1) by (simp add: sorted_iff_nth_mono)
  have f: "0 \<le> ?f" "?f \<le> 1" by linarith+
  have "interp xs x = ?a + (?b - ?a) * ?f" by (simp add: interp_def algebra_simps)
  moreover have "0 \<le> (?b - ?a) * ?f" "(?b - ?a) * ?f \<le> ?b - ?a" using ab f by (simp_all add: mult_left_le)
  ultimately show ?thesis by linarith
qed

lemma interp_mono:
  assumes "sorted xs" and "0 \<le> x" and "x \<le> y" and "y \<le> real (length xs - 1)" and "xs \<noteq> []"
  shows "interp xs x \<le> interp xs y"
proof (cases "\<lfloor>x\<rfloor> = \<lfloor>y\<rfloor>")
  case True
  show ?thesis
  proof (cases "\<lceil>x\<rceil> = \<lceil>y\<rceil>")
    case c: True
    let ?a = "xs ! nat \<lfloor>y\<rfloor>" and ?b = "xs ! nat \<lceil>y\<rceil>"
    have "?a \<le> ?b" using interp_between [OF assms(1) _ assms(4,5)] assms(2,3) by linarith
    then have "(?b - ?a) * (x - real_of_int \<lfloor>y\<rfloor>) \<le> (?b - ?a) * (y - real_of_int \<lfloor>y\<rfloor>)" using assms(3) by (intro mult_left_mono) auto
    then show ?thesis using True c by (simp add: interp_def algebra_simps)
  next
    case False
    have "x = real_of_int \<lfloor>x\<rfloor>"
    proof (rule ccontr)
      assume "x \<noteq> real_of_int \<lfloor>x\<rfloor>"
      moreover have "y \<noteq> real_of_int \<lfloor>y\<rfloor>" using calculation True assms(3) of_int_floor_le [of x] by auto
      ultimately show False using False True by (simp add: ceiling_altdef)
    qed
    then have "interp xs x = xs ! nat \<lfloor>y\<rfloor>" using True by (simp add: interp_def)
    then show ?thesis using interp_between [OF assms(1) _ assms(4,5)] assms(2,3) by linarith
  qed
next
  case False
  then have le: "\<lceil>x\<rceil> \<le> \<lfloor>y\<rfloor>" using assms(3) by linarith
  have "nat \<lfloor>y\<rfloor> < length xs" using assms(4,5) by (cases xs) (simp_all, linarith)
  then have "xs ! nat \<lceil>x\<rceil> \<le> xs ! nat \<lfloor>y\<rfloor>" using assms(1) nat_mono [OF le] by (simp add: sorted_iff_nth_mono)
  then show ?thesis using interp_between [OF assms(1,2) _ assms(5)] interp_between [OF assms(1) _ assms(4,5)] assms(2,3,4) by linarith
qed

section \<open>Lemmas: the normal approximation\<close>

lemma quadratic_pos: "0 < a \<Longrightarrow> b * b < 4 * a * c \<Longrightarrow> 0 < c + b * t + a * (t * t)" for a b c t :: real
proof -
  assume a: "0 < a" and d: "b * b < 4 * a * c"
  have "4 * a * (c + b * t + a * (t * t)) = (2 * a * t + b) * (2 * a * t + b) + (4 * a * c - b * b)" by (simp add: algebra_simps)
  also have "\<dots> > 0" using d by (simp add: add_nonneg_pos)
  finally show ?thesis using a by (simp add: zero_less_mult_iff)
qed

lemma normalCDF_low:
  assumes "x \<le> 0"
  shows "0 \<le> normalCDF x \<and> normalCDF x \<le> 1 / 2"
proof (cases "x < -8")
  case False
  define t where "t = 1 / (1 + 0.2316419 * \<bar>x\<bar>)"
  define q where "q = 0.319381530 + t * (-0.356563782 + t * (1.781477937 + t * (-1.821255978 + t * 1.330274429)))"
  have t: "0 < t" "t \<le> 1" by (simp_all add: t_def)
  have n: "normalCDF x = 0.3989422804014327 * exp (- x * x / 2) * t * q" using assms False by (simp add: normalCDF_def Let_def t_def q_def)
  have "0 < 0.319381530 + (-0.356563782) * t + 0.4 * (t * t)" by (rule quadratic_pos) simp_all
  moreover have "0 < 1.381477937 + (-1.821255978) * t + 1.330274429 * (t * t)" by (rule quadratic_pos) simp_all
  then have "0 < t * t * (1.381477937 + (-1.821255978) * t + 1.330274429 * (t * t))" using t by simp
  ultimately have q0: "0 < q" by (simp add: q_def algebra_simps)
  have "0 \<le> (1 - t) * (1253314136 + 933932606 * t + 1290496388 * (t * t) - 490981549 * (t * t * t) + 1330274429 * (t * t * t * t))"
  proof (intro mult_nonneg_nonneg)
    have "t * t * t \<le> t * t * 1" using t by (intro mult_left_mono) auto
    moreover have "0 \<le> t * t" "0 \<le> t * t * t * t" using t by simp_all
    ultimately show "0 \<le> 1253314136 + 933932606 * t + 1290496388 * (t * t) - 490981549 * (t * t * t) + 1330274429 * (t * t * t * t)"
      using t by linarith
  qed (use t in simp)
  then have tq: "t * q \<le> 1.253314136" by (simp add: q_def algebra_simps)
  have e: "exp (- x * x / 2) \<le> 1" "0 < exp (- x * x / 2)" by simp_all
  have "exp (- x * x / 2) * (t * q) \<le> 1 * 1.253314136" using e tq t q0 by (intro mult_mono) auto
  then have "normalCDF x \<le> 1 / 2" by (simp add: n algebra_simps)
  moreover have "0 \<le> normalCDF x" using e t q0 by (simp add: n)
  ultimately show ?thesis by simp
qed (simp add: normalCDF_def)

section \<open>Lemmas: ranks\<close>

text \<open>The rank of a difference: the number of smaller ones, plus the mean rank within its ties.\<close>

definition midrank :: "rankPair list \<Rightarrow> rankPair \<Rightarrow> real" where
  "midrank ps p = real (length (filter (\<lambda>q. absDiff q < absDiff p) ps)) + (real (length (filter (\<lambda>q. absDiff q = absDiff p) ps)) + 1) / 2"

definition rank_sum :: "(rankPair \<Rightarrow> bool) \<Rightarrow> rankPair list \<Rightarrow> real" where
  "rank_sum P ps = (\<Sum>q\<leftarrow>filter P ps. midrank ps q)"

lemma midrank_perm:
  assumes "mset ps = mset qs"
  shows "midrank ps = midrank qs"
proof -
  have "length (filter P ps) = length (filter P qs)" for P by (metis assms mset_filter size_mset)
  then show ?thesis by (simp add: midrank_def fun_eq_iff)
qed

lemma rank_sum_perm:
  assumes "mset ps = mset qs"
  shows "rank_sum P ps = rank_sum P qs"
proof -
  have "mset (map (midrank qs) (filter P ps)) = mset (map (midrank qs) (filter P qs))" using assms by simp
  then show ?thesis unfolding rank_sum_def midrank_perm [OF assms] by (metis sum_mset_sum_list)
qed

lemma tie_end_spec:
  assumes "i \<le> j" and "j \<le> length ps" and "\<forall>k. i \<le> k \<and> k < j \<longrightarrow> absDiff (ps ! k) = absDiff (ps ! i)"
  shows "tie_end ps i j \<le> length ps \<and> (\<forall>k. i \<le> k \<and> k < tie_end ps i j \<longrightarrow> absDiff (ps ! k) = absDiff (ps ! i))
    \<and> (tie_end ps i j < length ps \<longrightarrow> absDiff (ps ! tie_end ps i j) \<noteq> absDiff (ps ! i))"
  using assms
proof (induction ps i j rule: tie_end.induct)
  case (1 ps i j)
  show ?case
  proof (cases "j < length ps \<and> absDiff (ps ! j) = absDiff (ps ! i)")
    case True
    have "absDiff (ps ! k) = absDiff (ps ! i)" if "i \<le> k" "k < Suc j" for k
    proof (cases "k = j")
      case False
      with that have "k < j" by simp
      with that(1) "1.prems"(3) show ?thesis by blast
    qed (use True in simp)
    then have all: "\<forall>k. i \<le> k \<and> k < Suc j \<longrightarrow> absDiff (ps ! k) = absDiff (ps ! i)" by blast
    have "tie_end ps i j = tie_end ps i (Suc j)" using True by (simp add: tie_end.simps [of ps i j])
    then show ?thesis using "1.IH" [OF True _ _ all] "1.prems"(1) True by (metis Suc_leI le_SucI)
  next
    case False
    then have "tie_end ps i j = j" by (subst tie_end.simps) auto
    with "1.prems"(2,3) False show ?thesis by metis
  qed
qed

lemma foldl_add_rank:
  "foldl (\<lambda>w k. add_rank r w (ps ! k)) w ks
     = (fst w + (\<Sum>k\<leftarrow>filter (\<lambda>k. 0 < sign (ps ! k)) ks. r), snd w + (\<Sum>k\<leftarrow>filter (\<lambda>k. \<not> 0 < sign (ps ! k)) ks. r))"
  by (induction ks arbitrary: w) (auto simp: add_rank_def)

lemma rank_loop_spec:
  assumes "sorted_wrt (\<lambda>p q. absDiff p \<le> absDiff q) ps" and "i \<le> length ps"
    and "\<forall>k l. k < i \<and> i \<le> l \<and> l < length ps \<longrightarrow> absDiff (ps ! k) < absDiff (ps ! l)"
  shows "rank_loop ps i w = (fst w + (\<Sum>k\<leftarrow>filter (\<lambda>k. 0 < sign (ps ! k)) [i..<length ps]. midrank ps (ps ! k)),
      snd w + (\<Sum>k\<leftarrow>filter (\<lambda>k. \<not> 0 < sign (ps ! k)) [i..<length ps]. midrank ps (ps ! k)))"
  using assms
proof (induction ps i w rule: rank_loop.induct)
  case (1 ps i w)
  show ?case
  proof (cases "i < length ps")
    case True
    define j where "j = tie_end ps i i"
    note mono = sorted_wrt_nth_less [OF "1.prems"(1)]
    have t: "j \<le> length ps" "\<And>k. i \<le> k \<Longrightarrow> k < j \<Longrightarrow> absDiff (ps ! k) = absDiff (ps ! i)"
      "j < length ps \<Longrightarrow> absDiff (ps ! j) \<noteq> absDiff (ps ! i)" and ij: "i < j"
      using tie_end_spec [OF order_refl less_imp_le [OF True]] tie_end_gt [OF True] unfolding j_def
      by (metis leD, metis leD, metis leD, blast)
    have above: "absDiff (ps ! i) < absDiff (ps ! l)" if "j \<le> l" "l < length ps" for l
      using mono [of i j] mono [of j l] t(3) that ij by (cases "j = l") auto
    have split: "absDiff (ps ! k) < absDiff (ps ! l)" if "k < j" "j \<le> l" "l < length ps" for k l
      using above [OF that(2,3)] t(2) [of k] "1.prems"(3) that ij by (cases "k < i") auto
    have less: "{l. l < length ps \<and> absDiff (ps ! l) < absDiff (ps ! i)} = {..<i}"
    proof (intro set_eqI iffI)
      fix l assume l: "l \<in> {l. l < length ps \<and> absDiff (ps ! l) < absDiff (ps ! i)}"
      have "\<not> j \<le> l" using above [of l] l by auto
      moreover have "\<not> (i \<le> l \<and> l < j)" using t(2) [of l] l by auto
      ultimately show "l \<in> {..<i}" by auto
    qed (use "1.prems"(3) True in auto)
    have same: "{l. l < length ps \<and> absDiff (ps ! l) = absDiff (ps ! i)} = {i..<j}"
    proof (intro set_eqI iffI)
      fix l assume l: "l \<in> {l. l < length ps \<and> absDiff (ps ! l) = absDiff (ps ! i)}"
      then have "\<not> l < i" using "1.prems"(3) True by fastforce
      moreover have "\<not> j \<le> l" using above [of l] l by auto
      ultimately show "l \<in> {i..<j}" by simp
    next
      fix l assume "l \<in> {i..<j}"
      then show "l \<in> {l. l < length ps \<and> absDiff (ps ! l) = absDiff (ps ! i)}" using t(1) t(2) [of l] by simp
    qed
    have rank: "midrank ps (ps ! k) = real (i + j + 1) / 2" if "i \<le> k" "k < j" for k
      using ij t(2) [OF that] by (simp add: midrank_def length_filter_conv_card less same of_nat_diff field_simps)
    let ?w = "foldl (\<lambda>w k. add_rank (real (i + j + 1) / 2) w (ps ! k)) w [i..<j]"
    have IH: "rank_loop ps j ?w = (fst ?w + (\<Sum>k\<leftarrow>filter (\<lambda>k. 0 < sign (ps ! k)) [j..<length ps]. midrank ps (ps ! k)),
        snd ?w + (\<Sum>k\<leftarrow>filter (\<lambda>k. \<not> 0 < sign (ps ! k)) [j..<length ps]. midrank ps (ps ! k)))"
      using "1.IH" [OF True j_def refl "1.prems"(1) t(1)] split by blast
    have step: "rank_loop ps i w = rank_loop ps j ?w" using True by (subst rank_loop.simps) (simp add: j_def Let_def)
    have upt: "[i..<length ps] = [i..<j] @ [j..<length ps]" using t(1) ij by (metis le_add_diff_inverse less_imp_le upt_add_eq_append)
    have mid: "(\<Sum>k\<leftarrow>filter P [i..<j]. midrank ps (ps ! k)) = (\<Sum>k\<leftarrow>filter P [i..<j]. real (i + j + 1) / 2)" for P
      by (intro arg_cong [of _ _ sum_list] map_cong refl rank) auto
    show ?thesis
      using IH unfolding step upt filter_append map_append sum_list_append mid foldl_add_rank fst_conv snd_conv by (simp only: add.assoc)
  next
    case False
    then show ?thesis by (subst rank_loop.simps) simp
  qed
qed

lemma rank_loop_sums:
  assumes "sorted_wrt (\<lambda>p q. absDiff p \<le> absDiff q) ps"
  shows "rank_loop ps 0 (0, 0) = (rank_sum (\<lambda>q. 0 < sign q) ps, rank_sum (\<lambda>q. \<not> 0 < sign q) ps)"
proof -
  have sums: "(\<Sum>k\<leftarrow>filter (\<lambda>k. P (ps ! k)) [0..<length ps]. midrank ps (ps ! k)) = rank_sum P ps" for P
  proof -
    have "filter P ps = map ((!) ps) (filter (\<lambda>k. P (ps ! k)) [0..<length ps])"
      using filter_map [of P "(!) ps" "[0..<length ps]"] by (simp add: map_nth comp_def)
    then show ?thesis by (simp only: rank_sum_def map_map comp_def)
  qed
  show ?thesis
    using rank_loop_spec [OF assms, of 0 "(0, 0)"] sums [of "\<lambda>q. 0 < sign q"] sums [of "\<lambda>q. \<not> 0 < sign q"] by simp
qed

lemma foldl_add_rank_sum: "fst (foldl (\<lambda>w k. add_rank r w (ps ! k)) w ks) + snd (foldl (\<lambda>w k. add_rank r w (ps ! k)) w ks)
    = fst w + snd w + real (length ks) * r"
  by (induction ks arbitrary: w) (auto simp: add_rank_def algebra_simps)

text \<open>The ranks that are handed out add up to those of a list without ties.\<close>

lemma rank_loop_total:
  "i \<le> length ps \<Longrightarrow> fst (rank_loop ps i w) + snd (rank_loop ps i w)
     = fst w + snd w + (real (length ps) * (real (length ps) + 1) - real i * (real i + 1)) / 2"
proof (induction ps i w rule: rank_loop.induct)
  case (1 ps i w)
  show ?case
  proof (cases "i < length ps")
    case True
    define j where "j = tie_end ps i i"
    have ij: "i < j" "j \<le> length ps"
      using tie_end_gt [OF True] tie_end_spec [OF order_refl less_imp_le [OF True]] unfolding j_def by (blast, metis leD)
    let ?w = "foldl (\<lambda>w k. add_rank (real (i + j + 1) / 2) w (ps ! k)) w [i..<j]"
    have IH: "fst (rank_loop ps j ?w) + snd (rank_loop ps j ?w)
        = fst ?w + snd ?w + (real (length ps) * (real (length ps) + 1) - real j * (real j + 1)) / 2"
      by (rule "1.IH" [OF True j_def refl ij(2)])
    have "rank_loop ps i w = rank_loop ps j ?w" using True by (subst rank_loop.simps) (simp add: j_def Let_def)
    then show ?thesis using IH ij(1) unfolding foldl_add_rank_sum by (simp add: of_nat_diff field_simps)
  next
    case False
    with "1.prems" show ?thesis by (subst (1 2) rank_loop.simps) simp
  qed
qed

text \<open>Comparing in the other direction flips the signs.\<close>

definition flip :: "rankPair \<Rightarrow> rankPair" where
  "flip p = p\<lparr>sign := - sign p\<rparr>"

lemma rank_pairs_swap: "rank_pairs b a = map flip (rank_pairs a b)"
  unfolding rank_pairs_def map_concat by (auto simp: min.commute flip_def abs_minus_commute Let_def intro!: arg_cong [of _ _ concat])

lemma rank_pairs_sign: "p \<in> set (rank_pairs a b) \<Longrightarrow> sign p = 1 \<or> sign p = -1"
  by (auto simp: rank_pairs_def Let_def split: if_splits)

lemma midrank_flip: "midrank (map flip ps) (flip q) = midrank ps q"
  by (simp add: midrank_def filter_map comp_def flip_def)

lemma rank_sum_flip:
  assumes "\<forall>p\<in>set ps. sign p = 1 \<or> sign p = -1"
  shows "rank_sum (\<lambda>q. 0 < sign q) (map flip ps) = rank_sum (\<lambda>q. \<not> 0 < sign q) ps"
proof -
  have "filter (\<lambda>q. 0 < sign (flip q)) ps = filter (\<lambda>q. \<not> 0 < sign q) ps"
    using assms by (intro filter_cong) (auto simp: flip_def)
  then show ?thesis by (simp add: rank_sum_def filter_map comp_def midrank_flip)
qed

definition p_value :: "real \<Rightarrow> real \<Rightarrow> nat \<Rightarrow> real" where
  "p_value wp wm n = 2 * normalCDF (- \<bar>(min wp wm - real n * (real n + 1) / 4) / sqrt (real n * (real n + 1) * (2 * real n + 1) / 24)\<bar>)"

lemma Wilcoxon_eq:
  assumes "\<forall>ps. mset (srt ps) = mset ps \<and> sorted_wrt (\<lambda>p q. absDiff p \<le> absDiff q) (srt ps)"
    and "5 \<le> length a" and "5 \<le> length b" and "pairs = rank_pairs a b" and "pairs \<noteq> []"
  shows "WilcoxonSignedRank srt a b = (rank_sum (\<lambda>q. 0 < sign q) pairs,
      p_value (rank_sum (\<lambda>q. 0 < sign q) pairs) (rank_sum (\<lambda>q. \<not> 0 < sign q) pairs) (length pairs))"
proof -
  have m: "mset (srt pairs) = mset pairs" using assms(1) by blast
  then have len: "length (srt pairs) = length pairs" by (metis size_mset)
  have loop: "rank_loop (srt pairs) 0 (0, 0) = (rank_sum (\<lambda>q. 0 < sign q) pairs, rank_sum (\<lambda>q. \<not> 0 < sign q) pairs)"
    using rank_loop_sums [of "srt pairs"] assms(1) rank_sum_perm [OF m] by auto
  have n: "\<not> min (length a) (length b) < 5" "length pairs \<noteq> 0" using assms(2,3,5) by auto
  have "0 < real (length pairs) * (real (length pairs) + 1) * (2 * real (length pairs) + 1) / 24" using assms(5) by simp
  then have "sqrt (real (length pairs) * (real (length pairs) + 1) * (2 * real (length pairs) + 1) / 24) \<noteq> 0" by (metis less_irrefl real_sqrt_eq_zero_cancel_iff)
  then show ?thesis using n unfolding WilcoxonSignedRank_def assms(4) [symmetric] Let_def loop len by (simp add: p_value_def)
qed

lemma rank_sum_total:
  "rank_sum (\<lambda>q. 0 < sign q) ps + rank_sum (\<lambda>q. \<not> 0 < sign q) ps = real (length ps) * (real (length ps) + 1) / 2"
proof -
  have s: "sorted_wrt (\<lambda>p q. absDiff p \<le> absDiff q) (sort_key absDiff ps)" by (metis sorted_map sorted_sort_key)
  show ?thesis
    using rank_loop_total [of 0 "sort_key absDiff ps" "(0, 0)"] rank_loop_sums [OF s] rank_sum_perm [of "sort_key absDiff ps" ps] by simp
qed

section \<open>Properties\<close>

text \<open>
  C38. The summary of a nonempty latency series is consistent: it is computed without a panic, its
  extremes are those of the series, the percentiles are ordered between them, the average lies between
  them, and the fairness index lies between one over the number of samples and one.
\<close>

theorem latency_summary:
  assumes "latencies \<noteq> []" and "\<forall>l\<in>set latencies. 0 \<le> l"
  shows "\<exists>r. latency_result latencies timestamps totalBytes seconds = Inr r
    \<and> lr_Samples r = length latencies \<and> lr_MinLatencyMs r = Min (set latencies) \<and> lr_MaxLatencyMs r = Max (set latencies)
    \<and> lr_MinLatencyMs r \<le> lr_P50LatencyMs r \<and> lr_P50LatencyMs r \<le> lr_P95LatencyMs r
    \<and> lr_P95LatencyMs r \<le> lr_P99LatencyMs r \<and> lr_P99LatencyMs r \<le> lr_MaxLatencyMs r
    \<and> lr_MinLatencyMs r \<le> lr_AvgLatencyMs r \<and> lr_AvgLatencyMs r \<le> lr_MaxLatencyMs r
    \<and> 1 / real (length latencies) \<le> lr_FairnessIndex r \<and> lr_FairnessIndex r \<le> 1"
proof -
  let ?s = "sort latencies" let ?n = "length latencies - 1"
  have s: "?s \<noteq> []" "sorted ?s" "length ?s = length latencies" using assms(1) by (simp_all flip: length_greater_0_conv)
  note p = percentile_interp [OF s(1)]
  have at: "interp ?s (real k) = ?s ! k" for k by (simp add: interp_def)
  have mono: "interp ?s (p * real ?n) \<le> interp ?s (q * real ?n)" if "0 \<le> p" "p \<le> q" "q \<le> 1" for p q
    using that by (intro interp_mono [OF s(2) _ _ _ s(1)]) (simp_all add: mult_right_mono mult_left_le_one_le)
  have ext: "?s ! 0 = Min (set latencies)" "?s ! ?n = Max (set latencies)"
  proof -
    have between: "?s ! 0 \<le> y \<and> y \<le> ?s ! ?n" if "y \<in> set latencies" for y
    proof -
      have "y \<in> set ?s" using that by simp
      then obtain k where "k < length ?s" "?s ! k = y" unfolding in_set_conv_nth by blast
      then show ?thesis using sorted_nth_mono [OF s(2), of 0 k] sorted_nth_mono [OF s(2), of k ?n] s(3) by auto
    qed
    have "?s ! k \<in> set latencies" if "k < length latencies" for k using that s(3) by (metis nth_mem set_sort)
    then have "?s ! 0 \<in> set latencies" "?s ! ?n \<in> set latencies" using assms(1) by simp_all
    note mem = this
    show "?s ! 0 = Min (set latencies)" by (rule Min_eqI [OF finite_set _ mem(1), symmetric]) (use between in blast)
    show "?s ! ?n = Max (set latencies)" by (rule Max_eqI [OF finite_set _ mem(2), symmetric]) (use between in blast)
  qed
  have order: "?s ! 0 \<le> interp ?s (0.5 * real ?n)" "interp ?s (0.5 * real ?n) \<le> interp ?s (0.95 * real ?n)"
    "interp ?s (0.95 * real ?n) \<le> interp ?s (0.99 * real ?n)" "interp ?s (0.99 * real ?n) \<le> ?s ! ?n"
    using mono [of 0 "0.5"] mono [of "0.5" "0.95"] mono [of "0.95" "0.99"] mono [of "0.99" 1] at [of 0] at [of ?n] by simp_all
  have avg: "Min (set latencies) \<le> mean latencies \<and> mean latencies \<le> Max (set latencies)"
    by (rule mean_between) (use assms(1) in auto)
  have mean: "foldl (\<lambda>sum l. sum + l) 0 latencies / real (length latencies) = mean latencies" using assms(1) by (simp add: mean_def)
  obtain r where r: "latency_result latencies timestamps totalBytes seconds = Inr r"
    and f: "lr_Samples r = length latencies" "lr_MinLatencyMs r = ?s ! 0" "lr_MaxLatencyMs r = ?s ! ?n"
      "lr_P50LatencyMs r = interp ?s (0.5 * real ?n)" "lr_P95LatencyMs r = interp ?s (0.95 * real ?n)"
      "lr_P99LatencyMs r = interp ?s (0.99 * real ?n)" "lr_AvgLatencyMs r = mean latencies" "lr_FairnessIndex r = jainFairness latencies"
    using assms(1) p [of "0.5"] p [of "0.95"] p [of "0.99"] mean by (simp add: latency_result_def Let_def)
  show ?thesis by (rule exI [of _ r]) (simp only: r f ext order avg jainFairness_bounds [OF assms] order [unfolded ext])
qed

theorem latency_summary_witness:
  "\<exists>r. latency_result [3, 1, 2] [] 0 1 = Inr r \<and> lr_MinLatencyMs r = 1 \<and> lr_MaxLatencyMs r = 3 \<and> lr_P99LatencyMs r \<le> 3"
  using latency_summary [of "[3, 1, 2]" "[]" 0 1] by auto

text \<open>
  C39. The rank loop of the Wilcoxon test computes the textbook statistic, whichever way the sort orders
  ties: the sum over the positive differences of their mid-ranks. The statistics of the two directions
  of comparison add up to the sum of all ranks, both directions give the same p-value, and the p-value
  lies between zero and one.
\<close>

theorem Wilcoxon_textbook:
  assumes "\<forall>ps. mset (srt ps) = mset ps \<and> sorted_wrt (\<lambda>p q. absDiff p \<le> absDiff q) (srt ps)"
    and "5 \<le> length a" and "5 \<le> length b" and "pairs = rank_pairs a b" and "pairs \<noteq> []"
    and "WilcoxonSignedRank srt a b = (w, p)" and "WilcoxonSignedRank srt b a = (w', p')"
  shows "w = (\<Sum>q\<leftarrow>filter (\<lambda>q. 0 < sign q) pairs. midrank pairs q)
    \<and> w + w' = real (length pairs) * (real (length pairs) + 1) / 2 \<and> p = p' \<and> 0 \<le> p \<and> p \<le> 1"
proof -
  let ?pos = "\<lambda>q. 0 < sign q" and ?neg = "\<lambda>q. \<not> 0 < sign q"
  have ab: "w = rank_sum ?pos pairs" "p = p_value (rank_sum ?pos pairs) (rank_sum ?neg pairs) (length pairs)"
    using Wilcoxon_eq [OF assms(1-5)] assms(6) by simp_all
  have sign: "\<forall>p\<in>set pairs. sign p = 1 \<or> sign p = -1" "\<forall>p\<in>set (map flip pairs). sign p = 1 \<or> sign p = -1"
    using rank_pairs_sign assms(4) rank_pairs_swap by (blast, metis)
  have ne: "map flip pairs \<noteq> []" using assms(5) by simp
  have inv: "map flip (map flip pairs) = pairs" using rank_pairs_swap [of a b] rank_pairs_swap [of b a] assms(4) by simp
  note ba = Wilcoxon_eq [OF assms(1,3,2) _ ne, unfolded length_map rank_sum_flip [OF sign(1)] rank_sum_flip [OF sign(2), unfolded inv, symmetric]]
  have ba: "w' = rank_sum ?neg pairs" "p' = p_value (rank_sum ?neg pairs) (rank_sum ?pos pairs) (length pairs)"
    using ba assms(4,7) rank_pairs_swap [of b a] by simp_all
  have "0 \<le> 2 * normalCDF (- \<bar>z\<bar>) \<and> 2 * normalCDF (- \<bar>z\<bar>) \<le> 1" for z using normalCDF_low [of "- \<bar>z\<bar>"] by simp
  then have "0 \<le> p \<and> p \<le> 1" unfolding ab(2) p_value_def .
  moreover have "p = p'" by (simp add: ab(2) ba(2) p_value_def min.commute)
  moreover have "w + w' = real (length pairs) * (real (length pairs) + 1) / 2" using rank_sum_total [of pairs] ab(1) ba(1) by simp
  ultimately show ?thesis using ab(1) by (simp add: rank_sum_def)
qed

theorem Wilcoxon_textbook_witness:
  "fst (WilcoxonSignedRank (sort_key absDiff) [2, 2, 2, 2, 0] [1, 1, 1, 1, 1]) = 12"
proof -
  have srt: "\<forall>ps. mset (sort_key absDiff ps) = mset ps \<and> sorted_wrt (\<lambda>p q. absDiff p \<le> absDiff q) (sort_key absDiff ps)"
    by (metis mset_sort sorted_map sorted_sort_key)
  have p: "rank_pairs [2, 2, 2, 2, 0] [1, 1, 1, 1, 1] = replicate 4 \<lparr>absDiff = 1, sign = 1\<rparr> @ [\<lparr>absDiff = 1, sign = -1\<rparr>]"
    by (simp add: rank_pairs_def upt_rec numeral_eq_Suc)
  obtain w q where w: "WilcoxonSignedRank (sort_key absDiff) [2, 2, 2, 2, 0] [1, 1, 1, 1, 1] = (w, q)" by fastforce
  obtain w' q' where w': "WilcoxonSignedRank (sort_key absDiff) [1, 1, 1, 1, 1] [2, 2, 2, 2, 0] = (w', q')" by fastforce
  have "w = (\<Sum>q\<leftarrow>filter (\<lambda>q. 0 < sign q) (rank_pairs [2, 2, 2, 2, 0] [1, 1, 1, 1, 1]). midrank (rank_pairs [2, 2, 2, 2, 0] [1, 1, 1, 1, 1]) q)"
    using Wilcoxon_textbook [OF srt _ _ refl _ w w'] p by simp
  then show ?thesis by (simp add: w p midrank_def numeral_eq_Suc)
qed

end
