(* ===== verification/CSV.thy ===== *)
theory CSV
  imports Go_Format
begin

text \<open>
  CSV files as \<^verbatim>\<open>encoding/csv\<close> writes them, the way the benchmarks use its writer (create, write rows, flush on
  return), and a reader of the format that serves as the specification: what is written is read back.
\<close>

section \<open>csv.Writer\<close>

text \<open>The encodings of the characters beyond ASCII that \<^verbatim>\<open>unicode.IsSpace\<close> accepts.\<close>

definition wide_spaces :: "nat list list" where
  "wide_spaces = [[0xC2, 0x85], [0xC2, 0xA0], [0xE1, 0x9A, 0x80]] @ map (\<lambda>i. [0xE2, 0x80, 0x80 + i]) [0..<11]
     @ [[0xE2, 0x80, 0xA8], [0xE2, 0x80, 0xA9], [0xE2, 0x80, 0xAF], [0xE2, 0x81, 0x9F], [0xE3, 0x80, 0x80]]"

definition starts_with_space :: "string \<Rightarrow> bool" where
  "starts_with_space s =
     (case map (\<lambda>c. of_char c :: nat) s of
        [] \<Rightarrow> False
      | b # bs \<Rightarrow> 9 \<le> b \<and> b \<le> 13 \<or> b = 32 \<or> list_ex (\<lambda>w. take (length w) (b # bs) = w) wide_spaces)"

definition fieldNeedsQuotes :: "string \<Rightarrow> bool" where
  "fieldNeedsQuotes field =
     (if field = [] then False
      else if field = [CHR 0x5C, CHR ''.''] then True
      else if list_ex (\<lambda>c. c \<in> {CHR 0x0A, CHR 0x0D, CHR 0x22, CHR '',''}) field then True
      else starts_with_space field)"

fun escape_quotes :: "string \<Rightarrow> string" where
  "escape_quotes [] = []"
| "escape_quotes (c # cs) = (if c = CHR 0x22 then [CHR 0x22, CHR 0x22] else [c]) @ escape_quotes cs"

definition csv_field :: "string \<Rightarrow> string" where
  "csv_field f = (if fieldNeedsQuotes f then CHR 0x22 # escape_quotes f @ [CHR 0x22] else f)"

fun csv_row :: "string list \<Rightarrow> string" where
  "csv_row [] = newline"
| "csv_row [f] = csv_field f @ newline"
| "csv_row (f # g # fs) = csv_field f @ CHR '','' # csv_row (g # fs)"

definition csv_text :: "string list list \<Rightarrow> string" where
  "csv_text rows = concat (map csv_row rows)"

section \<open>The files\<close>

text \<open>
  What the writers share: the file is created, or the error returned; the rows are buffered, and what
  the disk refuses (\<open>limit\<close>: the number of bytes it takes) is lost without an error.
\<close>

definition write_rows :: "bool \<Rightarrow> nat option \<Rightarrow> path \<Rightarrow> string list list \<Rightarrow> file_system \<Rightarrow> bool \<times> file_system" where
  "write_rows create_fails limit p rows fs =
     (if create_fails then (False, fs)
      else let text = bytes_of_string (csv_text rows)
           in (True, fs(p \<mapsto> (case limit of None \<Rightarrow> text | Some j \<Rightarrow> take j text))))"

section \<open>Reading a CSV file\<close>

text \<open>A reader of the format (RFC 4180), as the specification of the writer.\<close>

datatype csv_mode = FieldStart | Plain | Quoted | Closing

fun csv_read :: "csv_mode \<Rightarrow> string \<Rightarrow> string list \<Rightarrow> string \<Rightarrow> string list list option" where
  "csv_read md f row [] = (if md = FieldStart \<and> row = [] then Some [] else None)"
| "csv_read md f row (c # cs) =
     (if md = Quoted then (if c = CHR 0x22 then csv_read Closing f row cs else csv_read Quoted (f @ [c]) row cs)
      else if c = CHR '','' then csv_read FieldStart [] (row @ [f]) cs
      else if c = CHR 0x0A then map_option (\<lambda>rows. (row @ [f]) # rows) (csv_read FieldStart [] [] cs)
      else if md = Closing then (if c = CHR 0x22 then csv_read Quoted (f @ [c]) row cs else None)
      else if md = FieldStart \<and> c = CHR 0x22 then csv_read Quoted [] row cs
      else csv_read Plain (f @ [c]) row cs)"

lemma read_plain: "\<forall>c\<in>set g. c \<noteq> CHR '','' \<and> c \<noteq> CHR 0x0A \<Longrightarrow> csv_read Plain f row (g @ cs) = csv_read Plain (f @ g) row cs"
  by (induction g arbitrary: f) auto

lemma read_quoted: "csv_read Quoted f row (escape_quotes g @ cs) = csv_read Quoted (f @ g) row cs"
  by (induction g arbitrary: f) auto

lemma read_field:
  assumes "c = CHR '','' \<or> c = CHR 0x0A"
  shows "csv_read FieldStart [] row (csv_field f @ c # cs) = csv_read Plain f row (c # cs)"
proof (cases "fieldNeedsQuotes f")
  case True
  with assms show ?thesis by (auto simp: csv_field_def read_quoted)
next
  case False
  show ?thesis
  proof (cases f)
    case Nil
    with assms False show ?thesis by (auto simp: csv_field_def)
  next
    case (Cons a g)
    with False have "\<forall>x\<in>set f. x \<notin> {CHR 0x0A, CHR 0x0D, CHR 0x22, CHR '',''}"
      by (auto simp: fieldNeedsQuotes_def list_ex_iff split: if_splits)
    with Cons False read_plain [of g "[a]" row "c # cs"] show ?thesis by (simp add: csv_field_def)
  qed
qed

lemma read_row: "fs \<noteq> [] \<Longrightarrow> csv_read FieldStart [] row (csv_row fs @ cs) = map_option (\<lambda>rows. (row @ fs) # rows) (csv_read FieldStart [] [] cs)"
proof (induction fs arbitrary: row rule: csv_row.induct)
  case (2 f)
  then show ?case using read_field [of "CHR 0x0A" row f cs] by (simp add: newline_def)
next
  case (3 f g fs)
  then show ?case using read_field [of "CHR '',''" row f "csv_row (g # fs) @ cs"] by simp
qed simp

lemma read_csv_text: "\<forall>r\<in>set rows. r \<noteq> [] \<Longrightarrow> csv_read FieldStart [] [] (csv_text rows) = Some rows"
  by (induction rows) (simp_all add: csv_text_def read_row)

lemma WriteCSV_complete:
  assumes "\<forall>r\<in>set rows. r \<noteq> []"
  shows "\<exists>d. write_rows False None p rows fs = (True, fs(p \<mapsto> d)) \<and> csv_read FieldStart [] [] (string_of_bytes d) = Some rows"
  using read_csv_text [OF assms] by (intro exI [of _ "bytes_of_string (csv_text rows)"]) (simp add: write_rows_def)

end
