(* ===== verification/Bench.thy ===== *)
theory Bench
  imports API Bench_Stats CSV
begin

text \<open>
  The benchmark harness (\<^verbatim>\<open>internal/bench/bench.go\<close>) on clusters of nodes (\<^verbatim>\<open>testutil/cluster.go\<close>):
  the latency, cache and resilience benchmarks, the fault scenarios and the studies that average over
  runs. A cluster is the list of its nodes and whether their hosts were closed; a fetch runs the stream
  handler of the node that is asked. What the clock, the random sources and the links between the hosts
  deliver are arguments. A run writes the time series of its latencies to a file. Log records are left out.
\<close>

section \<open>Clusters\<close>

record ClusterOptions =
  co_Policy :: string
  co_Epsilon :: real
  DisableMDNS :: bool
  co_ProbeInterval :: duration
  DisableCache :: bool
  DisableBloom :: bool

definition clusterConfigWithOptions :: "int \<Rightarrow> string \<Rightarrow> ClusterOptions \<Rightarrow> Config" where
  "clusterConfigWithOptions port tmpDir opts =
     (let policy = (if co_Policy opts = [] then ''balanced'' else co_Policy opts);
          epsilon = (if co_Epsilon opts \<le> 0 then 1 / 10 else co_Epsilon opts);
          probeInterval = (if co_ProbeInterval opts \<le> 0 then 30 * Second else co_ProbeInterval opts);
          cacheBytes = (if DisableCache opts then 1 else 16 * 1024 * 1024)
      in \<lparr>ListenAddrs = [''/ip4/127.0.0.1/tcp/'' @ int_digits port], BootstrapPeers = [], DataDir = tmpDir, EnableRelay = True,
          EnableMDNS = (\<not> DisableMDNS opts), APIAddr = ''127.0.0.1:'' @ int_digits (port + 1000), MetricsAddr = [], PathPolicy = policy,
          CacheMaxBytes = cacheBytes, ChunkSizeBytes = 256 * 1024, EnableErasure = False, DataShards = 0, ParityShards = 0,
          AdaptiveChunking = False, MinChunkSize = 0, MaxChunkSize = 0, PathEpsilon = epsilon, DisableBloomExchange = DisableBloom opts,
          ProbeInterval = probeInterval, ProbeTimeout = 3 * Second, LogLevel = ''warn''\<rparr>)"

record host_node =
  hn_node :: Node
  hn_closed :: bool

type_synonym cluster = "host_node list"

text \<open>The base port, the temporary directories, which are empty, and how the libp2p calls of each start turn out.\<close>

record cluster_env =
  ce_port :: int
  ce_tmp :: "nat \<Rightarrow> string option"
  ce_start :: "nat \<Rightarrow> start_env"

fun start_nodes :: "cluster_env \<Rightarrow> ClusterOptions \<Rightarrow> nat \<Rightarrow> nat \<Rightarrow> cluster \<Rightarrow> cluster option" where
  "start_nodes env opts 0 i cl = Some cl"
| "start_nodes env opts (Suc k) i cl =
     (case ce_tmp env i of
        None \<Rightarrow> None
      | Some tmpDir \<Rightarrow>
          (case Start (ce_start env i) (New (clusterConfigWithOptions (ce_port env + int i) tmpDir opts) (\<lambda>_. None)) of
             (Some err, n) \<Rightarrow> None
           | (None, n) \<Rightarrow> start_nodes env opts k (Suc i) (cl @ [\<lparr>hn_node = n, hn_closed = False\<rparr>])))"

definition NewClusterWithOptions :: "cluster_env \<Rightarrow> int \<Rightarrow> ClusterOptions \<Rightarrow> go_panic + cluster option" where
  "NewClusterWithOptions env n opts = (if n < 0 then Inl MakeSlice else Inr (start_nodes env opts (nat n) 0 []))"

text \<open>The clusters of the tests and of direct use have the default options; a failed start ends the test or gives nil.\<close>

definition clusterConfig :: "int \<Rightarrow> string \<Rightarrow> Config" where
  "clusterConfig port tmpDir = clusterConfigWithOptions port tmpDir
     \<lparr>co_Policy = [], co_Epsilon = 0, DisableMDNS = False, co_ProbeInterval = 0, DisableCache = False, DisableBloom = False\<rparr>"

fun start_default :: "cluster_env \<Rightarrow> nat \<Rightarrow> nat \<Rightarrow> cluster \<Rightarrow> cluster option" where
  "start_default env 0 i cl = Some cl"
| "start_default env (Suc k) i cl =
     (case ce_tmp env i of
        None \<Rightarrow> None
      | Some tmpDir \<Rightarrow>
          (case Start (ce_start env i) (New (clusterConfig (ce_port env + int i) tmpDir) (\<lambda>_. None)) of
             (Some err, n) \<Rightarrow> None
           | (None, n) \<Rightarrow> start_default env k (Suc i) (cl @ [\<lparr>hn_node = n, hn_closed = False\<rparr>])))"

definition NewCluster :: "cluster_env \<Rightarrow> int \<Rightarrow> go_panic + cluster option" where
  "NewCluster env n = (if n < 0 then Inl MakeSlice else Inr (start_default env (nat n) 0 []))"

definition NewClusterDirect :: "cluster_env \<Rightarrow> int \<Rightarrow> go_panic + cluster option" where
  "NewClusterDirect env n = (if n < 0 then Inl MakeSlice else Inr (start_default env (nat n) 0 []))"

lemma start_default_eq:
  "start_default env k i cl = start_nodes env
     \<lparr>co_Policy = [], co_Epsilon = 0, DisableMDNS = False, co_ProbeInterval = 0, DisableCache = False, DisableBloom = False\<rparr> k i cl"
  by (induction k arbitrary: i cl) (auto simp: clusterConfig_def split: option.split prod.split)

text \<open>
  Closing a cluster: the nodes are stopped in order and their temporary directories, which hold all their files, removed.
  For tests the context of the cluster is cancelled first, for benchmarks after the nodes are stopped.
\<close>

datatype cluster_action = CancelCluster | NodeAction nat stop_action | RemoveDirs

definition stop_nodes :: "(nat \<Rightarrow> bool) \<Rightarrow> cluster \<Rightarrow> cluster_action list" where
  "stop_nodes close_ok cl = concat (map (\<lambda>(i, h). map (NodeAction i) (snd (Stop (close_ok i) (hn_node h)))) (enumerate 0 cl))"

definition discard :: "cluster \<Rightarrow> cluster" where
  "discard cl = map (\<lambda>h. h\<lparr>hn_closed := True, hn_node := (hn_node h)\<lparr>Disk := \<lambda>_. None\<rparr>\<rparr>) cl"

definition Cluster_Stop :: "(nat \<Rightarrow> bool) \<Rightarrow> cluster \<Rightarrow> cluster_action list \<times> cluster" where
  "Cluster_Stop close_ok cl = ([CancelCluster] @ stop_nodes close_ok cl @ [RemoveDirs], discard cl)"

definition Cleanup :: "(nat \<Rightarrow> bool) \<Rightarrow> cluster \<Rightarrow> cluster_action list \<times> cluster" where
  "Cleanup close_ok cl = (stop_nodes close_ok cl @ [CancelCluster, RemoveDirs], discard cl)"

text \<open>
  Polling until every node sees all others: an observation is the number of peers of each node, and the
  observations end at the deadline, when the test fails.
\<close>

fun WaitForMesh :: "cluster \<Rightarrow> int list list \<Rightarrow> bool" where
  "WaitForMesh cl [] = False"
| "WaitForMesh cl (obs # later) =
     (if list_all (\<lambda>k. \<not> k < int (length cl) - 1) obs then True else WaitForMesh cl later)"

lemma WaitForMesh_iff: "WaitForMesh cl polls \<longleftrightarrow> (\<exists>obs\<in>set polls. \<forall>k\<in>set obs. int (length cl) - 1 \<le> k)"
  by (induction cl polls rule: WaitForMesh.induct) (auto simp: list_all_iff not_less)

text \<open>Both ways of closing stop every node, the host of each last, before the directories go.\<close>

lemma stopped_nodes:
  assumes "i < length cl" and "Host (hn_node (cl ! i)) \<noteq> None"
  shows "NodeAction i CloseHost \<in> set (fst (Cleanup close_ok cl))" "NodeAction i CloseHost \<in> set (fst (Cluster_Stop close_ok cl))"
    "last (fst (Cleanup close_ok cl)) = RemoveDirs" "last (fst (Cluster_Stop close_ok cl)) = RemoveDirs"
proof -
  have "(i, cl ! i) \<in> set (enumerate 0 cl)" using assms(1) by (auto simp: in_set_enumerate_eq)
  moreover have "CloseHost \<in> set (snd (Stop (close_ok i) (hn_node (cl ! i))))" using assms(2) by (simp add: Stop_def)
  ultimately have "NodeAction i CloseHost \<in> set (stop_nodes close_ok cl)" by (force simp: stop_nodes_def)
  then show "NodeAction i CloseHost \<in> set (fst (Cleanup close_ok cl))" "NodeAction i CloseHost \<in> set (fst (Cluster_Stop close_ok cl))"
    "last (fst (Cleanup close_ok cl)) = RemoveDirs" "last (fst (Cluster_Stop close_ok cl)) = RemoveDirs"
    by (simp_all add: Cleanup_def Cluster_Stop_def)
qed

section \<open>Helpers of the benchmark\<close>

record bench_config =
  NodeCount :: int
  ContentSize :: int
  Requests :: int
  bc_ChunkSize :: int
  bc_Policy :: string
  bc_Epsilon :: real
  bc_TimeSeriesDir :: string

record bench_env =
  be_cluster :: cluster_env
  be_os :: os
  be_marshal :: "Manifest \<Rightarrow> bytes option"
  be_rand :: "nat \<Rightarrow> byte"
  be_link :: "nat \<Rightarrow> nat \<Rightarrow> bool"
  be_elapsed_req :: "nat \<Rightarrow> duration"
  be_stamp :: "nat \<Rightarrow> duration"
  be_duration :: duration
  be_zipf :: "nat \<Rightarrow> nat"
  be_loss :: "nat \<Rightarrow> nat \<Rightarrow> real"
  be_since_start :: duration

datatype bench_error = CreateCluster | PublishChunk chunk_error | PublishStore store_error
datatype bench_failure = Panic go_panic | Failed bench_error

definition bind_sum :: "'e + 'a \<Rightarrow> ('a \<Rightarrow> 'e + 'b) \<Rightarrow> 'e + 'b" where
  "bind_sum r f = (case r of Inl e \<Rightarrow> Inl e | Inr x \<Rightarrow> f x)"

definition panics :: "go_panic + 'a \<Rightarrow> bench_failure + 'a" where
  "panics r = (case r of Inl p \<Rightarrow> Inl (Panic p) | Inr x \<Rightarrow> Inr x)"

definition go_rem :: "int \<Rightarrow> int \<Rightarrow> go_panic + int" where
  "go_rem a b = (if b = 0 then Inl DivideByZero else Inr (a smod b))"

definition createBenchCluster :: "bench_env \<Rightarrow> bench_config \<Rightarrow> bench_failure + cluster" where
  "createBenchCluster env cfg =
     bind_sum (panics (NewClusterWithOptions (be_cluster env) (NodeCount cfg)
         \<lparr>co_Policy = bc_Policy cfg, co_Epsilon = bc_Epsilon cfg, DisableMDNS = True, co_ProbeInterval = 3 * Second,
          DisableCache = False, DisableBloom = False\<rparr>))
       (\<lambda>c. case c of None \<Rightarrow> Inl (Failed CreateCluster) | Some cl \<Rightarrow> Inr cl)"

definition generateTestData :: "bench_env \<Rightarrow> int \<Rightarrow> go_panic + bytes" where
  "generateTestData env sz = (if sz < 0 then Inl MakeSlice else Inr (map (be_rand env) [0..<nat sz]))"

definition set_node :: "cluster \<Rightarrow> nat \<Rightarrow> Node \<Rightarrow> cluster" where
  "set_node cl i n = cl[i := (cl ! i)\<lparr>hn_node := n\<rparr>]"

definition publishContent ::
  "bench_env \<Rightarrow> cluster \<Rightarrow> nat \<Rightarrow> bytes \<Rightarrow> int \<Rightarrow> go_panic + (bench_error + Block list \<times> Manifest) \<times> cluster" where
  "publishContent env cl nodeIdx data chunkSize0 =
     (let chunkSize = (if chunkSize0 \<le> 0 then 256 * 1024 else chunkSize0) in
      case Chunk \<lparr>rd_data = data, rd_fail = None\<rparr> chunkSize of
        Inl e \<Rightarrow> Inr (Inl (PublishChunk e), cl)
      | Inr blocks \<Rightarrow>
          (if nodeIdx \<ge> length cl then Inl IndexOutOfRange
           else let n = hn_node (cl ! nodeIdx) in
             case ContentStore n of
               None \<Rightarrow> Inl NilDereference
             | Some store \<Rightarrow>
                 (case store_blocks (be_os env) store blocks (Disk n) of
                    (Some e, fs) \<Rightarrow> Inr (Inl (PublishStore e), set_node cl nodeIdx (n\<lparr>Disk := fs\<rparr>))
                  | (None, fs) \<Rightarrow>
                      (let manifest = BuildManifest ''bench-data'' (int (length data)) blocks in
                       case PutManifest (be_marshal env) (be_os env) store manifest fs of
                         (Some e, fs') \<Rightarrow> Inr (Inl (PublishStore e), set_node cl nodeIdx (n\<lparr>Disk := fs'\<rparr>))
                       | (None, fs') \<Rightarrow> Inr (Inr (blocks, manifest), set_node cl nodeIdx (n\<lparr>Disk := fs'\<rparr>))))))"

text \<open>\<^verbatim>\<open>protocol.FetchBlock\<close> from host \<open>f\<close> at host \<open>p\<close>.\<close>

definition cluster_fetch :: "bench_env \<Rightarrow> cluster \<Rightarrow> nat \<Rightarrow> nat \<Rightarrow> cid \<Rightarrow> (fetch_error + Block) \<times> cluster" where
  "cluster_fetch env cl f p cid =
     (if hn_closed (cl ! f) \<or> hn_closed (cl ! p) \<or> \<not> be_link env f p then (FetchBlock (\<lambda>_. None) cid, cl)
      else case node_serve (be_os env) (hn_node (cl ! p)) (fetch_request cid) of
        None \<Rightarrow> (FetchBlock (\<lambda>_. None) cid, cl)
      | Some (resp, n') \<Rightarrow> (FetchBlock (\<lambda>_. Some resp) cid, set_node cl p n'))"

section \<open>The request loop\<close>

record bench_state =
  bs_cluster :: cluster
  bs_latencies :: "real list"
  bs_timestamps :: "real list"
  bs_bytes :: int
  bs_errors :: int

fun fetch_chunks :: "bench_env \<Rightarrow> nat \<Rightarrow> cid list \<Rightarrow> bench_state \<Rightarrow> bench_state" where
  "fetch_chunks env f [] s = s"
| "fetch_chunks env f (cid # cids) s =
     (case cluster_fetch env (bs_cluster s) f 0 cid of
        (Inl err, cl) \<Rightarrow> fetch_chunks env f cids (s\<lparr>bs_cluster := cl, bs_errors := bs_errors s + 1\<rparr>)
      | (Inr block, cl) \<Rightarrow> fetch_chunks env f cids (s\<lparr>bs_cluster := cl, bs_bytes := bs_bytes s + int (length (Data block))\<rparr>))"

definition node_index :: "cluster \<Rightarrow> int \<Rightarrow> go_panic + nat" where
  "node_index cl i = (if 0 \<le> i \<and> i < int (length cl) then Inr (nat i) else Inl IndexOutOfRange)"

text \<open>
  The loop the latency benchmark and the scenarios share: before request \<open>i\<close> the scenario's \<open>fault\<close>
  strikes, then the host \<open>pick i\<close> fetches every chunk from the publisher.
\<close>

fun request_loop ::
  "bench_env \<Rightarrow> (nat \<Rightarrow> cluster \<Rightarrow> cluster) \<Rightarrow> (nat \<Rightarrow> go_panic + int) \<Rightarrow> cid list \<Rightarrow> nat \<Rightarrow> nat \<Rightarrow> bench_state \<Rightarrow> go_panic + bench_state" where
  "request_loop env fault pick cids 0 i s = Inr s"
| "request_loop env fault pick cids (Suc k) i s =
     bind_sum (pick i) (\<lambda>idx. bind_sum (node_index (bs_cluster s) idx) (\<lambda>fetcherIdx.
       if length (bs_cluster s) = 0 then Inl IndexOutOfRange
       else let s1 = fetch_chunks env fetcherIdx cids (s\<lparr>bs_cluster := fault i (bs_cluster s)\<rparr>)
            in request_loop env fault pick cids k (Suc i)
                 (s1\<lparr>bs_latencies := bs_latencies s1 @ [real_of_int (be_elapsed_req env i sdiv 1000000)],
                     bs_timestamps := bs_timestamps s1 @ [Seconds (be_stamp env i)]\<rparr>)))"

definition init_bench :: "cluster \<Rightarrow> bench_state" where
  "init_bench cl = \<lparr>bs_cluster = cl, bs_latencies = [], bs_timestamps = [], bs_bytes = 0, bs_errors = 0\<rparr>"

definition run_requests ::
  "bench_env \<Rightarrow> (nat \<Rightarrow> cluster \<Rightarrow> cluster) \<Rightarrow> (nat \<Rightarrow> go_panic + int) \<Rightarrow> cid list \<Rightarrow> int \<Rightarrow> cluster \<Rightarrow>
     go_panic + LatencyResult \<times> bench_state" where
  "run_requests env fault pick cids requests cl =
     bind_sum (request_loop env fault pick cids (nat requests) 0 (init_bench cl)) (\<lambda>s.
       bind_sum (latency_result (bs_latencies s) (bs_timestamps s) (bs_bytes s) (Seconds (be_duration env))) (\<lambda>r. Inr (r, s)))"

definition round_robin :: "int \<Rightarrow> nat \<Rightarrow> go_panic + int" where
  "round_robin m i = bind_sum (go_rem (int i) m) (\<lambda>r. Inr (r + 1))"

section \<open>Benchmarks\<close>

definition runLatencyBenchWithCluster :: "bench_env \<Rightarrow> cluster \<Rightarrow> bench_config \<Rightarrow> bench_failure + LatencyResult \<times> cluster" where
  "runLatencyBenchWithCluster env cl cfg =
     bind_sum (panics (generateTestData env (ContentSize cfg))) (\<lambda>testData.
     bind_sum (panics (publishContent env cl 0 testData (bc_ChunkSize cfg))) (\<lambda>(pub, cl1).
       case pub of
         Inl e \<Rightarrow> Inl (Failed e)
       | Inr (blocks, manifest) \<Rightarrow>
           bind_sum (panics (run_requests env (\<lambda>i cl. cl) (round_robin (NodeCount cfg - 1)) (ChunkCIDs manifest) (Requests cfg) cl1))
             (\<lambda>(r, s). Inr (r, bs_cluster s))))"

definition runLatencyBench :: "bench_env \<Rightarrow> bench_config \<Rightarrow> bench_failure + LatencyResult" where
  "runLatencyBench env cfg =
     bind_sum (createBenchCluster env cfg) (\<lambda>cl. bind_sum (runLatencyBenchWithCluster env cl cfg) (\<lambda>(r, cl'). Inr r))"

record CacheResult =
  CacheHits :: int
  CacheMisses :: int
  HitRatio :: real

fun publish_items :: "bench_env \<Rightarrow> int \<Rightarrow> int \<Rightarrow> nat \<Rightarrow> cid list list \<Rightarrow> cluster \<Rightarrow> bench_failure + cid list list \<times> cluster" where
  "publish_items env sz chunkSize 0 its cl = Inr (its, cl)"
| "publish_items env sz chunkSize (Suc k) its cl =
     bind_sum (panics (generateTestData env sz)) (\<lambda>testData.
     bind_sum (panics (publishContent env cl 0 testData chunkSize)) (\<lambda>(pub, cl1).
       case pub of
         Inl e \<Rightarrow> Inl (Failed e)
       | Inr (blocks, manifest) \<Rightarrow> publish_items env sz chunkSize k (its @ [ChunkCIDs manifest]) cl1))"

fun zipf_loop :: "bench_env \<Rightarrow> int \<Rightarrow> cid list list \<Rightarrow> nat \<Rightarrow> nat \<Rightarrow> cluster \<Rightarrow> go_panic + cluster" where
  "zipf_loop env m its 0 r cl = Inr cl"
| "zipf_loop env m its (Suc k) r cl =
     bind_sum (round_robin m r) (\<lambda>idx. bind_sum (node_index cl idx) (\<lambda>fetcherIdx.
       if be_zipf env r \<ge> length its then Inl IndexOutOfRange
       else zipf_loop env m its k (Suc r) (bs_cluster (fetch_chunks env fetcherIdx (its ! be_zipf env r) (init_bench cl)))))"

definition cache_result :: "Stats \<Rightarrow> CacheResult" where
  "cache_result stats =
     (let n = st_Hits stats + st_Misses stats in
      \<lparr>CacheHits = st_Hits stats, CacheMisses = st_Misses stats, HitRatio = (if n > 0 then real_of_int (st_Hits stats) / real_of_int n else 0)\<rparr>)"

definition runCacheBenchWithCluster :: "bench_env \<Rightarrow> cluster \<Rightarrow> bench_config \<Rightarrow> bench_failure + CacheResult" where
  "runCacheBenchWithCluster env cl cfg =
     bind_sum (publish_items env (ContentSize cfg sdiv 8) (bc_ChunkSize cfg) 8 [] cl) (\<lambda>(its, cl1).
       let numRequests = (if Requests cfg < 20 then 50 else Requests cfg) in
       bind_sum (panics (zipf_loop env (NodeCount cfg - 1) its (nat numRequests) 0 cl1)) (\<lambda>cl2.
         case BlockCache (hn_node (cl2 ! 0)) of
           None \<Rightarrow> Inl (Panic NilDereference)
         | Some c \<Rightarrow> Inr (cache_result (LRUCache_Stats c))))"

definition runCacheBench :: "bench_env \<Rightarrow> bench_config \<Rightarrow> bench_failure + CacheResult" where
  "runCacheBench env cfg = bind_sum (createBenchCluster env cfg) (\<lambda>cl. runCacheBenchWithCluster env cl cfg)"

section \<open>Resilience\<close>

text \<open>\<^verbatim>\<open>ContentStore.Put\<close> of every block on node \<open>i\<close>, errors ignored.\<close>

definition replicate_to :: "os \<Rightarrow> Block list \<Rightarrow> cluster \<Rightarrow> nat \<Rightarrow> go_panic + cluster" where
  "replicate_to os blocks cl i =
     (if i \<ge> length cl then Inl IndexOutOfRange
      else let n = hn_node (cl ! i) in
        case ContentStore n of
          None \<Rightarrow> (if blocks = [] then Inr cl else Inl NilDereference)
        | Some st \<Rightarrow> Inr (set_node cl i (n\<lparr>Disk := foldl (\<lambda>fs b. snd (Store_Put os st b fs)) (Disk n) blocks\<rparr>)))"

definition over_nodes :: "(cluster \<Rightarrow> nat \<Rightarrow> go_panic + cluster) \<Rightarrow> int \<Rightarrow> cluster \<Rightarrow> go_panic + cluster" where
  "over_nodes f n cl = foldl (\<lambda>r i. bind_sum r (\<lambda>cl. f cl i)) (Inr cl) [1..<nat n]"

definition close_hosts :: "nat list \<Rightarrow> cluster \<Rightarrow> cluster" where
  "close_hosts ks cl = foldl (\<lambda>cl k. cl[k := (cl ! k)\<lparr>hn_closed := True\<rparr>]) cl ks"

record ResilienceResult =
  TotalBlocks :: nat
  AvailableBlocks :: nat
  Availability :: real
  NodesKilled :: nat

fun try_peers :: "bench_env \<Rightarrow> cid \<Rightarrow> nat list \<Rightarrow> cluster \<Rightarrow> bool \<times> cluster" where
  "try_peers env cid [] cl = (False, cl)"
| "try_peers env cid (j # js) cl =
     (case cluster_fetch env cl 0 j cid of (Inr b, cl') \<Rightarrow> (True, cl') | (Inl e, cl') \<Rightarrow> try_peers env cid js cl')"

fun count_available :: "bench_env \<Rightarrow> Store \<Rightarrow> nat list \<Rightarrow> Block list \<Rightarrow> nat \<Rightarrow> cluster \<Rightarrow> nat \<times> cluster" where
  "count_available env st js [] available cl = (available, cl)"
| "count_available env st js (b # bs) available cl =
     (case Store_Get (be_os env) st (CID b) (Disk (hn_node (cl ! 0))) of
        Inr block \<Rightarrow> count_available env st js bs (Suc available) cl
      | Inl err \<Rightarrow>
          (case try_peers env (CID b) js cl of
             (found, cl') \<Rightarrow> count_available env st js bs (if found then Suc available else available) cl'))"

definition runResilienceBench :: "bench_env \<Rightarrow> bench_config \<Rightarrow> bench_failure + ResilienceResult" where
  "runResilienceBench env cfg =
     (if NodeCount cfg < 3 then Inr \<lparr>TotalBlocks = 0, AvailableBlocks = 0, Availability = 0, NodesKilled = 0\<rparr>
      else
        bind_sum (createBenchCluster env cfg) (\<lambda>cl.
        bind_sum (panics (generateTestData env (ContentSize cfg))) (\<lambda>testData.
        bind_sum (panics (publishContent env cl 0 testData (bc_ChunkSize cfg))) (\<lambda>(pub, cl1).
          case pub of
            Inl e \<Rightarrow> Inl (Failed e)
          | Inr (blocks, manifest) \<Rightarrow>
              bind_sum (panics (over_nodes (replicate_to (be_os env) blocks) (NodeCount cfg) cl1)) (\<lambda>cl2.
                let killCount = max 1 (NodeCount cfg sdiv 3);
                    ks = take (nat killCount) (rev [1..<nat (NodeCount cfg)]);
                    killed = length ks;
                    cl3 = close_hosts ks cl2
                in case ContentStore (hn_node (cl3 ! 0)) of
                     None \<Rightarrow> Inl (Panic NilDereference)
                   | Some st \<Rightarrow>
                       (let available = fst (count_available env st [1..<nat (NodeCount cfg) - killed] blocks 0 cl3) in
                        Inr \<lparr>TotalBlocks = length blocks, AvailableBlocks = available,
                             Availability = (if 0 < length blocks then real available / real (length blocks) else 0),
                             NodesKilled = killed\<rparr>))))))"

section \<open>Fault scenarios\<close>

definition scenario_config :: "int \<Rightarrow> int \<Rightarrow> int \<Rightarrow> int \<Rightarrow> bench_config" where
  "scenario_config nodeCount contentSize requests chunkSize =
     \<lparr>NodeCount = nodeCount, ContentSize = contentSize, Requests = requests, bc_ChunkSize = chunkSize,
      bc_Policy = ''epsilon-greedy'', bc_Epsilon = 1 / 10, bc_TimeSeriesDir = []\<rparr>"

definition runCleanScenario :: "bench_env \<Rightarrow> int \<Rightarrow> int \<Rightarrow> int \<Rightarrow> int \<Rightarrow> bench_failure + LatencyResult \<times> real \<times> int" where
  "runCleanScenario env nodeCount contentSize requests chunkSize =
     (let cfg = scenario_config nodeCount contentSize requests chunkSize in
      bind_sum (createBenchCluster env cfg) (\<lambda>cl.
      bind_sum (runLatencyBenchWithCluster env cl cfg) (\<lambda>(latRes, cl'). Inr (latRes, 1, 0))))"

text \<open>Publishing and, as the kill and churn scenarios do, publishing again for the blocks to replicate.\<close>

definition publish_twice :: "bench_env \<Rightarrow> cluster \<Rightarrow> bytes \<Rightarrow> int \<Rightarrow> bench_failure + Block list \<times> Manifest \<times> cluster" where
  "publish_twice env cl testData chunkSize =
     bind_sum (panics (publishContent env cl 0 testData chunkSize)) (\<lambda>(pub, cl1).
       case pub of
         Inl e \<Rightarrow> Inl (Failed e)
       | Inr (blocks0, manifest) \<Rightarrow>
           bind_sum (panics (publishContent env cl1 0 testData chunkSize)) (\<lambda>(pub2, cl2).
             Inr (case pub2 of Inl e \<Rightarrow> [] | Inr (blocks, manifest2) \<Rightarrow> blocks, manifest, cl2)))"

definition kill_pick :: "int \<Rightarrow> int \<Rightarrow> nat \<Rightarrow> go_panic + int" where
  "kill_pick nodeCount killCount = round_robin (max 1 (nodeCount - 1 - killCount))"

definition kill_fault :: "int \<Rightarrow> int \<Rightarrow> int \<Rightarrow> nat \<Rightarrow> cluster \<Rightarrow> cluster" where
  "kill_fault nodeCount killCount killAt i cl =
     (if int i = killAt then close_hosts (rev [nat (max 1 (nodeCount - killCount))..<nat nodeCount]) cl else cl)"

definition runNodeKillScenario :: "bench_env \<Rightarrow> int \<Rightarrow> int \<Rightarrow> int \<Rightarrow> int \<Rightarrow> bench_failure + LatencyResult \<times> real \<times> int" where
  "runNodeKillScenario env nodeCount contentSize requests chunkSize =
     (let cfg = scenario_config nodeCount contentSize requests chunkSize in
      bind_sum (createBenchCluster env cfg) (\<lambda>cl.
      bind_sum (panics (generateTestData env contentSize)) (\<lambda>testData.
      bind_sum (publish_twice env cl testData chunkSize) (\<lambda>(blocks, manifest, cl1).
      bind_sum (panics (over_nodes (replicate_to (be_os env) blocks) nodeCount cl1)) (\<lambda>cl2.
        let killAt = requests sdiv 2; killCount = max 1 (nodeCount sdiv 3) in
        bind_sum (panics (run_requests env (kill_fault nodeCount killCount killAt) (kill_pick nodeCount killCount)
            (ChunkCIDs manifest) requests cl2)) (\<lambda>(result, s).
          let ops = requests * int (length (ChunkCIDs manifest));
              avail = (if requests > 0 then real_of_int (ops - bs_errors s) / real_of_int ops else 1)
          in Inr (result, avail, bs_errors s)))))))"

definition churn_pick :: "int \<Rightarrow> int \<Rightarrow> nat \<Rightarrow> go_panic + int" where
  "churn_pick nodeCount churnNodes i =
     bind_sum (go_rem (int i) (nodeCount - 1 - churnNodes)) (\<lambda>r.
       let fetcherIdx = r + churnNodes + 1 in Inr (if fetcherIdx \<ge> nodeCount then 1 else fetcherIdx))"

definition churn_fault :: "int \<Rightarrow> nat \<Rightarrow> cluster \<Rightarrow> cluster" where
  "churn_fault churnNodes i cl =
     (if churnNodes > 0 \<and> i > 0 \<and> i mod 25 = 0 then close_hosts [1..<nat churnNodes + 1] cl else cl)"

definition runChurnScenario :: "bench_env \<Rightarrow> int \<Rightarrow> int \<Rightarrow> int \<Rightarrow> int \<Rightarrow> bench_failure + LatencyResult \<times> real \<times> int" where
  "runChurnScenario env nodeCount contentSize requests chunkSize =
     (let cfg = scenario_config nodeCount contentSize requests chunkSize in
      bind_sum (createBenchCluster env cfg) (\<lambda>cl.
      bind_sum (panics (generateTestData env contentSize)) (\<lambda>testData.
      bind_sum (publish_twice env cl testData chunkSize) (\<lambda>(blocks, manifest, cl1).
      bind_sum (panics (over_nodes (replicate_to (be_os env) blocks) nodeCount cl1)) (\<lambda>cl2.
        let churnNodes = min 2 (nodeCount - 2) in
        bind_sum (panics (run_requests env (churn_fault churnNodes) (churn_pick nodeCount churnNodes)
            (ChunkCIDs manifest) requests cl2)) (\<lambda>(result, s). Inr (result, 1, bs_errors s)))))))"

text \<open>Deleting each block of a node with probability one half.\<close>

definition lose_blocks :: "bench_env \<Rightarrow> Block list \<Rightarrow> cluster \<Rightarrow> nat \<Rightarrow> go_panic + cluster" where
  "lose_blocks env blocks cl i =
     (if i \<ge> length cl then Inl IndexOutOfRange
      else let n = hn_node (cl ! i);
               lost = map snd (filter (\<lambda>(j, b). be_loss env i j < 1 / 2) (enumerate 0 blocks)) in
        case ContentStore n of
          None \<Rightarrow> (if lost = [] then Inr cl else Inl NilDereference)
        | Some st \<Rightarrow>
            Inr (set_node cl i (n\<lparr>Disk := foldl (\<lambda>fs b. snd (Store_Delete (be_os env) st (CID b) fs)) (Disk n) lost\<rparr>)))"

definition runDataLossScenario :: "bench_env \<Rightarrow> int \<Rightarrow> int \<Rightarrow> int \<Rightarrow> int \<Rightarrow> bench_failure + LatencyResult \<times> real \<times> int" where
  "runDataLossScenario env nodeCount contentSize requests chunkSize =
     (let cfg = scenario_config nodeCount contentSize requests chunkSize in
      bind_sum (createBenchCluster env cfg) (\<lambda>cl.
      bind_sum (panics (generateTestData env contentSize)) (\<lambda>testData.
      bind_sum (panics (publishContent env cl 0 testData chunkSize)) (\<lambda>(pub, cl1).
        case pub of
          Inl e \<Rightarrow> Inl (Failed e)
        | Inr (blocks, manifest) \<Rightarrow>
            bind_sum (panics (over_nodes (replicate_to (be_os env) blocks) nodeCount cl1)) (\<lambda>cl2.
            bind_sum (panics (over_nodes (lose_blocks env blocks) nodeCount cl2)) (\<lambda>cl3.
            bind_sum (panics (run_requests env (\<lambda>i cl. cl) (round_robin (nodeCount - 1)) (ChunkCIDs manifest) requests cl3)) (\<lambda>(result, s).
              let totalOps = requests * int (length (ChunkCIDs manifest));
                  avail = (if totalOps > 0 then real_of_int (totalOps - bs_errors s) / real_of_int totalOps else 1)
              in Inr (result, avail, bs_errors s))))))))"

section \<open>Studies\<close>

record bench_results =
  res_Config :: bench_config
  res_Latency :: LatencyResult
  res_CacheComparison :: CacheResult
  res_Resilience :: ResilienceResult
  TotalDuration :: string

text \<open>What the creation and the writing of output files meet.\<close>

record out_files =
  of_create_fails :: "path \<Rightarrow> bool"
  of_limit :: "path \<Rightarrow> nat option"

definition timeseries_rows :: "LatencyResult \<Rightarrow> string list list" where
  "timeseries_rows r =
     [''request_index'', ''elapsed_s'', ''latency_ms''] #
     map (\<lambda>i. [nat_digits i, fmt_fixed 3 (if i < length (lr_Timestamps r) then lr_Timestamps r ! i else 0), fmt_fixed 2 (lr_AllMs r ! i)])
       [0..<length (lr_AllMs r)]"

definition timeseries_path :: "bench_config \<Rightarrow> path" where
  "timeseries_path cfg = bc_TimeSeriesDir cfg @ ''/timeseries_'' @ bc_Policy cfg @ ''_'' @ int_digits (NodeCount cfg) @ ''.csv''"

definition LatencyResult_WriteTimeSeriesCSV :: "out_files \<Rightarrow> path \<Rightarrow> LatencyResult \<Rightarrow> file_system \<Rightarrow> bool \<times> file_system" where
  "LatencyResult_WriteTimeSeriesCSV out p r fs = write_rows (of_create_fails out p) (of_limit out p) p (timeseries_rows r) fs"

text \<open>
  \<open>env 0\<close>, \<open>env 1\<close> and \<open>env 2\<close> are what the three benchmarks of a run meet. The time series is written as soon as the
  latencies are known; an error of the writer is only logged.
\<close>

definition Run :: "out_files \<Rightarrow> (nat \<Rightarrow> bench_env) \<Rightarrow> bench_config \<Rightarrow> file_system \<Rightarrow> (bench_failure + bench_results) \<times> file_system" where
  "Run out env cfg fs =
     (case runLatencyBench (env 0) cfg of
        Inl e \<Rightarrow> (Inl e, fs)
      | Inr latencyResult \<Rightarrow>
          (let fs' = (if bc_TimeSeriesDir cfg \<noteq> []
                      then snd (LatencyResult_WriteTimeSeriesCSV out (timeseries_path cfg) latencyResult fs) else fs) in
           (bind_sum (runCacheBench (env 1) cfg) (\<lambda>cacheResult.
            bind_sum (runResilienceBench (env 2) cfg) (\<lambda>resilienceResult.
              Inr \<lparr>res_Config = cfg, res_Latency = latencyResult, res_CacheComparison = cacheResult, res_Resilience = resilienceResult,
                TotalDuration = Duration_String (be_since_start (env 2))\<rparr>)), fs')))"

text \<open>The results of the runs that did not fail, and the files they leave (\<open>'s\<close>); a panic ends the program.\<close>

fun collect_runs :: "(nat \<Rightarrow> 's \<Rightarrow> (bench_failure + 'a) \<times> 's) \<Rightarrow> nat \<Rightarrow> nat \<Rightarrow> 'a list \<Rightarrow> 's \<Rightarrow> go_panic + 'a list \<times> 's" where
  "collect_runs run 0 r xs s = Inr (xs, s)"
| "collect_runs run (Suc k) r xs s =
     (case run r s of
        (Inl (Panic p), s') \<Rightarrow> Inl p
      | (Inl (Failed e), s') \<Rightarrow> collect_runs run k (Suc r) xs s'
      | (Inr x, s') \<Rightarrow> collect_runs run k (Suc r) (xs @ [x]) s')"

record ComparisonEntry =
  cmp_Policy :: string
  cmp_Epsilon :: real
  cmp_NodeCount :: int
  cmp_AvgLatencyMs :: real
  cmp_P50LatencyMs :: real
  cmp_P95LatencyMs :: real
  cmp_P99LatencyMs :: real
  cmp_ThroughputMBs :: real
  cmp_CacheHitRatio :: real
  cmp_Availability :: real
  cmp_FairnessIndex :: real
  cmp_StddevLatMs :: real
  cmp_CI95Lower :: real
  cmp_CI95Upper :: real

definition comparison_entry :: "string \<Rightarrow> real \<Rightarrow> int \<Rightarrow> bench_results list \<Rightarrow> ComparisonEntry" where
  "comparison_entry name eps nodeCount rs =
     (let avgLats = map (\<lambda>r. lr_AvgLatencyMs (res_Latency r)) rs; (ci95l, ci95u) = confidenceInterval95 avgLats in
      \<lparr>cmp_Policy = name, cmp_Epsilon = eps, cmp_NodeCount = nodeCount, cmp_AvgLatencyMs = mean avgLats,
       cmp_P50LatencyMs = mean (map (\<lambda>r. lr_P50LatencyMs (res_Latency r)) rs),
       cmp_P95LatencyMs = mean (map (\<lambda>r. lr_P95LatencyMs (res_Latency r)) rs),
       cmp_P99LatencyMs = mean (map (\<lambda>r. lr_P99LatencyMs (res_Latency r)) rs),
       cmp_ThroughputMBs = mean (map (\<lambda>r. lr_ThroughputMBs (res_Latency r)) rs),
       cmp_CacheHitRatio = mean (map (\<lambda>r. HitRatio (res_CacheComparison r)) rs),
       cmp_Availability = mean (map (\<lambda>r. Availability (res_Resilience r)) rs),
       cmp_FairnessIndex = mean (map (\<lambda>r. lr_FairnessIndex (res_Latency r)) rs),
       cmp_StddevLatMs = stddev avgLats, cmp_CI95Lower = ci95l, cmp_CI95Upper = ci95u\<rparr>)"

definition comparison_policies :: "(string \<times> real) list" where
  "comparison_policies = [(''epsilon-greedy'', 1 / 10), (''decaying-epsilon'', 0), (''ucb1'', 0), (''thompson'', 0),
     (''contextual'', 0), (''latency'', 0), (''random'', 0)]"

text \<open>\<open>env i r\<close> is what run \<open>r\<close> of the \<open>i\<close>-th configuration meets.\<close>

fun compare_policies ::
  "out_files \<Rightarrow> (nat \<Rightarrow> nat \<Rightarrow> nat \<Rightarrow> bench_env) \<Rightarrow> bench_config \<Rightarrow> nat \<Rightarrow> nat \<Rightarrow> (string \<times> real) list \<Rightarrow> ComparisonEntry list \<Rightarrow>
     file_system \<Rightarrow> go_panic + ComparisonEntry list \<times> file_system" where
  "compare_policies out env cfg nruns i [] entries fs = Inr (entries, fs)"
| "compare_policies out env cfg nruns i ((name, eps) # pols) entries fs =
     bind_sum (collect_runs (\<lambda>r. Run out (env i r) (cfg\<lparr>bc_Policy := name, bc_Epsilon := eps\<rparr>)) nruns 0 [] fs) (\<lambda>(rs, fs').
       compare_policies out env cfg nruns (Suc i) pols
         (if length rs = 0 then entries else entries @ [comparison_entry name eps (NodeCount cfg) rs]) fs')"

definition RunComparisonWithRuns ::
  "out_files \<Rightarrow> (nat \<Rightarrow> nat \<Rightarrow> nat \<Rightarrow> bench_env) \<Rightarrow> int \<Rightarrow> int \<Rightarrow> int \<Rightarrow> int \<Rightarrow> int \<Rightarrow> string \<Rightarrow> file_system \<Rightarrow>
     go_panic + ComparisonEntry list \<times> file_system" where
  "RunComparisonWithRuns out env nodeCount contentSize requests chunkSize nruns0 timeSeriesDir fs =
     (let nruns = (if nruns0 < 1 then 1 else nruns0) in
      compare_policies out env \<lparr>NodeCount = nodeCount, ContentSize = contentSize, Requests = requests, bc_ChunkSize = chunkSize,
        bc_Policy = [], bc_Epsilon = 0, bc_TimeSeriesDir = timeSeriesDir\<rparr> (nat nruns) 0 comparison_policies [] fs)"

definition RunComparison ::
  "out_files \<Rightarrow> (nat \<Rightarrow> nat \<Rightarrow> nat \<Rightarrow> bench_env) \<Rightarrow> int \<Rightarrow> int \<Rightarrow> int \<Rightarrow> int \<Rightarrow> file_system \<Rightarrow> go_panic + ComparisonEntry list \<times> file_system" where
  "RunComparison out env nodeCount contentSize requests chunkSize fs =
     RunComparisonWithRuns out env nodeCount contentSize requests chunkSize 1 [] fs"

fun RunScalability ::
  "out_files \<Rightarrow> (nat \<Rightarrow> nat \<Rightarrow> nat \<Rightarrow> nat \<Rightarrow> bench_env) \<Rightarrow> nat \<Rightarrow> int list \<Rightarrow> int \<Rightarrow> int \<Rightarrow> int \<Rightarrow> int \<Rightarrow> string \<Rightarrow> ComparisonEntry list \<Rightarrow>
     file_system \<Rightarrow> go_panic + ComparisonEntry list \<times> file_system" where
  "RunScalability out env i [] contentSize requests chunkSize nruns timeSeriesDir configs fs = Inr (configs, fs)"
| "RunScalability out env i (n # ns) contentSize requests chunkSize nruns timeSeriesDir configs fs =
     bind_sum (RunComparisonWithRuns out (env i) n contentSize requests chunkSize nruns timeSeriesDir fs) (\<lambda>(comp, fs').
       RunScalability out env (Suc i) ns contentSize requests chunkSize nruns timeSeriesDir (configs @ comp) fs')"

record ablationConfig =
  ac_name :: string
  ac_policy :: string
  ac_epsilon :: real
  ac_disableCache :: bool
  ac_disableBloom :: bool

definition ablation_configs :: "ablationConfig list" where
  "ablation_configs =
     [\<lparr>ac_name = ''Full system ('' @ [char_of (206 :: nat), char_of (181 :: nat)] @ ''-greedy)'', ac_policy = ''epsilon-greedy'', ac_epsilon = 1 / 10, ac_disableCache = False, ac_disableBloom = False\<rparr>,
      \<lparr>ac_name = ''No bandits (greedy)'', ac_policy = ''latency'', ac_epsilon = 0, ac_disableCache = False, ac_disableBloom = False\<rparr>,
      \<lparr>ac_name = ''No cache'', ac_policy = ''epsilon-greedy'', ac_epsilon = 1 / 10, ac_disableCache = True, ac_disableBloom = False\<rparr>,
      \<lparr>ac_name = ''No Bloom exchange'', ac_policy = ''epsilon-greedy'', ac_epsilon = 1 / 10, ac_disableCache = False, ac_disableBloom = True\<rparr>,
      \<lparr>ac_name = ''Random baseline'', ac_policy = ''random'', ac_epsilon = 0, ac_disableCache = False, ac_disableBloom = False\<rparr>]"

definition ablation_run :: "bench_env \<Rightarrow> ablationConfig \<Rightarrow> bench_config \<Rightarrow> bench_failure + LatencyResult \<times> CacheResult" where
  "ablation_run env ac cfg0 =
     bind_sum (panics (NewClusterWithOptions (be_cluster env) (NodeCount cfg0)
         \<lparr>co_Policy = ac_policy ac, co_Epsilon = ac_epsilon ac, DisableMDNS = True, co_ProbeInterval = 3 * Second,
          DisableCache = ac_disableCache ac, DisableBloom = ac_disableBloom ac\<rparr>)) (\<lambda>c.
       case c of
         None \<Rightarrow> Inl (Failed CreateCluster)
       | Some cl \<Rightarrow>
           (let cfg = cfg0\<lparr>bc_Policy := ac_policy ac, bc_Epsilon := ac_epsilon ac\<rparr> in
            bind_sum (runLatencyBenchWithCluster env cl cfg) (\<lambda>(latRes, cl1).
            bind_sum (runCacheBenchWithCluster env cl1 cfg) (\<lambda>cacheRes. Inr (latRes, cacheRes)))))"

record AblationEntry =
  ab_Configuration :: string
  ab_AvgLatencyMs :: real
  ab_P95LatencyMs :: real
  ab_ThroughputMBs :: real
  ab_CacheHitRatio :: real
  ab_Availability :: real
  ab_FairnessIndex :: real
  ab_StddevLatMs :: real
  ab_DeltaAvgPct :: real
  ab_CI95Lower :: real
  ab_CI95Upper :: real

definition delta_avg :: "bool \<Rightarrow> real \<Rightarrow> real \<Rightarrow> real" where
  "delta_avg first baselineAvg avg =
     (if first then 0 else if baselineAvg > 0 then ((avg - baselineAvg) / baselineAvg) * 100 else 0)"

fun ablate ::
  "(nat \<Rightarrow> nat \<Rightarrow> bench_env) \<Rightarrow> bench_config \<Rightarrow> nat \<Rightarrow> nat \<Rightarrow> ablationConfig list \<Rightarrow> real \<Rightarrow> AblationEntry list \<Rightarrow>
     go_panic + AblationEntry list" where
  "ablate env cfg nruns ci [] baselineAvg entries = Inr entries"
| "ablate env cfg nruns ci (ac # acs) baselineAvg entries =
     bind_sum (collect_runs (\<lambda>r u. (ablation_run (env ci r) ac cfg, u)) nruns 0 [] ()) (\<lambda>(rs, _).
       if length rs = 0 then ablate env cfg nruns (Suc ci) acs baselineAvg entries
       else let avgLats = map (\<lambda>(l, c). lr_AvgLatencyMs l) rs; avg = mean avgLats; sd = stddev avgLats;
                (ci95l, ci95u) = confidenceInterval95 avgLats;
                entry = \<lparr>ab_Configuration = ac_name ac, ab_AvgLatencyMs = avg,
                  ab_P95LatencyMs = mean (map (\<lambda>(l, c). lr_P95LatencyMs l) rs),
                  ab_ThroughputMBs = mean (map (\<lambda>(l, c). lr_ThroughputMBs l) rs),
                  ab_CacheHitRatio = mean (map (\<lambda>(l, c). HitRatio c) rs),
                  ab_Availability = mean (map (\<lambda>(l, c). 1) rs),
                  ab_FairnessIndex = mean (map (\<lambda>(l, c). lr_FairnessIndex l) rs),
                  ab_StddevLatMs = sd, ab_DeltaAvgPct = delta_avg (ci = 0) baselineAvg avg, ab_CI95Lower = ci95l, ab_CI95Upper = ci95u\<rparr>
            in ablate env cfg nruns (Suc ci) acs (if ci = 0 then avg else baselineAvg) (entries @ [entry]))"

definition RunAblation :: "(nat \<Rightarrow> nat \<Rightarrow> bench_env) \<Rightarrow> int \<Rightarrow> int \<Rightarrow> int \<Rightarrow> int \<Rightarrow> int \<Rightarrow> go_panic + AblationEntry list" where
  "RunAblation env nodeCount contentSize requests chunkSize nruns =
     ablate env \<lparr>NodeCount = nodeCount, ContentSize = contentSize, Requests = requests, bc_ChunkSize = chunkSize,
       bc_Policy = [], bc_Epsilon = 0, bc_TimeSeriesDir = []\<rparr> (nat nruns) 0 ablation_configs 0 []"

record FaultInjectionEntry =
  fi_Scenario :: string
  fi_AvgLatencyMs :: real
  fi_P95LatencyMs :: real
  fi_Availability :: real
  fi_ErrorCount :: int
  fi_StddevLatMs :: real
  fi_DeltaAvgPct :: real
  fi_CI95Lower :: real
  fi_CI95Upper :: real

type_synonym scenario = "bench_env \<Rightarrow> int \<Rightarrow> int \<Rightarrow> int \<Rightarrow> int \<Rightarrow> bench_failure + LatencyResult \<times> real \<times> int"

definition scenarios :: "(string \<times> scenario) list" where
  "scenarios = [(''Clean (no faults)'', runCleanScenario), (''Mid-run node kill (30%)'', runNodeKillScenario),
     (''High churn (cycle 2 nodes)'', runChurnScenario), (''Partial data loss (50%)'', runDataLossScenario)]"

fun inject ::
  "(nat \<Rightarrow> nat \<Rightarrow> bench_env) \<Rightarrow> int \<Rightarrow> int \<Rightarrow> int \<Rightarrow> int \<Rightarrow> nat \<Rightarrow> nat \<Rightarrow> (string \<times> scenario) list \<Rightarrow> real \<Rightarrow>
     FaultInjectionEntry list \<Rightarrow> go_panic + FaultInjectionEntry list" where
  "inject env nodeCount contentSize requests chunkSize nruns si [] baselineAvg entries = Inr entries"
| "inject env nodeCount contentSize requests chunkSize nruns si ((name, run) # scs) baselineAvg entries =
     bind_sum (collect_runs (\<lambda>r u. (run (env si r) nodeCount contentSize requests chunkSize, u)) nruns 0 [] ()) (\<lambda>(rs, _).
       if length rs = 0 then inject env nodeCount contentSize requests chunkSize nruns (Suc si) scs baselineAvg entries
       else let avgLats = map (\<lambda>(l, avail, errs). lr_AvgLatencyMs l) rs; avg = mean avgLats; sd = stddev avgLats;
                (ci95l, ci95u) = confidenceInterval95 avgLats;
                totalErrors = sum_list (map (\<lambda>(l, avail, errs). errs) rs);
                entry = \<lparr>fi_Scenario = name, fi_AvgLatencyMs = avg, fi_P95LatencyMs = mean (map (\<lambda>(l, avail, errs). lr_P95LatencyMs l) rs),
                  fi_Availability = 1, fi_ErrorCount = totalErrors sdiv int (length avgLats), fi_StddevLatMs = sd,
                  fi_DeltaAvgPct = delta_avg (si = 0) baselineAvg avg, fi_CI95Lower = ci95l, fi_CI95Upper = ci95u\<rparr>
            in inject env nodeCount contentSize requests chunkSize nruns (Suc si) scs (if si = 0 then avg else baselineAvg) (entries @ [entry]))"

definition RunFaultInjection ::
  "(nat \<Rightarrow> nat \<Rightarrow> bench_env) \<Rightarrow> int \<Rightarrow> int \<Rightarrow> int \<Rightarrow> int \<Rightarrow> int \<Rightarrow> go_panic + FaultInjectionEntry list" where
  "RunFaultInjection env nodeCount contentSize requests chunkSize nruns =
     inject env nodeCount contentSize requests chunkSize (nat nruns) 0 scenarios 0 []"

section \<open>Lemmas: a publisher that serves\<close>

text \<open>The node has the chunks \<open>cids\<close> on its disk and answers every request for them.\<close>

definition publisher_ok :: "os \<Rightarrow> cid list \<Rightarrow> Node \<Rightarrow> bool" where
  "publisher_ok os cids n \<longleftrightarrow> (\<exists>st. ContentStore n = Some st \<and> (\<forall>k. \<not> Store_IsPinned st k) \<and> cache_ok (BlockCache n)
     \<and> trusted (cache_view (BlockCache n)) slash_free \<and> trusted (store_lookup st (Disk n)) slash_free \<and> (\<forall>p. \<not> os_read_fails os p)
     \<and> (\<forall>k\<in>set cids. slash_free k \<and> length k \<le> 1024 \<and> store_lookup st (Disk n) k \<noteq> None
         \<and> (\<forall>d. store_lookup st (Disk n) k = Some d \<or> cache_view (BlockCache n) k = Some d \<longrightarrow> length d < 2 ^ 32)))"

lemma publisher_serves:
  assumes "publisher_ok os cids n" and "k \<in> set cids"
  shows "\<exists>resp n' b. node_serve os n (fetch_request k) = Some (resp, n') \<and> FetchBlock (\<lambda>_. Some resp) k = Inr b
    \<and> publisher_ok os cids n' \<and> ContentStore n' = ContentStore n"
proof -
  obtain st where st: "ContentStore n = Some st" "\<forall>k. \<not> Store_IsPinned st k" "cache_ok (BlockCache n)"
      "trusted (cache_view (BlockCache n)) slash_free" "trusted (store_lookup st (Disk n)) slash_free" "\<forall>p. \<not> os_read_fails os p"
    and ks: "\<And>k. k \<in> set cids \<Longrightarrow> slash_free k \<and> length k \<le> 1024 \<and> store_lookup st (Disk n) k \<noteq> None
         \<and> (\<forall>d. store_lookup st (Disk n) k = Some d \<or> cache_view (BlockCache n) k = Some d \<longrightarrow> length d < 2 ^ 32)"
    using assms(1) unfolding publisher_ok_def by blast
  note k = ks [OF assms(2)]
  have "served os st (BlockCache n) (Disk n) k \<noteq> None"
    using k st(6) by (auto simp: served_def Store_Get_lookup split: option.splits)
  then obtain b where b: "served os st (BlockCache n) (Disk n) k = Some b" by blast
  have key: "CID b = k" using served_key [OF st(3) b] .
  have ca: "content_addressed b" using served_trusted [OF st(4,5) b] k key by (simp add: content_addressed_def)
  have len: "length (Data b) < 2 ^ 32"
    using k b by (cases "BlockCache n") (auto simp: served_def cache_view_def split: option.splits sum.splits dest!: Store_Get_SomeD)
  let ?c = "map_option (\<lambda>c. snd (LRUCache_Get c k)) (BlockCache n)"
  obtain c' where c': "cache_put (Store_IsPinned st) ?c b = Some c'"
    using cache_put_returns [OF cache_ok_Get [OF st(3)] st(2)] by blast
  let ?resp = "[1] @ word_be_enc (of_nat (length (Data b)) :: u32) @ Data b"
  have "read_cid (fetch_request k) = Some (k, [])" using read_cid_request [of k "[]"] k by simp
  then have "node_serve os n (fetch_request k) = Some (?resp, n\<lparr>BlockCache := c'\<rparr>)"
    using st(1) b c' by (simp add: node_serve_def BlockTransfer_handleStream_def lookupBlock_eq)
  moreover have "FetchBlock (\<lambda>_. Some ?resp) k = Inr b" using fetch_response_found [OF len ca] key by simp
  moreover have "publisher_ok os cids (n\<lparr>BlockCache := c'\<rparr>)"
  proof -
    have ok: "cache_ok ?c" "trusted (cache_view ?c) slash_free" using st(3,4) by (simp_all add: cache_ok_Get)
    have view: "cache_view c' j \<in> (if j = k then {None, Some (Data b)} else {None, cache_view (BlockCache n) j})" for j
      using cache_put_view [OF ok(1) c', of j] key unfolding cache_view_Get by simp
    have "length d < 2 ^ 32" if "j \<in> set cids" "cache_view c' j = Some d" for j d
      using view [of j] that ks [OF that(1)] len by (cases "j = k") auto
    then have ks': "slash_free j \<and> length j \<le> 1024 \<and> store_lookup st (Disk n) j \<noteq> None
         \<and> (\<forall>d. store_lookup st (Disk n) j = Some d \<or> cache_view c' j = Some d \<longrightarrow> length d < 2 ^ 32)" if "j \<in> set cids" for j
      using ks [OF that] that by blast
    have "trusted (cache_view c') slash_free" using cache_put_trusted [OF ok c'] ca by blast
    then show ?thesis
      unfolding publisher_ok_def using st(1,2,5,6) cache_put_ok [OF ok(1) c'] ks'
      by (intro exI [of _ st] conjI ballI) simp_all
  qed
  ultimately show ?thesis by (intro exI [of _ ?resp] exI [of _ "n\<lparr>BlockCache := c'\<rparr>"] exI [of _ b]) simp
qed

section \<open>Lemmas: the request loop\<close>

text \<open>The publisher serves, every node has a store and only hosts of \<open>S\<close> are closed.\<close>

definition cluster_ok :: "os \<Rightarrow> cid list \<Rightarrow> nat set \<Rightarrow> nat \<Rightarrow> cluster \<Rightarrow> bool" where
  "cluster_ok os cids S N cl \<longleftrightarrow> length cl = N \<and> 0 < N \<and> publisher_ok os cids (hn_node (cl ! 0))
     \<and> (\<forall>i<N. ContentStore (hn_node (cl ! i)) \<noteq> None \<and> (hn_closed (cl ! i) \<longrightarrow> i \<in> S))"

lemma nth_update_valid: "j < length xs \<Longrightarrow> xs[i := x] ! j = (if i = j then x else xs ! j)"
  by (auto simp: nth_list_update)

lemma cluster_ok_set_publisher:
  assumes "cluster_ok os cids S N cl" and "publisher_ok os cids n" and "ContentStore n \<noteq> None"
  shows "cluster_ok os cids S N (set_node cl 0 n)"
  using assms by (auto simp: cluster_ok_def set_node_def nth_list_update)

lemma cluster_fetch_ok:
  assumes "cluster_ok (be_os env) cids S N cl" and "k \<in> set cids" and "f < N" and "f \<notin> S" and "0 \<notin> S" and "be_link env f 0"
  shows "\<exists>b cl'. cluster_fetch env cl f 0 k = (Inr b, cl') \<and> cluster_ok (be_os env) cids S N cl'"
proof -
  have p: "publisher_ok (be_os env) cids (hn_node (cl ! 0))" and open_: "\<not> hn_closed (cl ! f)" "\<not> hn_closed (cl ! 0)"
    and st: "ContentStore (hn_node (cl ! 0)) \<noteq> None"
    using assms(1,3,4,5) unfolding cluster_ok_def by blast+
  obtain resp n' b where s: "node_serve (be_os env) (hn_node (cl ! 0)) (fetch_request k) = Some (resp, n')"
      "FetchBlock (\<lambda>_. Some resp) k = Inr b" "publisher_ok (be_os env) cids n'" "ContentStore n' = ContentStore (hn_node (cl ! 0))"
    using publisher_serves [OF p assms(2)] by blast
  then show ?thesis using open_ assms(6) cluster_ok_set_publisher [OF assms(1) s(3)] st by (simp add: cluster_fetch_def)
qed

lemma fetch_chunks_ok:
  assumes "f < N" and "f \<notin> S" and "0 \<notin> S" and "be_link env f 0"
  shows "cluster_ok (be_os env) cids S N (bs_cluster s) \<Longrightarrow> set ks \<subseteq> set cids \<Longrightarrow>
    cluster_ok (be_os env) cids S N (bs_cluster (fetch_chunks env f ks s))
    \<and> bs_errors (fetch_chunks env f ks s) = bs_errors s \<and> bs_latencies (fetch_chunks env f ks s) = bs_latencies s"
proof (induction ks arbitrary: s)
  case (Cons k ks)
  obtain b cl' where f: "cluster_fetch env (bs_cluster s) f 0 k = (Inr b, cl')" "cluster_ok (be_os env) cids S N cl'"
    using cluster_fetch_ok [OF Cons.prems(1) _ assms, of k] Cons.prems(2) by fastforce
  with Cons.IH [of "s\<lparr>bs_cluster := cl', bs_bytes := bs_bytes s + int (length (Data b))\<rparr>"] Cons.prems(2) show ?case by simp
qed simp

lemma request_loop_ok:
  assumes fault: "\<And>i cl. cluster_ok (be_os env) cids S N cl \<Longrightarrow> cluster_ok (be_os env) cids S N (fault i cl)"
    and pick: "\<And>i. \<exists>f. pick i = Inr (int f) \<and> f < N \<and> f \<notin> S" and S: "0 \<notin> S" and link: "\<forall>f. be_link env f 0"
  shows "cluster_ok (be_os env) cids S N (bs_cluster s) \<Longrightarrow>
    \<exists>s'. request_loop env fault pick cids k i s = Inr s' \<and> bs_errors s' = bs_errors s \<and> length (bs_latencies s') = length (bs_latencies s) + k"
proof (induction k arbitrary: i s)
  case (Suc k)
  obtain f where f: "pick i = Inr (int f)" "f < N" "f \<notin> S" using pick by blast
  let ?s1 = "fetch_chunks env f cids (s\<lparr>bs_cluster := fault i (bs_cluster s)\<rparr>)"
  have N: "length (bs_cluster s) = N" "0 < N" using Suc.prems by (simp_all add: cluster_ok_def)
  have c: "cluster_ok (be_os env) cids S N (bs_cluster ?s1)" "bs_errors ?s1 = bs_errors s" "bs_latencies ?s1 = bs_latencies s"
    using fetch_chunks_ok [OF f(2,3) S, of env cids "s\<lparr>bs_cluster := fault i (bs_cluster s)\<rparr>" cids] fault [OF Suc.prems] link by auto
  let ?s2 = "?s1\<lparr>bs_latencies := bs_latencies ?s1 @ [real_of_int (be_elapsed_req env i sdiv 1000000)],
      bs_timestamps := bs_timestamps ?s1 @ [Seconds (be_stamp env i)]\<rparr>"
  have step: "request_loop env fault pick cids (Suc k) i s = request_loop env fault pick cids k (Suc i) ?s2"
    using f N by (simp add: bind_sum_def node_index_def Let_def)
  obtain s' where "request_loop env fault pick cids k (Suc i) ?s2 = Inr s'" "bs_errors s' = bs_errors ?s2"
      "length (bs_latencies s') = length (bs_latencies ?s2) + k"
    using Suc.IH [of ?s2 "Suc i"] c(1) by auto
  then show ?case unfolding step using c(2,3) by (intro exI [of _ s']) simp
qed simp

lemma run_requests_ok:
  assumes "\<And>i cl. cluster_ok (be_os env) cids S N cl \<Longrightarrow> cluster_ok (be_os env) cids S N (fault i cl)"
    and "\<And>i. \<exists>f. pick i = Inr (int f) \<and> f < N \<and> f \<notin> S" and "0 \<notin> S" and "\<forall>f. be_link env f 0"
    and "cluster_ok (be_os env) cids S N cl"
  shows "\<exists>r s. run_requests env fault pick cids requests cl = Inr (r, s) \<and> bs_errors s = 0"
proof -
  have "\<exists>s. request_loop env fault pick cids (nat requests) 0 (init_bench cl) = Inr s \<and> bs_errors s = bs_errors (init_bench cl)
      \<and> length (bs_latencies s) = length (bs_latencies (init_bench cl)) + nat requests"
    by (rule request_loop_ok [OF assms(1-4)]) (simp_all add: init_bench_def assms(5))
  then obtain s where s: "request_loop env fault pick cids (nat requests) 0 (init_bench cl) = Inr s" "bs_errors s = 0"
    by (auto simp: init_bench_def)
  have "\<exists>r. latency_result (bs_latencies s) ts b d = Inr r" for ts b d
  proof (cases "bs_latencies s = []")
    case False
    then have "sort (bs_latencies s) \<noteq> []" by (metis length_0_conv length_sort)
    note p = percentile_interp [OF this]
    show ?thesis using p [of "0.5"] p [of "0.95"] p [of "0.99"] False by (simp add: latency_result_def Let_def)
  qed (simp add: latency_result_def)
  then obtain r where "latency_result (bs_latencies s) (bs_timestamps s) (bs_bytes s) (Seconds (be_duration env)) = Inr r" by blast
  with s show ?thesis by (simp add: run_requests_def bind_sum_def)
qed

section \<open>Lemmas: setting up a cluster\<close>

text \<open>A node whose cache is empty and whose store is unpinned and authentic.\<close>

definition idle :: "Node \<Rightarrow> bool" where
  "idle n \<longleftrightarrow> (\<exists>st. ContentStore n = Some st \<and> (\<forall>k. \<not> Store_IsPinned st k) \<and> trusted (store_lookup st (Disk n)) slash_free)
     \<and> cache_ok (BlockCache n) \<and> (\<forall>k. cache_view (BlockCache n) k = None)"

lemma Start_idle:
  assumes "Start se (New cfg (\<lambda>_. None)) = (None, n)"
  shows "idle n"
  using assms
proof (cases rule: Start_fields)
  case (1 st self fs')
  have disk: "slash_free k \<Longrightarrow> store_lookup st (Disk n) k = None" for k
    using NewHost_blocks [of k st "se_host se" "se_os se" "host_config cfg" "\<lambda>_. None"] 1(1,6) by (simp add: store_lookup_def)
  have "pinFile st = path_Join [DataDir cfg, ''pins.json'']" using 1(3) by (simp add: store_at_def)
  then have "last (pinFile st) \<noteq> last (path_Join [DataDir cfg, keyFileName])" using pins_path_end [OF 1(3)] by (simp add: key_path_end)
  then have "pinFile st \<noteq> path_Join [DataDir cfg, keyFileName]" by metis
  then have "fs' (path_Join [DataDir cfg, ''pins.json'']) = None"
    using NewHost_other [of _ "host_config cfg" "se_host se" "se_os se" "\<lambda>_. None"] 1(1,3) by (simp add: store_at_def host_config_def)
  then have "pins st k = None" for k using 1(2) by (auto simp: NewStore_def Let_def loadPins_def os_ReadFile_def split: if_splits)
  with 1 disk show ?thesis
    by (simp add: idle_def Store_IsPinned_def trusted_def cache_ok_def cache_view_def new_cache_fresh)
qed

lemma start_nodes_idle:
  "start_nodes env opts k i cl = Some cl' \<Longrightarrow> \<forall>h\<in>set cl. idle (hn_node h) \<and> \<not> hn_closed h \<Longrightarrow>
   length cl' = length cl + k \<and> (\<forall>h\<in>set cl'. idle (hn_node h) \<and> \<not> hn_closed h)"
proof (induction k arbitrary: i cl)
  case (Suc k)
  obtain tmpDir n where s: "Start (ce_start env i) (New (clusterConfigWithOptions (ce_port env + int i) tmpDir opts) (\<lambda>_. None)) = (None, n)"
      "start_nodes env opts k (Suc i) (cl @ [\<lparr>hn_node = n, hn_closed = False\<rparr>]) = Some cl'"
    using Suc.prems(1) by (auto split: option.splits prod.splits)
  from Suc.IH [OF s(2)] Suc.prems(2) Start_idle [OF s(1)] show ?case by auto
qed simp

lemma createBenchCluster_idle:
  assumes "createBenchCluster env cfg = Inr cl"
  shows "int (length cl) = NodeCount cfg \<and> (\<forall>i<length cl. idle (hn_node (cl ! i)) \<and> \<not> hn_closed (cl ! i))"
  using assms start_nodes_idle [of "be_cluster env" _ "nat (NodeCount cfg)" 0 "[]" cl]
  by (auto simp: createBenchCluster_def NewClusterWithOptions_def panics_def bind_sum_def split: if_splits option.splits)

section \<open>Lemmas: publishing in the benchmark\<close>

definition held :: "Store \<Rightarrow> file_system \<Rightarrow> cid \<Rightarrow> bool" where
  "held st fs k \<longleftrightarrow> (\<exists>d. store_lookup st fs k = Some d \<and> length d < 2 ^ 32)"

lemma store_blocks_held:
  "\<forall>p. os_write os p = WriteOk \<Longrightarrow> \<forall>b\<in>set bs. content_addressed b \<and> length (Data b) < 2 ^ 32 \<Longrightarrow>
   trusted (store_lookup st fs) slash_free \<Longrightarrow>
   \<exists>fs'. store_blocks os st bs fs = (None, fs') \<and> trusted (store_lookup st fs') slash_free
     \<and> (\<forall>k. slash_free k \<and> (held st fs k \<or> k \<in> CID ` set bs) \<longrightarrow> held st fs' k)"
proof (induction bs arbitrary: fs)
  case (Cons b bs)
  let ?fs1 = "fs(blockPath st (CID b) \<mapsto> Data b)"
  have put: "Store_Put os st b fs = (None, ?fs1)" using Cons.prems(1) by (simp add: Store_Put_cases)
  have sf: "slash_free (CID b)" using Cons.prems(2) by (simp add: content_addressed_def)
  have "trusted (store_lookup st (snd (Store_Put os st b fs))) slash_free"
    using Cons.prems by (intro Store_Put_trusted) (simp_all add: content_addressed_def)
  then have "trusted (store_lookup st ?fs1) slash_free" by (simp add: put)
  then obtain fs' where fs': "store_blocks os st bs ?fs1 = (None, fs')" "trusted (store_lookup st fs') slash_free"
      "\<forall>k. slash_free k \<and> (held st ?fs1 k \<or> k \<in> CID ` set bs) \<longrightarrow> held st fs' k"
    using Cons.IH [OF Cons.prems(1), of ?fs1] Cons.prems(2) by (meson list.set_intros(2))
  have "held st ?fs1 k" if "slash_free k" "held st fs k \<or> k = CID b" for k
    using that Cons.prems(2) sf by (auto simp: held_def store_lookup_def blockPath_inject)
  then show ?case using fs' put by (intro exI [of _ fs']) auto
qed simp

lemma publishContent_ok:
  assumes "\<forall>p. os_write (be_os env) p = WriteOk" and "\<forall>p. \<not> os_read_fails (be_os env) p" and "\<forall>m. be_marshal env m \<noteq> None"
    and "length data < 2 ^ 32" and "data \<noteq> []" and "0 < length cl" and "idle (hn_node (cl ! 0))"
  shows "\<exists>bs m n. publishContent env cl 0 data cs = Inr (Inr (bs, m), set_node cl 0 n) \<and> idle n
    \<and> publisher_ok (be_os env) (ChunkCIDs m) n \<and> bs \<noteq> [] \<and> m = BuildManifest ''bench-data'' (int (length data)) bs
    \<and> bs = map block_of (split_bytes (nat (if cs \<le> 0 then 256 * 1024 else cs) - 1) data)"
proof -
  define c where "c = (if cs \<le> 0 then 256 * 1024 else cs)"
  have c: "0 < c" by (simp add: c_def)
  let ?bs = "map block_of (split_bytes (nat c - 1) data)" let ?m = "BuildManifest ''bench-data'' (int (length data)) ?bs" let ?n = "hn_node (cl ! 0)"
  obtain st where st: "ContentStore ?n = Some st" "\<forall>k. \<not> Store_IsPinned st k" "trusted (store_lookup st (Disk ?n)) slash_free"
    and cache: "cache_ok (BlockCache ?n)" "\<forall>k. cache_view (BlockCache ?n) k = None"
    using assms(7) by (auto simp: idle_def)
  have "length d < 2 ^ 32" if "d \<in> set (split_bytes (nat c - 1) data)" for d
    using sublist_length_le [OF split_bytes_sublist [OF that]] assms(4) by simp
  then obtain fs where fs: "store_blocks (be_os env) st ?bs (Disk ?n) = (None, fs)" "trusted (store_lookup st fs) slash_free"
      "\<forall>k. slash_free k \<and> (held st (Disk ?n) k \<or> k \<in> CID ` set ?bs) \<longrightarrow> held st fs k"
    using store_blocks_held [OF assms(1), of ?bs st "Disk ?n"] st(3) by auto
  obtain d where d: "be_marshal env ?m = Some d" using assms(3) by blast
  let ?fs' = "fs(manifestPath st (RootCID ?m) \<mapsto> d)" let ?n' = "?n\<lparr>Disk := ?fs'\<rparr>"
  have put: "PutManifest (be_marshal env) (be_os env) st ?m fs = (None, ?fs')"
    using d assms(1) by (simp add: PutManifest_def os_WriteFile_def)
  have look: "store_lookup st ?fs' k = store_lookup st fs k" if "slash_free k" for k
    using block_not_manifest [OF that, of "RootCID ?m" st] by (simp add: store_lookup_def BuildManifest_def Let_def)
  have "publishContent env cl 0 data cs = Inr (Inr (?bs, ?m), set_node cl 0 ?n')"
    using c assms(6) st(1) fs(1) put by (simp add: publishContent_def Let_def Chunk_eof flip: c_def del: One_nat_def)
  moreover have "trusted (store_lookup st ?fs') slash_free" using fs(2) look by (simp add: trusted_def)
  moreover have "\<forall>k\<in>set (ChunkCIDs ?m). slash_free k \<and> length k \<le> 1024 \<and> held st ?fs' k"
  proof
    fix k assume k: "k \<in> set (ChunkCIDs ?m)"
    then have c: "k \<in> CID ` set ?bs" by (simp add: BuildManifest_def Let_def image_image)
    then have s: "slash_free k" "length k \<le> 1024" by auto
    moreover have "held st fs k" using fs(3) c s(1) by blast
    ultimately show "slash_free k \<and> length k \<le> 1024 \<and> held st ?fs' k" using look [OF s(1)] by (simp add: held_def)
  qed
  moreover have "?bs \<noteq> []" using assms(5) by (cases data) simp_all
  moreover have "trusted (cache_view (BlockCache ?n)) slash_free" using cache(2) by (simp add: trusted_def)
  ultimately show ?thesis using st cache assms(2) unfolding c_def [symmetric]
    by (intro exI [of _ ?bs] exI [of _ ?m] exI [of _ ?n']) (auto simp: idle_def publisher_ok_def held_def)
qed

section \<open>Lemmas: faults away from the publisher\<close>

lemma cluster_ok_set_other:
  assumes "cluster_ok os cids S N cl" and "0 < i" and "ContentStore n \<noteq> None"
  shows "cluster_ok os cids S N (set_node cl i n)"
  using assms by (auto simp: cluster_ok_def set_node_def nth_update_valid split: if_splits)

lemma over_nodes_ok:
  assumes "\<And>cl i. 0 < i \<Longrightarrow> i < N \<Longrightarrow> cluster_ok os cids S N cl \<Longrightarrow> \<exists>cl'. f cl i = Inr cl' \<and> cluster_ok os cids S N cl'"
    and "cluster_ok os cids S N cl"
  shows "\<exists>cl'. over_nodes f (int N) cl = Inr cl' \<and> cluster_ok os cids S N cl'"
proof -
  have "\<exists>cl'. foldl (\<lambda>r i. bind_sum r (\<lambda>cl. f cl i)) (Inr cl) is = Inr cl' \<and> cluster_ok os cids S N cl'"
    if "set is \<subseteq> {1..<N}" "cluster_ok os cids S N cl" for "is" cl
    using that
  proof (induction "is" arbitrary: cl)
    case (Cons i "is")
    have i: "0 < i" "i < N" using Cons.prems(1) by auto
    obtain cl1 where "f cl i = Inr cl1" "cluster_ok os cids S N cl1" using assms(1) [OF i Cons.prems(2)] by blast
    with Cons show ?case by (simp add: bind_sum_def)
  qed simp
  then show ?thesis using assms(2) by (simp add: over_nodes_def)
qed

lemma replicate_to_ok:
  assumes "0 < i" and "i < N" and "cluster_ok os cids S N cl"
  shows "\<exists>cl'. replicate_to os' bs cl i = Inr cl' \<and> cluster_ok os cids S N cl'"
proof -
  obtain st where st: "ContentStore (hn_node (cl ! i)) = Some st" using assms by (auto simp: cluster_ok_def)
  moreover have "i < length cl" using assms(2,3) by (simp add: cluster_ok_def)
  ultimately show ?thesis by (simp add: replicate_to_def Let_def cluster_ok_set_other [OF assms(3,1)])
qed

lemma lose_blocks_ok:
  assumes "0 < i" and "i < N" and "cluster_ok os cids S N cl"
  shows "\<exists>cl'. lose_blocks env bs cl i = Inr cl' \<and> cluster_ok os cids S N cl'"
proof -
  obtain st where st: "ContentStore (hn_node (cl ! i)) = Some st" using assms by (auto simp: cluster_ok_def)
  moreover have "i < length cl" using assms(2,3) by (simp add: cluster_ok_def)
  ultimately show ?thesis by (simp add: lose_blocks_def Let_def cluster_ok_set_other [OF assms(3,1)])
qed

lemma close_hosts_ok:
  "cluster_ok os cids S N cl \<Longrightarrow> set ks \<subseteq> S \<Longrightarrow> cluster_ok os cids S N (close_hosts ks cl)"
proof (induction ks arbitrary: cl)
  case (Cons k ks)
  have "cluster_ok os cids S N (cl[k := (cl ! k)\<lparr>hn_closed := True\<rparr>])"
    using Cons.prems by (auto simp: cluster_ok_def nth_update_valid split: if_splits)
  with Cons show ?case by (simp add: close_hosts_def)
qed (simp add: close_hosts_def)

lemma smod_eq_mod: "0 \<le> a \<Longrightarrow> 0 < b \<Longrightarrow> a smod b = a mod b" for a b :: int
  by (simp add: minus_sdiv_mult_eq_smod [symmetric] sdiv_eq_div minus_div_mult_eq_mod)

lemma round_robin_pos: "0 < m \<Longrightarrow> round_robin m i = Inr (int i mod m + 1)"
  by (simp add: round_robin_def go_rem_def bind_sum_def smod_eq_mod)

lemma cluster_ok_published:
  assumes "\<forall>i<length cl. idle (hn_node (cl ! i)) \<and> \<not> hn_closed (cl ! i)" and "0 < length cl"
    and "publisher_ok os cids n" and "idle n"
  shows "cluster_ok os cids S (length cl) (set_node cl 0 n)"
  using assms by (auto simp: cluster_ok_def set_node_def nth_list_update idle_def)

text \<open>Both ways of publishing leave a publisher that serves the manifest's chunks.\<close>

lemma published_cluster:
  assumes "\<forall>p. os_write (be_os env) p = WriteOk" and "\<forall>p. \<not> os_read_fails (be_os env) p" and "\<forall>m. be_marshal env m \<noteq> None"
    and "length data < 2 ^ 32" and "data \<noteq> []" and "createBenchCluster env cfg = Inr cl" and "NodeCount cfg = int N" and "0 < N"
  obtains bs m cl1 cl2 where "publishContent env cl 0 data cs = Inr (Inr (bs, m), cl1)" and "ChunkCIDs m \<noteq> []"
    and "publish_twice env cl data cs = Inr (bs, m, cl2)"
    and "\<And>S. cluster_ok (be_os env) (ChunkCIDs m) S N cl1" and "\<And>S. cluster_ok (be_os env) (ChunkCIDs m) S N cl2"
proof -
  have len: "length cl = N" and idle: "\<forall>i<length cl. idle (hn_node (cl ! i)) \<and> \<not> hn_closed (cl ! i)"
    using createBenchCluster_idle [OF assms(6)] assms(7) by auto
  have pos: "0 < length cl" using assms(8) len by simp
  obtain bs m n1 where p1: "publishContent env cl 0 data cs = Inr (Inr (bs, m), set_node cl 0 n1)" "idle n1"
      "publisher_ok (be_os env) (ChunkCIDs m) n1" "bs \<noteq> []" "m = BuildManifest ''bench-data'' (int (length data)) bs"
      "bs = map block_of (split_bytes (nat (if cs \<le> 0 then 256 * 1024 else cs) - 1) data)"
    using publishContent_ok [OF assms(1-5) pos, of cs] idle pos by blast
  let ?cl1 = "set_node cl 0 n1"
  have cl1: "0 < length ?cl1" "hn_node (?cl1 ! 0) = n1" "\<And>n. set_node ?cl1 0 n = set_node cl 0 n"
    using pos by (simp_all add: set_node_def)
  have i1: "idle (hn_node (?cl1 ! 0))" using p1(2) cl1(2) by simp
  obtain bs' m' n2 where p2: "publishContent env ?cl1 0 data cs = Inr (Inr (bs', m'), set_node ?cl1 0 n2)" "idle n2"
      "publisher_ok (be_os env) (ChunkCIDs m') n2" "m' = BuildManifest ''bench-data'' (int (length data)) bs'"
      "bs' = map block_of (split_bytes (nat (if cs \<le> 0 then 256 * 1024 else cs) - 1) data)"
    using publishContent_ok [OF assms(1-5) cl1(1) i1, of cs] by blast
  have same: "bs' = bs" "m' = m" using p1(5,6) p2(4,5) by simp_all
  have "publish_twice env cl data cs = Inr (bs, m, set_node cl 0 n2)"
    using p1(1) p2(1) same cl1(3) by (simp add: publish_twice_def bind_sum_def panics_def)
  moreover have "ChunkCIDs m \<noteq> []" using p1(4,5) by (simp add: BuildManifest_def Let_def)
  ultimately show thesis
    using that [OF p1(1)] cluster_ok_published [OF idle pos p1(3,2)] cluster_ok_published [OF idle pos _ p2(2)] p2(3) same len by auto
qed

lemma mod_index: "0 < m \<Longrightarrow> \<exists>r. int i mod m = int r \<and> int r < m"
  by (metis nonneg_int_cases pos_mod_bound pos_mod_sign)

lemma over_nodes_all_ok:
  assumes "\<And>cl i S. 0 < i \<Longrightarrow> i < N \<Longrightarrow> cluster_ok os cids S N cl \<Longrightarrow> \<exists>cl'. f cl i = Inr cl' \<and> cluster_ok os cids S N cl'"
    and "\<And>S. cluster_ok os cids S N cl"
  shows "\<exists>cl'. over_nodes f (int N) cl = Inr cl' \<and> (\<forall>S. cluster_ok os cids S N cl')"
proof -
  have ok: "\<exists>cl'. over_nodes f (int N) cl = Inr cl' \<and> cluster_ok os cids S N cl'" for S
    by (rule over_nodes_ok [OF assms(1) assms(2)])
  then obtain cl' where "over_nodes f (int N) cl = Inr cl'" by blast
  with ok show ?thesis by simp
qed

lemma kill_requests_ok:
  assumes "3 \<le> N" and "\<forall>f. be_link env f 0" and "kc = max 1 (int N sdiv 3)"
    and "\<And>S. cluster_ok (be_os env) cids S N cl"
  shows "\<exists>r s. run_requests env (kill_fault (int N) kc killAt) (kill_pick (int N) kc) cids requests cl = Inr (r, s) \<and> bs_errors s = 0"
proof -
  have kc: "1 \<le> kc" "kc \<le> int N - 2" using assms(1,3) by (auto simp: sdiv_eq_div)
  let ?S = "{nat (int N - kc)..<N}"
  have "cluster_ok (be_os env) cids ?S N (kill_fault (int N) kc killAt i c)" if "cluster_ok (be_os env) cids ?S N c" for i c
    using that kc by (auto simp: kill_fault_def intro!: close_hosts_ok)
  moreover have "\<exists>f. kill_pick (int N) kc i = Inr (int f) \<and> f < N \<and> f \<notin> ?S" for i
  proof -
    let ?m = "int N - 1 - kc"
    have m: "0 < ?m" using kc by simp
    obtain r where r: "int i mod ?m = int r" "int r < ?m" using mod_index [OF m] by blast
    have "kill_pick (int N) kc i = Inr (int r + 1)" using m r(1) by (simp add: kill_pick_def round_robin_pos)
    then show ?thesis using r(2) kc by (intro exI [of _ "Suc r"]) auto
  qed
  moreover have "0 \<notin> ?S" using kc by auto
  ultimately show ?thesis using run_requests_ok [where S = ?S, OF _ _ _ assms(2,4)] by blast
qed

lemma churn_requests_ok:
  assumes "3 \<le> N" and "\<forall>f. be_link env f 0" and "cn = min 2 (int N - 2)"
    and "\<And>S. cluster_ok (be_os env) cids S N cl"
  shows "\<exists>r s. run_requests env (churn_fault cn) (churn_pick (int N) cn) cids requests cl = Inr (r, s) \<and> bs_errors s = 0"
proof -
  have cn: "1 \<le> cn" "cn \<le> int N - 2" using assms(1,3) by auto
  let ?S = "{1..<nat cn + 1}"
  have "cluster_ok (be_os env) cids ?S N (churn_fault cn i c)" if "cluster_ok (be_os env) cids ?S N c" for i c
    using that by (auto simp: churn_fault_def intro!: close_hosts_ok)
  moreover have "\<exists>f. churn_pick (int N) cn i = Inr (int f) \<and> f < N \<and> f \<notin> ?S" for i
  proof -
    let ?m = "int N - 1 - cn"
    have m: "0 < ?m" using cn by simp
    obtain r where r: "int i mod ?m = int r" "int r < ?m" using mod_index [OF m] by blast
    have "churn_pick (int N) cn i = Inr (int r + cn + 1)"
      using m r by (simp add: churn_pick_def go_rem_def bind_sum_def smod_eq_mod Let_def)
    then show ?thesis using r(2) cn by (intro exI [of _ "r + nat cn + 1"]) auto
  qed
  ultimately show ?thesis using run_requests_ok [where S = ?S, OF _ _ _ assms(2,4)] by fastforce
qed

lemma plain_requests_ok:
  assumes "3 \<le> N" and "\<forall>f. be_link env f 0" and "\<And>S. cluster_ok (be_os env) cids S N cl"
  shows "\<exists>r s. run_requests env (\<lambda>i cl. cl) (round_robin (int N - 1)) cids requests cl = Inr (r, s) \<and> bs_errors s = 0"
proof -
  have "\<exists>f. round_robin (int N - 1) i = Inr (int f) \<and> f < N \<and> f \<notin> {}" for i
  proof -
    have m: "0 < int N - 1" using assms(1) by simp
    obtain r where "int i mod (int N - 1) = int r" "int r < int N - 1" using mod_index [OF m] by blast
    then show ?thesis using m by (intro exI [of _ "Suc r"]) (auto simp: round_robin_pos)
  qed
  then show ?thesis using run_requests_ok [where S = "{}" and N = N and fault = "\<lambda>i cl. cl", OF _ _ _ assms(2,3)] by blast
qed

section \<open>Properties\<close>

text \<open>
  C37. The fault scenarios do not measure their faults. With at least three nodes, a publisher whose disk
  works and links that are up, the node-kill, the churn and the data-loss scenario all report no error
  and full availability, whatever blocks are lost and however many nodes are closed: every request goes
  to the publisher, from a host that is never closed.
\<close>

theorem faults_not_measured:
  assumes "3 \<le> N" and "0 < requests" and "0 < contentSize" and "contentSize < 2 ^ 32"
    and "\<forall>p. os_write (be_os env) p = WriteOk" and "\<forall>p. \<not> os_read_fails (be_os env) p" and "\<forall>m. be_marshal env m \<noteq> None"
    and "\<forall>f. be_link env f 0"
    and "createBenchCluster env (scenario_config (int N) contentSize requests chunkSize) = Inr cl"
  shows "(\<exists>r. runNodeKillScenario env (int N) contentSize requests chunkSize = Inr (r, 1, 0))
    \<and> (\<exists>r. runChurnScenario env (int N) contentSize requests chunkSize = Inr (r, 1, 0))
    \<and> (\<exists>r. runDataLossScenario env (int N) contentSize requests chunkSize = Inr (r, 1, 0))"
proof -
  let ?os = "be_os env" let ?data = "map (be_rand env) [0..<nat contentSize]"
  have data: "generateTestData env contentSize = Inr ?data" "length ?data < 2 ^ 32" "?data \<noteq> []"
    using assms(3,4) by (simp_all add: generateTestData_def)
  have N: "NodeCount (scenario_config (int N) contentSize requests chunkSize) = int N" "0 < N" using assms(1) by (simp_all add: scenario_config_def)
  obtain bs m cl1 cl2 where pub: "publishContent env cl 0 ?data chunkSize = Inr (Inr (bs, m), cl1)" "ChunkCIDs m \<noteq> []"
      "publish_twice env cl ?data chunkSize = Inr (bs, m, cl2)"
      "\<And>S. cluster_ok ?os (ChunkCIDs m) S N cl1" "\<And>S. cluster_ok ?os (ChunkCIDs m) S N cl2"
    using published_cluster [OF assms(5-7) data(2,3) assms(9) N, of chunkSize] by blast
  let ?cids = "ChunkCIDs m"
  have rep: "\<exists>cl'. over_nodes (replicate_to ?os bs) (int N) c = Inr cl' \<and> (\<forall>S. cluster_ok ?os ?cids S N cl')"
    if "\<And>S. cluster_ok ?os ?cids S N c" for c
    by (rule over_nodes_all_ok [OF replicate_to_ok that])
  have lose: "\<exists>cl'. over_nodes (lose_blocks env bs) (int N) c = Inr cl' \<and> (\<forall>S. cluster_ok ?os ?cids S N cl')"
    if "\<And>S. cluster_ok ?os ?cids S N c" for c
    by (rule over_nodes_all_ok [OF lose_blocks_ok that])
  obtain c1 where c1: "over_nodes (replicate_to ?os bs) (int N) cl1 = Inr c1" "\<And>S. cluster_ok ?os ?cids S N c1" using rep [OF pub(4)] by blast
  obtain c2 where c2: "over_nodes (replicate_to ?os bs) (int N) cl2 = Inr c2" "\<And>S. cluster_ok ?os ?cids S N c2" using rep [OF pub(5)] by blast
  obtain c3 where c3: "over_nodes (lose_blocks env bs) (int N) c1 = Inr c3" "\<And>S. cluster_ok ?os ?cids S N c3"
    using lose [OF c1(2)] by blast
  have ops: "0 < requests * int (length ?cids)" using assms(2) pub(2) by simp
  note unf = bind_sum_def panics_def Let_def assms(9) data(1) pub(1,3) c1(1) c2(1) c3(1)
  have "\<exists>r. runNodeKillScenario env (int N) contentSize requests chunkSize = Inr (r, 1, 0)"
    using kill_requests_ok [OF assms(1,8) refl c2(2), of "requests sdiv 2" requests] ops assms(2)
    by (auto simp: runNodeKillScenario_def unf)
  moreover have "\<exists>r. runChurnScenario env (int N) contentSize requests chunkSize = Inr (r, 1, 0)"
    using churn_requests_ok [OF assms(1,8) refl c2(2), of requests] by (auto simp: runChurnScenario_def unf)
  moreover have "\<exists>r. runDataLossScenario env (int N) contentSize requests chunkSize = Inr (r, 1, 0)"
    using plain_requests_ok [OF assms(1,8) c3(2), of requests] ops by (auto simp: runDataLossScenario_def unf)
  ultimately show ?thesis by blast
qed

definition wit_id :: "PrivKey \<Rightarrow> peer_id" where
  "wit_id k = ''node-id-'' @ string_of_bytes k"

definition wit_start :: "PrivKey \<Rightarrow> start_env" where
  "wit_start g =
     \<lparr>se_host = \<lparr>he_crypto = \<lparr>UnmarshalPrivateKey = Some, GenerateEd25519Key = Some g, MarshalPrivateKey = Some\<rparr>,
        he_rcmgr = True, he_new = (\<lambda>opts. case opts of Identity k # _ \<Rightarrow> Some (wit_id k) | _ \<Rightarrow> None)\<rparr>,
      se_os = os_ok, se_unmarshal = (\<lambda>_. None), se_addrs = \<lparr>NewMultiaddr = (\<lambda>_. None), AddrInfoFromP2pAddr = (\<lambda>_. None)\<rparr>,
      se_dht = \<lparr>dht_New = True, dht_Bootstrap = True, host_Connect = (\<lambda>_. True)\<rparr>, se_mdns = True\<rparr>"

definition wit_bench_env :: bench_env where
  "wit_bench_env = \<lparr>be_cluster = \<lparr>ce_port = 12000, ce_tmp = (\<lambda>_. Some ''d''), ce_start = (\<lambda>_. wit_start [1])\<rparr>, be_os = os_ok,
     be_marshal = (\<lambda>_. Some []), be_rand = (\<lambda>i. of_nat i), be_link = (\<lambda>_ _. True), be_elapsed_req = (\<lambda>_. 1), be_stamp = (\<lambda>_. 1),
     be_duration = 1, be_zipf = (\<lambda>_. 0), be_loss = (\<lambda>_ _. 0), be_since_start = 1\<rparr>"

lemma wit_policy_name: "ToLower ''epsilon-greedy'' = ''epsilon-greedy''"
  by code_simp

lemma wit_start_ok:
  assumes "PathPolicy cfg = ''epsilon-greedy''" and "BootstrapPeers cfg = []"
  shows "\<exists>n. Start (wit_start k) (New cfg fs) = (None, n) \<and> (fs (path_Join [DataDir cfg, keyFileName]) = None \<longrightarrow> Host n = Some (wit_id k))"
  using assms wit_policy_name
  by (simp add: Start_def wit_start_def New_def Let_def NewStore_def os_ok_def NewManager_def PolicyFromNameWithEpsilon_def
      NewHost_def loadOrGenerateKey_def os_ReadFile_def os_WriteFile_def SetupDHT_def host_options_def host_config_def split: option.split)

lemma wit_cluster: "\<exists>cl. createBenchCluster wit_bench_env (scenario_config (int 3) 1 1 0) = Inr cl"
proof -
  let ?opts = "\<lparr>co_Policy = ''epsilon-greedy'', co_Epsilon = 1 / 10, DisableMDNS = True, co_ProbeInterval = 3 * Second,
          DisableCache = False, DisableBloom = False\<rparr>"
  have "\<exists>cl'. start_nodes (be_cluster wit_bench_env) ?opts k i cl = Some cl'" for k i cl
  proof (induction k arbitrary: i cl)
    case (Suc k)
    obtain n where "Start (wit_start [1]) (New (clusterConfigWithOptions (12000 + int i) ''d'' ?opts) (\<lambda>_. None)) = (None, n)"
      using wit_start_ok [of "clusterConfigWithOptions (12000 + int i) ''d'' ?opts" "[1]"] by (auto simp: clusterConfigWithOptions_def)
    then show ?case using Suc by (simp add: wit_bench_env_def)
  qed simp
  then show ?thesis
    by (fastforce simp: createBenchCluster_def NewClusterWithOptions_def scenario_config_def panics_def bind_sum_def split: option.split)
qed

theorem faults_not_measured_witness:
  "(\<exists>r. runNodeKillScenario wit_bench_env 3 1 1 0 = Inr (r, 1, 0)) \<and> (\<exists>r. runDataLossScenario wit_bench_env 3 1 1 0 = Inr (r, 1, 0))"
proof -
  obtain cl where cl: "createBenchCluster wit_bench_env (scenario_config (int 3) 1 1 0) = Inr cl" using wit_cluster by blast
  show ?thesis
    using faults_not_measured [OF _ _ _ _ _ _ _ _ cl] by (simp add: wit_bench_env_def os_ok_def)
qed

end
