(* ===== verification/Bench_Output.thy ===== *)
theory Bench_Output
  imports Bench
begin

text \<open>
  The output of the benchmarks: the CSV files of the studies (\<^verbatim>\<open>internal/bench/bench.go\<close>) and the \<^verbatim>\<open>bench\<close>
  command with its tables (\<^verbatim>\<open>cmd/bench.go\<close>). The JSON encoding of the results is an argument, and so is what the
  file system does with each output file; creating the directory of the time series, whose error the
  command ignores, shows only there.
\<close>

section \<open>The files\<close>

definition comparison_header :: "string list" where
  "comparison_header = [''policy'', ''epsilon'', ''node_count'', ''avg_latency_ms'', ''p50_latency_ms'', ''p95_latency_ms'', ''p99_latency_ms'',
     ''throughput_mbs'', ''cache_hit_ratio'', ''availability'', ''fairness_index'', ''stddev_latency_ms'', ''ci95_lower'', ''ci95_upper'']"

definition comparison_row :: "ComparisonEntry \<Rightarrow> string list" where
  "comparison_row e =
     [cmp_Policy e, fmt_fixed 2 (cmp_Epsilon e), int_digits (cmp_NodeCount e), fmt_fixed 2 (cmp_AvgLatencyMs e), fmt_fixed 2 (cmp_P50LatencyMs e),
      fmt_fixed 2 (cmp_P95LatencyMs e), fmt_fixed 2 (cmp_P99LatencyMs e), fmt_fixed 4 (cmp_ThroughputMBs e), fmt_fixed 4 (cmp_CacheHitRatio e),
      fmt_fixed 4 (cmp_Availability e), fmt_fixed 4 (cmp_FairnessIndex e), fmt_fixed 2 (cmp_StddevLatMs e), fmt_fixed 2 (cmp_CI95Lower e),
      fmt_fixed 2 (cmp_CI95Upper e)]"

definition ablation_header :: "string list" where
  "ablation_header = [''configuration'', ''avg_latency_ms'', ''p95_latency_ms'', ''throughput_mbs'', ''cache_hit_ratio'', ''availability'',
     ''fairness_index'', ''stddev_latency_ms'', ''delta_avg_pct'', ''ci95_lower'', ''ci95_upper'']"

definition ablation_row :: "AblationEntry \<Rightarrow> string list" where
  "ablation_row e =
     [ab_Configuration e, fmt_fixed 2 (ab_AvgLatencyMs e), fmt_fixed 2 (ab_P95LatencyMs e), fmt_fixed 4 (ab_ThroughputMBs e),
      fmt_fixed 4 (ab_CacheHitRatio e), fmt_fixed 4 (ab_Availability e), fmt_fixed 4 (ab_FairnessIndex e), fmt_fixed 2 (ab_StddevLatMs e),
      fmt_fixed 1 (ab_DeltaAvgPct e), fmt_fixed 2 (ab_CI95Lower e), fmt_fixed 2 (ab_CI95Upper e)]"

definition fault_header :: "string list" where
  "fault_header = [''scenario'', ''avg_latency_ms'', ''p95_latency_ms'', ''availability'', ''error_count'', ''stddev_latency_ms'',
     ''delta_avg_pct'', ''ci95_lower'', ''ci95_upper'']"

definition fault_row :: "FaultInjectionEntry \<Rightarrow> string list" where
  "fault_row e =
     [fi_Scenario e, fmt_fixed 2 (fi_AvgLatencyMs e), fmt_fixed 2 (fi_P95LatencyMs e), fmt_fixed 4 (fi_Availability e),
      int_digits (fi_ErrorCount e), fmt_fixed 2 (fi_StddevLatMs e), fmt_fixed 1 (fi_DeltaAvgPct e), fmt_fixed 2 (fi_CI95Lower e),
      fmt_fixed 2 (fi_CI95Upper e)]"

definition ComparisonResult_WriteCSV :: "out_files \<Rightarrow> path \<Rightarrow> ComparisonEntry list \<Rightarrow> file_system \<Rightarrow> bool \<times> file_system" where
  "ComparisonResult_WriteCSV out p es fs = write_rows (of_create_fails out p) (of_limit out p) p (comparison_header # map comparison_row es) fs"

definition AblationResult_WriteCSV :: "out_files \<Rightarrow> path \<Rightarrow> AblationEntry list \<Rightarrow> file_system \<Rightarrow> bool \<times> file_system" where
  "AblationResult_WriteCSV out p es fs = write_rows (of_create_fails out p) (of_limit out p) p (ablation_header # map ablation_row es) fs"

definition FaultInjectionResult_WriteCSV :: "out_files \<Rightarrow> path \<Rightarrow> FaultInjectionEntry list \<Rightarrow> file_system \<Rightarrow> bool \<times> file_system" where
  "FaultInjectionResult_WriteCSV out p es fs = write_rows (of_create_fails out p) (of_limit out p) p (fault_header # map fault_row es) fs"

text \<open>\<^verbatim>\<open>WriteJSON\<close> of every kind of result: \<open>data\<close> is the encoding, \<open>None\<close> its error.\<close>

definition WriteJSON :: "os \<Rightarrow> path \<Rightarrow> bytes option \<Rightarrow> file_system \<Rightarrow> bool \<times> file_system" where
  "WriteJSON os p data fs = (case data of None \<Rightarrow> (False, fs) | Some d \<Rightarrow> os_WriteFile os p d fs)"

section \<open>The bench command\<close>

record bench_flags =
  bf_nodes :: int
  bf_contentSize :: int
  bf_requests :: int
  bf_chunkSize :: int
  bf_policy :: string
  bf_epsilon :: real
  bf_experiment :: string
  bf_outputJSON :: string
  bf_outputCSV :: string
  bf_runs :: int
  bf_timeSeriesDir :: string

datatype bench_cmd_error = BenchmarkFailed bench_error | WriteCSVFailed | WriteJSONFailed | UnknownExperiment string

text \<open>What the output files meet, and the JSON encoders of the results.\<close>

record out_env =
  oe_os :: os
  oe_files :: out_files
  oe_json_run :: "bench_results \<Rightarrow> bytes option"
  oe_json_comparison :: "ComparisonEntry list \<Rightarrow> bytes option"
  oe_json_ablation :: "AblationEntry list \<Rightarrow> bytes option"
  oe_json_fault :: "FaultInjectionEntry list \<Rightarrow> bytes option"

text \<open>A command ends with an error or without, and leaves what it printed and the files.\<close>

type_synonym cmd_outcome = "bench_cmd_error option \<times> string \<times> file_system"

definition save_json :: "out_env \<Rightarrow> path \<Rightarrow> string \<Rightarrow> bytes option \<Rightarrow> string \<Rightarrow> file_system \<Rightarrow> cmd_outcome" where
  "save_json oe p msg data t fs =
     (if p = [] then (None, t, fs)
      else case WriteJSON (oe_os oe) p data fs of
        (False, fs') \<Rightarrow> (Some WriteJSONFailed, t, fs')
      | (True, fs') \<Rightarrow> (None, t @ msg @ p @ newline, fs'))"

text \<open>Both files, as the studies write them: \<open>csv\<close> writes the table.\<close>

definition save_results ::
  "out_env \<Rightarrow> bench_flags \<Rightarrow> (path \<Rightarrow> file_system \<Rightarrow> bool \<times> file_system) \<Rightarrow> bytes option \<Rightarrow> string \<Rightarrow> file_system \<Rightarrow> cmd_outcome" where
  "save_results oe fl csv data t fs =
     (let p = bf_outputCSV fl; json = save_json oe (bf_outputJSON fl) ''JSON results written to '' data in
      if p = [] then json t fs
      else case csv p fs of
        (False, fs') \<Rightarrow> (Some WriteCSVFailed, t, fs')
      | (True, fs') \<Rightarrow> json (t @ newline @ ''CSV results written to '' @ p @ newline) fs')"

definition table_rule :: "nat \<Rightarrow> string" where
  "table_rule k = replicate k (CHR ''-'') @ newline"

definition comparison_line :: "ComparisonEntry \<Rightarrow> string" where
  "comparison_line e =
     pad_right 16 (cmp_Policy e) @ '' '' @ pad_left 5 (int_digits (cmp_NodeCount e)) @ '' '' @ pad_left 8 (fmt_fixed 1 (cmp_AvgLatencyMs e))
     @ '' '' @ pad_left 8 (fmt_fixed 1 (cmp_P50LatencyMs e)) @ '' '' @ pad_left 8 (fmt_fixed 1 (cmp_P95LatencyMs e))
     @ '' '' @ pad_left 8 (fmt_fixed 1 (cmp_P99LatencyMs e)) @ '' '' @ pad_left 10 (fmt_fixed 2 (cmp_ThroughputMBs e))
     @ '' '' @ pad_left 7 (fmt_fixed 1 (cmp_CacheHitRatio e * 100)) @ ''% '' @ pad_left 7 (fmt_fixed 1 (cmp_Availability e * 100)) @ ''%'' @ newline"

definition printComparisonTable :: "ComparisonEntry list \<Rightarrow> string" where
  "printComparisonTable es =
     newline @ ''=== Comparison Results ==='' @ newline
     @ pad_right 16 ''Policy'' @ '' '' @ pad_left 5 ''Nodes'' @ '' '' @ pad_left 8 ''Avg(ms)'' @ '' '' @ pad_left 8 ''P50(ms)'' @ '' ''
     @ pad_left 8 ''P95(ms)'' @ '' '' @ pad_left 8 ''P99(ms)'' @ '' '' @ pad_left 10 ''MB/s'' @ '' '' @ pad_left 8 ''Cache%'' @ '' ''
     @ pad_left 8 ''Avail%'' @ newline @ table_rule 90 @ concat (map comparison_line es)"

definition runCompareBench ::
  "(nat \<Rightarrow> nat \<Rightarrow> nat \<Rightarrow> bench_env) \<Rightarrow> out_env \<Rightarrow> bench_flags \<Rightarrow> file_system \<Rightarrow> go_panic + cmd_outcome" where
  "runCompareBench env oe fl fs =
     bind_sum (RunComparisonWithRuns (oe_files oe) env (bf_nodes fl) (bf_contentSize fl) (bf_requests fl) (bf_chunkSize fl) (bf_runs fl)
         (bf_timeSeriesDir fl) fs) (\<lambda>(es, fs').
       Inr (save_results oe fl (\<lambda>p. ComparisonResult_WriteCSV (oe_files oe) p es) (oe_json_comparison oe es) (printComparisonTable es) fs'))"

definition runScalabilityBench ::
  "(nat \<Rightarrow> nat \<Rightarrow> nat \<Rightarrow> nat \<Rightarrow> bench_env) \<Rightarrow> out_env \<Rightarrow> bench_flags \<Rightarrow> file_system \<Rightarrow> go_panic + cmd_outcome" where
  "runScalabilityBench env oe fl fs =
     bind_sum (RunScalability (oe_files oe) env 0 [5, 10, 25] (bf_contentSize fl) (bf_requests fl) (bf_chunkSize fl) (bf_runs fl)
         (bf_timeSeriesDir fl) [] fs) (\<lambda>(es, fs').
       Inr (save_results oe fl (\<lambda>p. ComparisonResult_WriteCSV (oe_files oe) p es) (oe_json_comparison oe es) (printComparisonTable es) fs'))"

text \<open>The verb \<^verbatim>\<open>%+8.1f\<close> always prints a sign.\<close>

definition signed_fixed :: "nat \<Rightarrow> real \<Rightarrow> string" where
  "signed_fixed prec x = (if x < 0 then [] else ''+'') @ fmt_fixed prec x"

definition utf8 :: "nat list \<Rightarrow> string" where
  "utf8 bs = map char_of bs"

definition ablation_line :: "AblationEntry \<Rightarrow> string" where
  "ablation_line e =
     pad_right 28 (ab_Configuration e) @ '' '' @ pad_left 8 (fmt_fixed 2 (ab_AvgLatencyMs e)) @ '' '' @ pad_left 8 (fmt_fixed 2 (ab_StddevLatMs e))
     @ '' '' @ pad_left 8 (fmt_fixed 2 (ab_P95LatencyMs e)) @ '' '' @ pad_left 7 (fmt_fixed 1 (ab_CacheHitRatio e * 100)) @ ''% ''
     @ pad_left 8 (signed_fixed 1 (ab_DeltaAvgPct e)) @ ''% ['' @ fmt_fixed 2 (ab_CI95Lower e) @ '','' @ fmt_fixed 2 (ab_CI95Upper e) @ '']'' @ newline"

definition runAblationBench ::
  "(nat \<Rightarrow> nat \<Rightarrow> bench_env) \<Rightarrow> out_env \<Rightarrow> bench_flags \<Rightarrow> file_system \<Rightarrow> go_panic + cmd_outcome" where
  "runAblationBench env oe fl fs =
     (let nruns = (if bf_runs fl < 3 then 10 else bf_runs fl) in
      bind_sum (RunAblation env (bf_nodes fl) (bf_contentSize fl) (bf_requests fl) (bf_chunkSize fl) nruns) (\<lambda>es.
        let t = newline @ ''=== Ablation Study ==='' @ newline @ pad_right 28 ''Configuration'' @ '' '' @ pad_left 8 ''Avg(ms)'' @ '' ''
              @ pad_left 8 (utf8 [0xC2, 0xB1, 0xCF, 0x83]) @ '' '' @ pad_left 8 ''P95(ms)'' @ '' '' @ pad_left 8 ''Cache%'' @ '' ''
              @ pad_left 8 (utf8 [0xCE, 0x94] @ '' Avg%'') @ '' '' @ pad_left 10 ''95% CI'' @ newline @ table_rule 90 @ concat (map ablation_line es)
        in Inr (save_results oe fl (\<lambda>p. AblationResult_WriteCSV (oe_files oe) p es) (oe_json_ablation oe es) t fs)))"

definition fault_line :: "FaultInjectionEntry \<Rightarrow> string" where
  "fault_line e =
     pad_right 30 (fi_Scenario e) @ '' '' @ pad_left 8 (fmt_fixed 2 (fi_AvgLatencyMs e)) @ '' '' @ pad_left 8 (fmt_fixed 2 (fi_StddevLatMs e))
     @ '' '' @ pad_left 8 (fmt_fixed 2 (fi_P95LatencyMs e)) @ '' '' @ pad_left 8 (int_digits (fi_ErrorCount e)) @ '' ''
     @ pad_left 9 (signed_fixed 1 (fi_DeltaAvgPct e)) @ ''%'' @ newline"

definition runFaultInjectionBench ::
  "(nat \<Rightarrow> nat \<Rightarrow> bench_env) \<Rightarrow> out_env \<Rightarrow> bench_flags \<Rightarrow> file_system \<Rightarrow> go_panic + cmd_outcome" where
  "runFaultInjectionBench env oe fl fs =
     (let nruns = (if bf_runs fl < 3 then 10 else bf_runs fl) in
      bind_sum (RunFaultInjection env (bf_nodes fl) (bf_contentSize fl) (bf_requests fl) (bf_chunkSize fl) nruns) (\<lambda>es.
        let t = newline @ ''=== Fault Injection Results ==='' @ newline @ pad_right 30 ''Scenario'' @ '' '' @ pad_left 8 ''Avg(ms)'' @ '' ''
              @ pad_left 8 (utf8 [0xC2, 0xB1, 0xCF, 0x83]) @ '' '' @ pad_left 8 ''P95(ms)'' @ '' '' @ pad_left 8 ''Errors'' @ '' ''
              @ pad_left 10 (utf8 [0xCE, 0x94] @ '' Avg%'') @ newline @ table_rule 82 @ concat (map fault_line es)
        in Inr (save_results oe fl (\<lambda>p. FaultInjectionResult_WriteCSV (oe_files oe) p es) (oe_json_fault oe es) t fs)))"

definition single_text :: "bench_results \<Rightarrow> string" where
  "single_text r =
     (let cfg = res_Config r; l = res_Latency r; z = res_Resilience r in
      newline @ ''=== Benchmark Results ==='' @ newline @ ''Policy:     '' @ bc_Policy cfg @ newline
      @ ''Nodes:      '' @ int_digits (NodeCount cfg) @ newline @ ''Duration:   '' @ TotalDuration r @ newline
      @ newline @ ''Latency:'' @ newline @ ''  Avg:  '' @ fmt_fixed 1 (lr_AvgLatencyMs l) @ '' ms'' @ newline
      @ ''  P50:  '' @ fmt_fixed 1 (lr_P50LatencyMs l) @ '' ms'' @ newline @ ''  P95:  '' @ fmt_fixed 1 (lr_P95LatencyMs l) @ '' ms'' @ newline
      @ ''  P99:  '' @ fmt_fixed 1 (lr_P99LatencyMs l) @ '' ms'' @ newline @ ''  Throughput: '' @ fmt_fixed 2 (lr_ThroughputMBs l) @ '' MB/s'' @ newline
      @ newline @ ''Cache:'' @ newline @ ''  Hit Ratio: '' @ fmt_fixed 1 (HitRatio (res_CacheComparison r) * 100) @ ''%'' @ newline
      @ newline @ ''Resilience:'' @ newline @ ''  Availability: '' @ fmt_fixed 1 (Availability z * 100) @ ''% ('' @ nat_digits (AvailableBlocks z)
      @ ''/'' @ nat_digits (TotalBlocks z) @ '' blocks, '' @ nat_digits (NodesKilled z) @ '' nodes killed)'' @ newline)"

definition runSingleBench :: "(nat \<Rightarrow> bench_env) \<Rightarrow> out_env \<Rightarrow> bench_flags \<Rightarrow> file_system \<Rightarrow> go_panic + cmd_outcome" where
  "runSingleBench env oe fl fs =
     (case Run (oe_files oe) env \<lparr>NodeCount = bf_nodes fl, ContentSize = bf_contentSize fl, Requests = bf_requests fl, bc_ChunkSize = bf_chunkSize fl,
             bc_Policy = bf_policy fl, bc_Epsilon = bf_epsilon fl, bc_TimeSeriesDir = bf_timeSeriesDir fl\<rparr> fs of
        (Inl (Panic p), fs') \<Rightarrow> Inl p
      | (Inl (Failed e), fs') \<Rightarrow> Inr (Some (BenchmarkFailed e), [], fs')
      | (Inr r, fs') \<Rightarrow>
          Inr (save_json oe (bf_outputJSON fl) (newline @ ''Results written to '') (oe_json_run oe r) (single_text r) fs'))"

text \<open>\<open>env j i r k\<close> is what the benchmarks meet: \<open>j\<close> counts node counts, \<open>i\<close> configurations, \<open>r\<close> runs.\<close>

definition runBench ::
  "(nat \<Rightarrow> nat \<Rightarrow> nat \<Rightarrow> nat \<Rightarrow> bench_env) \<Rightarrow> out_env \<Rightarrow> bench_flags \<Rightarrow> file_system \<Rightarrow> go_panic + cmd_outcome" where
  "runBench env oe fl fs =
     (let x = ToLower (bf_experiment fl) in
      if x = ''single'' then runSingleBench (env 0 0 0) oe fl fs
      else if x = ''compare'' then runCompareBench (env 0) oe fl fs
      else if x = ''scalability'' then runScalabilityBench env oe fl fs
      else if x = ''ablation'' then runAblationBench (\<lambda>i r. env 0 i r 0) oe fl fs
      else if x = ''fault'' \<or> x = ''fault-injection'' then runFaultInjectionBench (\<lambda>i r. env 0 i r 0) oe fl fs
      else Inr (Some (UnknownExperiment (bf_experiment fl)), [], fs))"

section \<open>Reading a decimal\<close>

definition read_fixed :: "string \<Rightarrow> real option" where
  "read_fixed s =
     (let neg = (s \<noteq> [] \<and> hd s = CHR ''-''); u = (if neg then tl s else s);
          w = takeWhile (\<lambda>c. c \<noteq> CHR ''.'') u; f = tl (dropWhile (\<lambda>c. c \<noteq> CHR ''.'') u)
      in case (digits_value 0 w, digits_value 0 f) of
           (Some a, Some b) \<Rightarrow> (let v = real a + real b / 10 ^ length f in Some (if neg then - v else v))
         | _ \<Rightarrow> None)"

lemma nat_digits_codes: "c \<in> set (nat_digits n) \<Longrightarrow> 48 \<le> (of_char c :: nat)"
proof (induction n rule: nat_digits.induct)
  case (1 n)
  then show ?case by (subst (asm) nat_digits.simps) (auto split: if_splits)
qed

lemma nat_digits_nonempty: "nat_digits n \<noteq> []"
  by (subst nat_digits.simps) simp

lemma read_fmt_fixed:
  assumes "0 < prec"
  shows "\<exists>v. read_fixed (fmt_fixed prec x) = Some v \<and> \<bar>v - x\<bar> \<le> 1 / (2 * 10 ^ prec)"
proof -
  define r where "r = round_half_even (\<bar>x\<bar> * 10 ^ prec)"
  define v where "v = nat r"
  have close: "\<bar>\<bar>x\<bar> * 10 ^ prec - of_int r\<bar> \<le> 1 / 2" unfolding r_def by (rule round_half_even_close)
  have "0 \<le> \<bar>x\<bar> * 10 ^ prec" by simp
  with close have "- 1 < (of_int r :: real)" by linarith
  then have "0 \<le> r" by linarith
  then have rv: "of_int r = real v" by (simp add: v_def)
  let ?w = "nat_digits (v div 10 ^ prec)" let ?f = "pad_digits prec (v mod 10 ^ prec)"
  have nd: "CHR ''.'' \<notin> set ?w" "CHR ''-'' \<notin> set ?w"
    using nat_digits_codes [of "CHR ''.''" "v div 10 ^ prec"] nat_digits_codes [of "CHR ''-''" "v div 10 ^ prec"] by auto
  have hd: "hd (?w @ t) \<noteq> CHR ''-''" for t using nd(2) nat_digits_nonempty [of "v div 10 ^ prec"] by (cases ?w) auto
  have tw: "takeWhile (\<lambda>c. c \<noteq> CHR ''.'') (?w @ CHR ''.'' # ?f) = ?w" "tl (dropWhile (\<lambda>c. c \<noteq> CHR ''.'') (?w @ CHR ''.'' # ?f)) = ?f"
    using nd(1) by (simp_all add: takeWhile_append dropWhile_append)
  have fd: "digits_value 0 ?f = Some (v mod 10 ^ prec)" using digits_value_pad_digits [of "v mod 10 ^ prec" prec 0] by simp
  have val: "real (v div 10 ^ prec) + real (v mod 10 ^ prec) / 10 ^ prec = real v / 10 ^ prec"
  proof -
    define q m where "q = v div 10 ^ prec" and "m = v mod 10 ^ prec"
    then have "v = q * 10 ^ prec + m" by (simp only: div_mult_mod_eq)
    then have "real v = real q * 10 ^ prec + real m" by simp
    then have "real q + real m / 10 ^ prec = real v / 10 ^ prec" by (simp add: field_simps)
    then show ?thesis by (simp add: q_def m_def)
  qed
  have fmt: "fmt_fixed prec x = (if x < 0 then ''-'' else []) @ ?w @ CHR ''.'' # ?f"
    using assms by (simp add: fmt_fixed_def Let_def v_def r_def)
  have "read_fixed (fmt_fixed prec x) = Some (if x < 0 then - (real v / 10 ^ prec) else real v / 10 ^ prec)"
    using hd tw fd val nat_digits_nonempty [of "v div 10 ^ prec"] by (auto simp: read_fixed_def fmt Let_def digits_value_nat_digits)
  moreover have "\<bar>real v / 10 ^ prec - \<bar>x\<bar>\<bar> \<le> 1 / (2 * 10 ^ prec)"
  proof -
    have "real v / 10 ^ prec - \<bar>x\<bar> = (real v - \<bar>x\<bar> * 10 ^ prec) / 10 ^ prec" by (simp add: field_simps)
    then show ?thesis using close rv by (simp add: abs_divide field_simps abs_minus_commute)
  qed
  ultimately show ?thesis by (auto simp: abs_if split: if_splits)
qed

section \<open>The files determine the tables\<close>

text \<open>A disk that takes every file, and one that creates files but takes no bytes.\<close>

definition good_disk :: out_files where
  "good_disk = \<lparr>of_create_fails = (\<lambda>_. False), of_limit = (\<lambda>_. None)\<rparr>"

definition full_disk :: out_files where
  "full_disk = \<lparr>of_create_fails = (\<lambda>_. False), of_limit = (\<lambda>_. Some 0)\<rparr>"


end
