(* ===== verification/Spec2Isabelle.thy ===== *)
theory Spec2Isabelle
  imports Signing Node_Safety Background Metrics CLI Bench_Output
begin

text \<open>
  A verification development of the path-aware libp2p content node: a peer-to-peer program in Go that
  stores files as content-addressed blocks, serves them to other peers, measures the paths to its peers
  and chooses among them.

  \<^bold>\<open>The program and the theories.\<close> A node publishes a file by cutting it into blocks (\<open>Chunker\<close>,
  \<^verbatim>\<open>internal/content/chunker.go\<close>), writing them and a manifest to its store (\<open>Store\<close>, \<^verbatim>\<open>store.go\<close>) and
  signing the manifest (\<open>Signing\<close>, \<^verbatim>\<open>signing.go\<close>). Blocks travel by two stream protocols
  (\<open>Block_Transfer\<close>, \<^verbatim>\<open>internal/protocol/blocktransfer.go\<close>) through a cache in memory (\<open>LRU_Cache\<close> and its
  abstract specification \<open>LRU_Spec\<close>, \<^verbatim>\<open>internal/cache/lru.go\<close>); what a cache holds is announced as a Bloom
  filter (\<open>Bloom\<close>, \<^verbatim>\<open>bloom.go\<close>; \<open>Cache_Summary\<close>, \<^verbatim>\<open>internal/protocol/cachesummary.go\<close>). Popular blocks are
  counted (\<open>Replication\<close>, \<^verbatim>\<open>replication.go\<close>), found through the DHT (\<open>Routing\<close>, \<^verbatim>\<open>routing.go\<close>) and pushed to
  peers whole or as erasure-coded fragments (\<open>Erasure\<close>, \<^verbatim>\<open>internal/erasure/erasure.go\<close>; \<open>Node\<close>,
  \<^verbatim>\<open>internal/node/node.go\<close>, \<^verbatim>\<open>config.go\<close>). Paths are probed (\<open>Probing\<close>, \<^verbatim>\<open>ping.go\<close>, \<^verbatim>\<open>probe.go\<close>), their metrics
  kept (\<open>Path_Metrics\<close>, \<^verbatim>\<open>internal/pathpolicy/path.go\<close>) and selected by one of several policies
  (\<open>Policies\<close>, \<^verbatim>\<open>policy.go\<close>) under a manager (\<open>Path_Manager\<close>, \<^verbatim>\<open>manager.go\<close>). Fetching a block ranks the
  providers by path and summary (\<open>Providers\<close>), and the HTTP interface offers all this to users (\<open>API\<close> for
  publishing and fetching, \<open>Handlers\<close> for the rest, \<open>Server\<close> for the routes and the dispatch of a request;
  \<^verbatim>\<open>internal/node/api.go\<close>). \<open>Streams\<close> dispatches incoming streams by protocol identifier
  (\<^verbatim>\<open>internal/protocol/ids.go\<close>), \<open>Background\<close> runs the three ticker loops, \<open>Network\<close> puts the handlers
  and rounds of a node together as a step relation, and \<open>Node_Safety\<close> shows that no step meets a nil field.
  \<open>Metrics\<close> (\<^verbatim>\<open>internal/metrics\<close>) is the registration of the metrics and their server. \<open>Transport\<close> (\<^verbatim>\<open>internal/transport\<close>) gives the node its key, its
  host options, the bootstrap peers and the relay addresses. \<open>CLI\<close> (\<^verbatim>\<open>cmd\<close>) is the command line: the commands build
  the request URL, send it to the handlers and print or store the reply. \<open>Bench_Stats\<close>, \<open>Bench\<close> and
  \<open>Bench_Output\<close> are the evaluation harness (\<^verbatim>\<open>internal/bench/bench.go\<close>, \<^verbatim>\<open>cmd/bench.go\<close>) on clusters of nodes
  (\<^verbatim>\<open>testutil/cluster.go\<close>). \<open>Prelude\<close>, \<open>Go_Hash\<close>, \<open>Go_Path\<close>, \<open>Go_Sort\<close>, \<open>Go_Format\<close> and \<open>CSV\<close> hold what the source
  uses of Go and its standard library, SHA-256 included, and \<open>Interfaces\<close> the contracts between the components
  that hold blocks, as locales that the components interpret.

  \<^bold>\<open>How code becomes definitions.\<close> A struct is a record, an operation a function from the old state to
  the result and the new state; errors are values of one datatype per component and run-time panics are
  \<open>go_panic\<close>. Machine integers are words where their width matters (lengths on the wire, counters, filter
  sizes) and \<open>int\<close> elsewhere; \<^verbatim>\<open>float64\<close> values are reals, so rounding, infinities and not-a-number are
  outside the model. A file system is a map from cleaned paths to bytes. A stream is the list of bytes one
  side sends. Go maps are finite maps; where the source ranges over one, the order is an argument of which
  only the theorems that need it assume that it lists the keys. Peer identifiers are their text.

  \<^bold>\<open>What is an argument.\<close> Code outside the repository is a parameter: the outcome of each system call, JSON
  coding, the Ed25519 and Reed-Solomon libraries, the DHT, the matrix operations and random draws of the
  policies, libp2p's connections, and the clock. Where a theorem needs such a parameter to behave as
  documented, it says so in a hypothesis, and a witness shows a concrete instance. Goroutines become
  explicit interleavings: the raced provider fetches end in any order, the chunk fetches of a download
  follow an arbitrary schedule of atomic steps, and concurrent counter updates are a step relation.

  \<^bold>\<open>What is shown.\<close> End to end: a reachable node holds only authentic blocks whatever its peers do, a
  node keeps its identity over restarts, a published file is fetched back byte for byte, from the handlers
  and from the command line, a successful fetch is authentic, no field of a reachable node is nil, the routes
  change the node only where they should, the probe loop finds every answering peer, replicated blocks reach the peers and any \<open>k\<close>
  fragments suffice (the root theory, \<open>Server\<close>, \<open>Background\<close>, \<open>API\<close>, \<open>CLI\<close>, \<open>Providers\<close>, \<open>Block_Transfer\<close>, \<open>Node\<close>, \<open>Erasure\<close>). State: the cache's pointer structure is consistent and refines a list
  with the stated eviction order; the path manager and every policy keep their invariants and choose
  existing paths; pins survive restarts. Formats: chunking, the wire protocols, summaries, signatures and
  manifests round-trip, and the CSV files of the benchmarks are read back as the tables they print. Flaws of the code are theorems as well: a cache that loops when pinned blocks fill
  it, a summary that crashes a fetch, identifiers that leave the store's directory, paths that collide,
  fault scenarios that measure nothing.

  \<^bold>\<open>Termination and fuel.\<close> Loops are structural or have a measure, with one exception: the cache's loop
  that makes room may run forever, and is a partial function whose result is \<open>None\<close> then; exactly when it
  returns is the subject of \<open>LRU_Spec.Put_returns_iff\<close>. A request whose handler hangs there stays without
  an answer. The schedule of a download is completed in order after the given steps, so no fuel is needed.

  \<^bold>\<open>Not modelled.\<close> The values of the metrics, but for the cache's own counters, and the log records, which no other code reads; the parsing
  of flags and the registration of the commands, done by the command-line library; the start of mDNS and of the
  relay service, calls of the library whose failure is logged; \<^verbatim>\<open>ListFragments\<close>, which only reads a
  directory; the accessors \<^verbatim>\<open>Uptime\<close> and \<^verbatim>\<open>Ed25519PrivateKey\<close> of a node, whose results are arguments of the
  handlers that use them. Timing is left out: a loop is the sequence of its rounds, and what is sent and read
  within one operation is atomic where the text above names no interleaving.
\<close>

section \<open>A node among arbitrary peers\<close>



text \<open>
  C2. The identity of a node survives restarts: whatever it does while it runs, a start on the same data
  directory gives the same peer identifier, provided the key library decodes what it encodes, libp2p
  derives the identifier from the key, and the key file can be read.
\<close>

theorem identity_survives:
  assumes "node_reachable n0" and "Start se (New cfg fs) = (None, n0)" and "node_step\<^sup>*\<^sup>* n0 n"
    and "Start se' (New (Cfg n) (Disk n)) = (None, n')"
    and "\<forall>k raw. MarshalPrivateKey (he_crypto (se_host se)) k = Some raw \<longrightarrow> UnmarshalPrivateKey (he_crypto (se_host se)) raw = Some k"
    and "UnmarshalPrivateKey (he_crypto (se_host se')) = UnmarshalPrivateKey (he_crypto (se_host se))"
    and "\<forall>c k h. he_new (se_host se) (host_options c k) = Some h \<longrightarrow> h = id_of k"
    and "\<forall>c k h. he_new (se_host se') (host_options c k) = Some h \<longrightarrow> h = id_of k"
    and "\<not> os_read_fails (se_os se') (path_Join [DataDir cfg, keyFileName])"
  shows "Host n' = Host n0"
proof -
  let ?p = "path_Join [DataDir cfg, keyFileName]"
  obtain self fs0 where h0: "NewHost (se_host se) (se_os se) (host_config cfg) fs = (Inr self, fs0)"
    and n0: "Disk n0 = fs0" "Cfg n0 = cfg" "Host n0 = Some self" using Start_fields [OF assms(2)] by metis
  obtain priv where k0: "loadOrGenerateKey (he_crypto (se_host se)) (se_os se) (DataDir cfg) fs = (Inr priv, fs0)"
    and "he_new (se_host se) (host_options (host_config cfg) priv) = Some self"
    using NewHost_Inr [OF h0] by (metis HostConfig.select_convs(2) host_config_def)
  then have self: "self = id_of priv" using assms(7) by blast
  obtain raw where raw: "fs0 ?p = Some raw" "UnmarshalPrivateKey (he_crypto (se_host se)) raw = Some priv"
    using loadOrGenerateKey_saved [OF _ k0] assms(5) by blast
  have n: "Disk n ?p = Some raw" "Cfg n = cfg"
    using node_steps_key [OF assms(3) node_ok_reachable [OF assms(1)] key_path_end] n0 raw(1) by auto
  obtain self' fs' where h: "NewHost (se_host se') (se_os se') (host_config cfg) (Disk n) = (Inr self', fs')" and n': "Host n' = Some self'"
    using Start_fields [OF assms(4)] n(2) by metis
  obtain priv' where k: "loadOrGenerateKey (he_crypto (se_host se')) (se_os se') (DataDir cfg) (Disk n) = (Inr priv', fs')"
    and "he_new (se_host se') (host_options (host_config cfg) priv') = Some self'"
    using NewHost_Inr [OF h] by (metis HostConfig.select_convs(2) host_config_def)
  then have self': "self' = id_of priv'" using assms(8) by blast
  have "\<not> os_mkdir_fails (se_os se') (DataDir cfg)" using k by (auto simp: loadOrGenerateKey_def)
  with loadOrGenerateKey_loads [of "Disk n" "DataDir cfg" raw "he_crypto (se_host se')" priv "se_os se'"] n(1) raw(2) assms(6,9) k
  have "priv' = priv" by simp
  with self self' n' n0(3) show ?thesis by simp
qed

theorem identity_survives_witness:
  "\<exists>n0 n'. Start (wit_start [1]) (New ((DefaultConfig [])\<lparr>PathPolicy := ''epsilon-greedy''\<rparr>) (\<lambda>_. None)) = (None, n0) \<and> Host n0 = Some (wit_id [1])
     \<and> Start (wit_start [2]) (New (Cfg n0) (Disk n0)) = (None, n') \<and> Host n' = Some (wit_id [1])"
proof -
  let ?cfg = "(DefaultConfig [])\<lparr>PathPolicy := ''epsilon-greedy''\<rparr>"
  have cfg: "PathPolicy ?cfg = ''epsilon-greedy''" "BootstrapPeers ?cfg = []" by (simp_all add: DefaultConfig_def)
  obtain n0 where n0: "Start (wit_start [1]) (New ?cfg (\<lambda>_. None)) = (None, n0)" "Host n0 = Some (wit_id [1])"
    using wit_start_ok [OF cfg, of "[1]" "\<lambda>_. None"] by auto
  have "Cfg n0 = ?cfg" using Start_fields [OF n0(1)] by metis
  then obtain n' where n': "Start (wit_start [2]) (New (Cfg n0) (Disk n0)) = (None, n')"
    using wit_start_ok [OF cfg, of "[2]" "Disk n0"] by auto
  have "Host n' = Host n0"
    by (rule identity_survives [OF node_reachable.started [OF n0(1)] n0(1) rtranclp.rtrancl_refl n', where id_of = wit_id])
      (simp_all add: wit_start_def os_ok_def host_options_def)
  with n0 n' show ?thesis by auto
qed

section \<open>Nothing is nil\<close>



end
